(* ===== verification/Prelude.thy ===== *)
theory Prelude
  imports Main "HOL-Library.Monad_Syntax"
begin

text \<open>
  Shared vocabulary of the development.

  C++ \<open>int\<close> values are HOL integers together with the range check \<open>in_int32\<close>; signed overflow and
  an array access outside the bounds are undefined behaviour in C++ and are the value
  \<^term>\<open>None\<close> of the checked operations \<open>cadd\<close>, \<open>csub\<close>, \<open>aget\<close> and \<open>aset\<close>.  Straight-line code over
  shared memory is therefore a function into \<open>option\<close>, and \<open>\<noteq> None\<close> is memory safety and freedom
  from overflow.

  The theory also holds the lemma collections used by the component theories and the generic
  lemmas (cyclic reads of a ring buffer, sums over a process table), and reachability in a transition system.
\<close>

named_theorems warehouse_defs \<open>definitions of the modelled operations\<close>
named_theorems checked_simps \<open>conditional rewrite rules of the checked primitives\<close>

section \<open>Checked machine integers\<close>

definition INT32_MIN :: int where
  "INT32_MIN = - (2 ^ 31)"

definition INT32_MAX :: int where
  "INT32_MAX = 2 ^ 31 - 1"

definition in_int32 :: "int \<Rightarrow> bool" where
  "in_int32 x \<longleftrightarrow> INT32_MIN \<le> x \<and> x \<le> INT32_MAX"

definition cadd :: "int \<Rightarrow> int \<Rightarrow> int option" where
  "cadd x y = (if in_int32 (x + y) then Some (x + y) else None)"

definition csub :: "int \<Rightarrow> int \<Rightarrow> int option" where
  "csub x y = (if in_int32 (x - y) then Some (x - y) else None)"

lemma in_int32_iff: "in_int32 x \<longleftrightarrow> - 2147483648 \<le> x \<and> x \<le> 2147483647"
  by (simp add: in_int32_def INT32_MIN_def INT32_MAX_def)

lemma cadd_Some [checked_simps]: "in_int32 (x + y) \<Longrightarrow> cadd x y = Some (x + y)"
  by (simp add: cadd_def)

lemma csub_Some [checked_simps]: "in_int32 (x - y) \<Longrightarrow> csub x y = Some (x - y)"
  by (simp add: csub_def)

lemma cadd_eq_Some_iff: "cadd x y = Some z \<longleftrightarrow> in_int32 (x + y) \<and> z = x + y"
  by (auto simp: cadd_def)

lemma csub_eq_Some_iff: "csub x y = Some z \<longleftrightarrow> in_int32 (x - y) \<and> z = x - y"
  by (auto simp: csub_def)

section \<open>Checked array accesses\<close>

definition aget :: "'a list \<Rightarrow> int \<Rightarrow> 'a option" where
  "aget xs i = (if 0 \<le> i \<and> i < int (length xs) then Some (xs ! nat i) else None)"

definition aset :: "'a list \<Rightarrow> int \<Rightarrow> 'a \<Rightarrow> 'a list option" where
  "aset xs i v = (if 0 \<le> i \<and> i < int (length xs) then Some (xs[nat i := v]) else None)"

lemma aget_Some [checked_simps]: "0 \<le> i \<Longrightarrow> i < int (length xs) \<Longrightarrow> aget xs i = Some (xs ! nat i)"
  by (simp add: aget_def)

lemma aset_Some [checked_simps]:
  "0 \<le> i \<Longrightarrow> i < int (length xs) \<Longrightarrow> aset xs i v = Some (xs[nat i := v])"
  by (simp add: aset_def)

lemma aget_eq_Some_iff: "aget xs i = Some v \<longleftrightarrow> 0 \<le> i \<and> i < int (length xs) \<and> v = xs ! nat i"
  by (auto simp: aget_def)

lemma aset_eq_Some_iff:
  "aset xs i v = Some ys \<longleftrightarrow> 0 \<le> i \<and> i < int (length xs) \<and> ys = xs[nat i := v]"
  by (auto simp: aset_def)

lemma aset_length: "aset xs i v = Some ys \<Longrightarrow> length ys = length xs"
  by (auto simp: aset_eq_Some_iff)

section \<open>Reading a ring buffer\<close>

text \<open>
  \<open>ring xs h n\<close> is the list of the \<open>n\<close> cells of the cyclic array \<open>xs\<close> that start at index \<open>h\<close>.
  It is the abstraction function of the conveyor belt.
\<close>

definition ring :: "'a list \<Rightarrow> nat \<Rightarrow> nat \<Rightarrow> 'a list" where
  "ring xs h n = map (\<lambda>k. xs ! ((h + k) mod length xs)) [0..<n]"

lemma length_ring [simp]: "length (ring xs h n) = n"
  by (simp add: ring_def)

lemma ring_0 [simp]: "ring xs h 0 = []"
  by (simp add: ring_def)

lemma nth_ring [simp]: "k < n \<Longrightarrow> ring xs h n ! k = xs ! ((h + k) mod length xs)"
  by (simp add: ring_def)

lemma ring_mod_head: "ring xs (h mod length xs) n = ring xs h n"
  by (simp add: ring_def mod_add_left_eq)

lemma mod_add_inj:
  assumes "(h + j) mod n = (h + k) mod n" "j < n" "k < (n::nat)"
  shows "j = k"
proof -
  have "\<And>a b. a \<le> b \<Longrightarrow> b < n \<Longrightarrow> (h + a) mod n = (h + b) mod n \<Longrightarrow> a = b"
  proof -
    fix a b assume ab: "a \<le> b" "b < n" and eq: "(h + a) mod n = (h + b) mod n"
    from eq ab(1) have "n dvd (h + b) - (h + a)"
      by (subst mod_eq_dvd_iff_nat [symmetric]) auto
    then have "n dvd b - a" by simp
    moreover have "b - a < n" using ab by simp
    ultimately have "b - a = 0" by (auto dest: dvd_imp_le)
    with ab show "a = b" by simp
  qed
  with assms show ?thesis by (metis nat_le_linear)
qed

text \<open>Writing the first free cell appends; clearing the first used cell drops the head.\<close>

lemma ring_snoc:
  assumes "n < length xs"
  shows "ring (xs[(h + n) mod length xs := v]) h (Suc n) = ring xs h n @ [v]"
proof (rule nth_equalityI)
  show "length (ring (xs[(h + n) mod length xs := v]) h (Suc n)) = length (ring xs h n @ [v])"
    by simp
next
  fix k assume "k < length (ring (xs[(h + n) mod length xs := v]) h (Suc n))"
  then have k: "k < Suc n" by simp
  have pos: "xs \<noteq> []" using assms by auto
  show "ring (xs[(h + n) mod length xs := v]) h (Suc n) ! k = (ring xs h n @ [v]) ! k"
  proof (cases "k = n")
    case True
    then show ?thesis using pos by (simp add: nth_append)
  next
    case False
    with k have "k < n" by simp
    moreover from this assms have "(h + n) mod length xs \<noteq> (h + k) mod length xs"
      using mod_add_inj [of h n "length xs" k] by auto
    ultimately show ?thesis by (simp add: nth_append)
  qed
qed

lemma ring_Cons:
  "0 < n \<Longrightarrow> ring xs h n = xs ! (h mod length xs) # ring xs (Suc h) (n - 1)"
  by (rule nth_equalityI) (auto simp: nth_Cons split: nat.splits)

lemma ring_clear_head:
  assumes "n < length xs"
  shows "ring (xs[h mod length xs := v]) (Suc h) n = ring xs (Suc h) n"
proof (rule nth_equalityI)
  show "length (ring (xs[h mod length xs := v]) (Suc h) n) = length (ring xs (Suc h) n)" by simp
next
  fix k assume "k < length (ring (xs[h mod length xs := v]) (Suc h) n)"
  then have k: "k < n" by simp
  have "0 < length xs" "Suc k < length xs" using k assms by auto
  then have "h mod length xs \<noteq> (Suc h + k) mod length xs"
    using mod_add_inj [of h 0 "length xs" "Suc k"] by auto
  with k show "ring (xs[h mod length xs := v]) (Suc h) n ! k = ring xs (Suc h) n ! k"
    by simp
qed

section \<open>Sums over a table of processes\<close>

text \<open>How a sum over all processes changes when one of them moves.\<close>

lemma sum_list_map_update:
  fixes f :: "'a \<Rightarrow> int"
  assumes "i < length xs"
  shows "sum_list (map f (xs[i := v])) = sum_list (map f xs) - f (xs ! i) + f v"
  using assms
proof (induction xs arbitrary: i)
  case Nil
  then show ?case by simp
next
  case (Cons x xs)
  then show ?case by (cases i) auto
qed

lemma sum_list_map_nonneg:
  fixes f :: "'a \<Rightarrow> int"
  assumes "\<And>x. 0 \<le> f x"
  shows "0 \<le> sum_list (map f xs)"
  by (induction xs) (auto simp: assms)

lemma sum_list_map_ge_member:
  fixes f :: "'a \<Rightarrow> int"
  assumes nn: "\<And>x. 0 \<le> f x" and "i < length xs"
  shows "f (xs ! i) \<le> sum_list (map f xs)"
  using assms(2)
proof (induction xs arbitrary: i)
  case Nil
  then show ?case by simp
next
  case (Cons x xs)
  show ?case
  proof (cases i)
    case 0
    then show ?thesis using sum_list_map_nonneg [of f xs] nn by simp
  next
    case (Suc j)
    with Cons have "f (xs ! j) \<le> sum_list (map f xs)" by simp
    then show ?thesis using Suc nn [of x] by simp
  qed
qed

lemma sum_list_map_ge_two:
  fixes f :: "'a \<Rightarrow> int"
  assumes nn: "\<And>x. 0 \<le> f x" and "i < length xs" "j < length xs" "i \<noteq> j"
  shows "f (xs ! i) + f (xs ! j) \<le> sum_list (map f xs)"
  using assms(2-)
proof (induction xs arbitrary: i j)
  case Nil
  then show ?case by simp
next
  case (Cons x xs)
  show ?case
  proof (cases "i = 0 \<or> j = 0")
    case True
    then obtain k where k: "k < length xs" "f ((x # xs) ! i) + f ((x # xs) ! j) = f x + f (xs ! k)"
      using Cons.prems by (cases i; cases j) auto
    then show ?thesis using sum_list_map_ge_member [of f k xs] nn by simp
  next
    case False
    then obtain i' j' where ij: "i = Suc i'" "j = Suc j'" by (cases i; cases j) auto
    with Cons have "f (xs ! i') + f (xs ! j') \<le> sum_list (map f xs)" by simp
    with ij show ?thesis using nn [of x] by simp
  qed
qed

lemma sum_list_map_pos_member:
  fixes f :: "'a \<Rightarrow> int"
  shows "0 < sum_list (map f xs) \<Longrightarrow> \<exists>i < length xs. 0 < f (xs ! i)"
proof (induction xs)
  case Nil
  then show ?case by simp
next
  case (Cons x xs)
  then show ?case by (cases "0 < f x") force+
qed

section \<open>Transition systems and their invariants\<close>

inductive reachable :: "('s \<Rightarrow> bool) \<Rightarrow> ('s \<Rightarrow> 's \<Rightarrow> bool) \<Rightarrow> 's \<Rightarrow> bool" for init step where
  start: "init s \<Longrightarrow> reachable init step s"
| further: "reachable init step s \<Longrightarrow> step s s' \<Longrightarrow> reachable init step s'"

lemma reachable_steps: "step\<^sup>*\<^sup>* s s' \<Longrightarrow> reachable init step s \<Longrightarrow> reachable init step s'"
  by (induction rule: rtranclp_induct) (auto intro: reachable.further)

locale inductive_invariant =
  fixes init :: "'s \<Rightarrow> bool" and step :: "'s \<Rightarrow> 's \<Rightarrow> bool" and inv :: "'s \<Rightarrow> bool"
  assumes inv_init: "init s \<Longrightarrow> inv s"
    and inv_step: "reachable init step s \<Longrightarrow> inv s \<Longrightarrow> step s s' \<Longrightarrow> inv s'"
begin

lemma inv_reachable: "reachable init step s \<Longrightarrow> inv s"
  by (induction rule: reachable.induct) (auto intro: inv_init inv_step)

end

text \<open>
  A detailed system simulates an abstract one when every step is a sequence of abstract steps, possibly
  none; then the abstraction of every reachable state is reachable.  What is known about reachable
  states of both systems may be used to match a step.
\<close>

locale forward_simulation =
  fixes cinit :: "'c \<Rightarrow> bool" and cstep :: "'c \<Rightarrow> 'c \<Rightarrow> bool"
    and ainit :: "'a \<Rightarrow> bool" and astep :: "'a \<Rightarrow> 'a \<Rightarrow> bool" and abs :: "'c \<Rightarrow> 'a"
  assumes sim_init: "cinit s \<Longrightarrow> ainit (abs s)"
    and sim_step: "reachable cinit cstep s \<Longrightarrow> reachable ainit astep (abs s) \<Longrightarrow> cstep s s' \<Longrightarrow>
      astep\<^sup>*\<^sup>* (abs s) (abs s')"
begin

lemma abs_reachable: "reachable cinit cstep s \<Longrightarrow> reachable ainit astep (abs s)"
proof (induction rule: reachable.induct)
  case (start s)
  then show ?case by (intro reachable.start sim_init)
next
  case (further s s')
  from sim_step [OF further.hyps(1) further.IH further.hyps(2)] further.IH show ?case
    by (rule reachable_steps)
qed

end

end
