(* ===== verification/Doubles.thy ===== *)
theory Doubles
  imports Complex_Main "HOL-Library.Log_Nat"
begin

text \<open>
  C++ \<open>double\<close>: IEEE 754 binary64 with round-to-nearest, ties-to-even.

  A finite double is a rational number; \<open>rnd\<close> rounds an exact result to 53 significant bits (or to
  a multiple of \<open>2\<^sup>-\<^sup>1\<^sup>0\<^sup>7\<^sup>4\<close> below the normal range) and \<open>to_double\<close> turns a result of magnitude
  \<open>2\<^sup>1\<^sup>0\<^sup>2\<^sup>4\<close> or more into an infinity.  Addition, subtraction, multiplication and the comparisons
  follow the standard on infinities and NaN.  The sign of zero is not kept: the program only adds,
  subtracts, multiplies and compares, and none of these can tell the two zeros apart.

  The lemmas show that rounding is monotone, exact on representable numbers, and keeps the sign.
\<close>

section \<open>Rounding a rational number\<close>

definition pow2 :: "int \<Rightarrow> rat" where
  "pow2 e = (if 0 \<le> e then 2 ^ nat e else 1 / 2 ^ nat (- e))"

text \<open>\<open>ilog2 x\<close> is the exponent \<open>e\<close> with \<open>2\<^sup>e \<le> x < 2\<^sup>e\<^sup>+\<^sup>1\<close>, for positive \<open>x\<close>.\<close>

definition ilog2 :: "rat \<Rightarrow> int" where
  "ilog2 x =
     (let (n, d) = quotient_of x; k = bitlen n - bitlen d
      in if pow2 k \<le> x then k else k - 1)"

text \<open>Nearest integer, ties to even.\<close>

definition rne :: "rat \<Rightarrow> int" where
  "rne x =
     (let f = \<lfloor>x\<rfloor>; r = x - of_int f
      in if r < 1 / 2 then f else if 1 / 2 < r then f + 1 else if even f then f else f + 1)"

definition exponent :: "rat \<Rightarrow> int" where
  "exponent x = max (ilog2 \<bar>x\<bar>) (-1022)"

definition rnd :: "rat \<Rightarrow> rat" where
  "rnd x = (if x = 0 then 0
            else (let u = pow2 (exponent x - 52) in of_int (rne (x / u)) * u))"

section \<open>The type of doubles and its operations\<close>

datatype double = Fin rat | PInf | NInf | NaN

definition to_double :: "rat \<Rightarrow> double" where
  "to_double x = (let r = rnd x in if pow2 1024 \<le> r then PInf else if r \<le> - pow2 1024 then NInf else Fin r)"

text \<open>A decimal literal of the source is the double nearest to it.\<close>

abbreviation lit :: "rat \<Rightarrow> double" where
  "lit x \<equiv> to_double x"

fun dneg :: "double \<Rightarrow> double" where
  "dneg (Fin x) = Fin (- x)"
| "dneg PInf = NInf"
| "dneg NInf = PInf"
| "dneg NaN = NaN"

fun dadd :: "double \<Rightarrow> double \<Rightarrow> double" where
  "dadd (Fin x) (Fin y) = to_double (x + y)"
| "dadd NaN _ = NaN"
| "dadd _ NaN = NaN"
| "dadd PInf NInf = NaN"
| "dadd NInf PInf = NaN"
| "dadd PInf _ = PInf"
| "dadd _ PInf = PInf"
| "dadd NInf _ = NInf"
| "dadd _ NInf = NInf"

definition dsub :: "double \<Rightarrow> double \<Rightarrow> double" where
  "dsub x y = dadd x (dneg y)"

fun dsgn :: "double \<Rightarrow> int" where
  "dsgn (Fin x) = (if 0 < x then 1 else if x < 0 then -1 else 0)"
| "dsgn PInf = 1"
| "dsgn NInf = -1"
| "dsgn NaN = 0"

fun dmul :: "double \<Rightarrow> double \<Rightarrow> double" where
  "dmul (Fin x) (Fin y) = to_double (x * y)"
| "dmul NaN _ = NaN"
| "dmul _ NaN = NaN"
| "dmul x y = (if dsgn x * dsgn y = 0 then NaN else if 0 < dsgn x * dsgn y then PInf else NInf)"

fun dle :: "double \<Rightarrow> double \<Rightarrow> bool" where
  "dle NaN _ = False"
| "dle _ NaN = False"
| "dle (Fin x) (Fin y) = (x \<le> y)"
| "dle NInf _ = True"
| "dle _ PInf = True"
| "dle _ _ = False"

fun dlt :: "double \<Rightarrow> double \<Rightarrow> bool" where
  "dlt NaN _ = False"
| "dlt _ NaN = False"
| "dlt (Fin x) (Fin y) = (x < y)"
| "dlt NInf y = (y \<noteq> NInf)"
| "dlt x PInf = (x \<noteq> PInf)"
| "dlt _ _ = False"

abbreviation dge :: "double \<Rightarrow> double \<Rightarrow> bool" where
  "dge x y \<equiv> dle y x"

abbreviation dgt :: "double \<Rightarrow> double \<Rightarrow> bool" where
  "dgt x y \<equiv> dlt y x"

text \<open>A value that a binary64 register can hold.\<close>

fun is_double :: "double \<Rightarrow> bool" where
  "is_double (Fin x) = (rnd x = x \<and> \<bar>x\<bar> < pow2 1024)"
| "is_double _ = True"

section \<open>Powers of two and the exponent\<close>

lemma pow2_pos [simp]: "0 < pow2 e"
  by (simp add: pow2_def)

lemma pow2_ge_0 [simp]: "0 \<le> pow2 e"
  using pow2_pos [of e] by linarith

lemma pow2_neq_0 [simp]: "pow2 e \<noteq> 0"
  using pow2_pos [of e] by linarith

lemma pow2_powi: "pow2 e = 2 powi e"
  by (simp add: pow2_def power_int_def field_simps)

lemma pow2_add: "pow2 (a + b) = pow2 a * pow2 b"
  by (simp add: pow2_powi power_int_add)

lemma pow2_of_nat: "pow2 (int n) = 2 ^ n"
  by (simp add: pow2_def)

lemma pow2_mono: "a \<le> b \<Longrightarrow> pow2 a \<le> pow2 b"
  by (simp add: pow2_powi power_int_increasing)

lemma pow2_less_iff: "pow2 a < pow2 b \<longleftrightarrow> a < b"
  by (metis linorder_not_le pow2_mono less_le_not_le pow2_powi power_int_strict_increasing one_less_numeral_iff semiring_norm(76))

lemma pow2_split: "pow2 b = pow2 (b - a) * pow2 a"
  using pow2_add [of "b - a" a] by simp

lemma pow2_le_of_int: "2 ^ k \<le> (n::int) \<Longrightarrow> pow2 (int k) \<le> of_int n"
  by (metis of_int_le_iff of_int_numeral of_int_power pow2_of_nat)

lemma of_int_less_pow2: "(n::int) < 2 ^ k \<Longrightarrow> of_int n < pow2 (int k)"
  by (metis of_int_less_iff of_int_numeral of_int_power pow2_of_nat)

lemma ilog2_bounds:
  assumes "0 < x"
  shows "pow2 (ilog2 x) \<le> x" "x < pow2 (ilog2 x + 1)"
proof -
  obtain n d where q: "quotient_of x = (n, d)" by (cases "quotient_of x")
  have d: "0 < d" using quotient_of_denom_pos [OF q] .
  have x: "x = of_int n / of_int d" using quotient_of_div [OF q] .
  have n: "0 < n"
    using assms d by (simp add: x zero_less_divide_iff)
  define k where "k = bitlen n - bitlen d"
  have nb: "2 ^ nat (bitlen n - 1) \<le> n" "n < 2 ^ nat (bitlen n)"
    using bitlen_bounds [OF n] by auto
  have db: "2 ^ nat (bitlen d - 1) \<le> d" "d < 2 ^ nat (bitlen d)"
    using bitlen_bounds [OF d] by auto
  have bn: "1 \<le> bitlen n" and bd: "1 \<le> bitlen d"
    using n d bitlen_nonneg [of n] bitlen_nonneg [of d] bitlen_eq_zero_iff [of n] bitlen_eq_zero_iff [of d]
    by linarith+
  have N: "pow2 (bitlen n - 1) \<le> of_int n" "of_int n < pow2 (bitlen n)"
    using pow2_le_of_int [OF nb(1)] of_int_less_pow2 [OF nb(2)] bn by simp_all
  have D: "pow2 (bitlen d - 1) \<le> of_int d" "of_int d < pow2 (bitlen d)"
    using pow2_le_of_int [OF db(1)] of_int_less_pow2 [OF db(2)] bd by simp_all
  have dpos: "0 < (of_int d :: rat)" using d by simp
  have lower: "pow2 (k - 1) \<le> x"
  proof -
    have "pow2 (k - 1) * of_int d \<le> pow2 (k - 1) * pow2 (bitlen d)"
      using D(2) by (intro mult_left_mono) auto
    also have "\<dots> = pow2 (bitlen n - 1)" by (simp add: k_def flip: pow2_add)
    finally show ?thesis using N(1) dpos by (simp add: x pos_le_divide_eq)
  qed
  have upper: "x < pow2 (k + 1)"
  proof -
    have "of_int n < pow2 (bitlen n)" by (rule N(2))
    also have "\<dots> = pow2 (k + 1) * pow2 (bitlen d - 1)" by (simp add: k_def flip: pow2_add)
    also have "\<dots> \<le> pow2 (k + 1) * of_int d" using D(1) by (intro mult_left_mono) auto
    finally show ?thesis using dpos by (simp add: x pos_divide_less_eq)
  qed
  have e: "ilog2 x = (if pow2 k \<le> x then k else k - 1)"
    by (simp add: ilog2_def q k_def)
  show "pow2 (ilog2 x) \<le> x" "x < pow2 (ilog2 x + 1)"
    using lower upper by (auto simp: e)
qed

lemma ilog2_unique:
  assumes "pow2 e \<le> x" "x < pow2 (e + 1)"
  shows "ilog2 x = e"
proof -
  have "0 < x" using assms(1) pow2_pos [of e] by linarith
  note b = ilog2_bounds [OF this]
  have "pow2 (ilog2 x) < pow2 (e + 1)" "pow2 e < pow2 (ilog2 x + 1)"
    using assms b by linarith+
  then show ?thesis by (simp add: pow2_less_iff)
qed

lemma ilog2_mono:
  assumes "0 < x" "x \<le> y"
  shows "ilog2 x \<le> ilog2 y"
proof -
  have "pow2 (ilog2 x) < pow2 (ilog2 y + 1)"
    using ilog2_bounds [of x] ilog2_bounds [of y] assms by linarith
  then show ?thesis by (simp add: pow2_less_iff)
qed

section \<open>Rounding to an integer\<close>

lemma rne_of_int [simp]: "rne (of_int m) = m"
  by (simp add: rne_def)

lemma rne_mono:
  assumes "x \<le> y"
  shows "rne x \<le> rne y"
proof (cases "\<lfloor>x\<rfloor> = \<lfloor>y\<rfloor>")
  case True
  then show ?thesis using assms by (auto simp: rne_def Let_def)
next
  case False
  with assms have "\<lfloor>x\<rfloor> + 1 \<le> \<lfloor>y\<rfloor>" using floor_mono [OF assms] by simp
  then show ?thesis by (auto simp: rne_def Let_def)
qed

lemma rne_le_of_int: "x \<le> of_int m \<Longrightarrow> rne x \<le> m"
  using rne_mono [of x "of_int m"] by simp

lemma rne_ge_of_int: "of_int m \<le> x \<Longrightarrow> m \<le> rne x"
  using rne_mono [of "of_int m" x] by simp

lemma rne_neg [simp]: "rne (- x) = - rne x"
proof (cases "x = of_int \<lfloor>x\<rfloor>")
  case True
  then have "rne x = \<lfloor>x\<rfloor>" "rne (- x) = - \<lfloor>x\<rfloor>"
    using rne_of_int [of "\<lfloor>x\<rfloor>"] rne_of_int [of "- \<lfloor>x\<rfloor>"] by (metis, metis of_int_minus)
  then show ?thesis by simp
next
  case False
  then have "x \<noteq> of_int \<lfloor>x\<rfloor>" .
  then have f: "\<lfloor>- x\<rfloor> = - \<lfloor>x\<rfloor> - 1"
    by (intro floor_unique) (simp_all, linarith+)
  show ?thesis by (auto simp: rne_def Let_def f)
qed

section \<open>Properties of rounding\<close>

lemma rnd_0 [simp]: "rnd 0 = 0"
  by (simp add: rnd_def)

lemma exponent_neg [simp]: "exponent (- x) = exponent x"
  by (simp add: exponent_def)

lemma rnd_neg [simp]: "rnd (- x) = - rnd x"
  by (simp add: rnd_def Let_def)

lemma rnd_le_pow2:
  assumes "0 < x"
  shows "rnd x \<le> pow2 (exponent x + 1)"
proof -
  define u where "u = pow2 (exponent x - 52)"
  have "x \<le> pow2 (exponent x + 1)"
    using ilog2_bounds(2) [OF assms] pow2_mono [of "ilog2 x + 1" "exponent x + 1"] assms
    by (simp add: exponent_def)
  also have "\<dots> = 2 ^ 53 * u"
    using pow2_add [of 53 "exponent x - 52"] pow2_of_nat [of 53] by (simp add: u_def algebra_simps)
  finally have "x / u \<le> of_int (2 ^ 53)"
    by (simp add: u_def pos_divide_le_eq)
  then have "rne (x / u) \<le> 2 ^ 53" by (rule rne_le_of_int)
  then have "(of_int (rne (x / u)) :: rat) \<le> of_int (2 ^ 53)" by (simp only: of_int_le_iff)
  then have "of_int (rne (x / u)) * u \<le> 2 ^ 53 * u"
    by (intro mult_right_mono) (simp_all add: u_def)
  also have "\<dots> = pow2 (exponent x + 1)"
    using pow2_add [of 53 "exponent x - 52"] pow2_of_nat [of 53] by (simp add: u_def algebra_simps)
  finally show ?thesis using assms by (simp add: rnd_def Let_def u_def)
qed

lemma rnd_ge_pow2:
  assumes "0 < x" "-1022 < exponent x"
  shows "pow2 (exponent x) \<le> rnd x"
proof -
  define u where "u = pow2 (exponent x - 52)"
  have e: "pow2 (exponent x) = 2 ^ 52 * u"
    using pow2_add [of 52 "exponent x - 52"] pow2_of_nat [of 52] by (simp add: u_def algebra_simps)
  have "exponent x = ilog2 x" using assms by (simp add: exponent_def max_def split: if_splits)
  then have "2 ^ 52 * u \<le> x" using ilog2_bounds(1) [OF assms(1)] e by simp
  then have "of_int (2 ^ 52) \<le> x / u" by (simp add: u_def pos_le_divide_eq)
  then have "2 ^ 52 \<le> rne (x / u)" by (rule rne_ge_of_int)
  then have "(of_int (2 ^ 52) :: rat) \<le> of_int (rne (x / u))" by (simp only: of_int_le_iff)
  then have "2 ^ 52 * u \<le> of_int (rne (x / u)) * u"
    by (intro mult_right_mono) (simp_all add: u_def)
  then show ?thesis using assms by (simp add: rnd_def e flip: u_def)
qed

lemma rnd_nonneg:
  assumes "0 \<le> x"
  shows "0 \<le> rnd x"
proof (cases "x = 0")
  case False
  have "0 \<le> rne (x / pow2 (exponent x - 52))"
    by (rule rne_ge_of_int) (simp add: assms)
  then show ?thesis by (simp add: rnd_def Let_def)
qed simp

lemma rnd_mono_pos:
  assumes "0 < x" "x \<le> y"
  shows "rnd x \<le> rnd y"
proof -
  have y: "0 < y" using assms by linarith
  have ee: "exponent x \<le> exponent y"
    using ilog2_mono [OF assms] assms y by (simp add: exponent_def max.coboundedI1)
  show ?thesis
  proof (cases "exponent x = exponent y")
    case True
    define u where "u = pow2 (exponent y - 52)"
    have "rne (x / u) \<le> rne (y / u)"
      using assms by (intro rne_mono divide_right_mono) (simp_all add: u_def)
    then have "of_int (rne (x / u)) * u \<le> of_int (rne (y / u)) * u"
      by (intro mult_right_mono) (simp_all add: u_def)
    then show ?thesis using assms y by (simp add: rnd_def True flip: u_def)
  next
    case False
    with ee have lt: "exponent x + 1 \<le> exponent y" by simp
    moreover have "-1022 \<le> exponent x" by (simp add: exponent_def)
    ultimately have "-1022 < exponent y" by linarith
    then have "pow2 (exponent y) \<le> rnd y" using rnd_ge_pow2 y by blast
    moreover have "rnd x \<le> pow2 (exponent x + 1)" using rnd_le_pow2 assms by blast
    moreover have "pow2 (exponent x + 1) \<le> pow2 (exponent y)" using lt by (rule pow2_mono)
    ultimately show ?thesis by linarith
  qed
qed

lemma rnd_mono:
  assumes "x \<le> y"
  shows "rnd x \<le> rnd y"
proof -
  consider "0 < x" | "x \<le> 0" "0 \<le> y" | "y < 0" by linarith
  then show ?thesis
  proof cases
    case 1
    then show ?thesis using assms by (rule rnd_mono_pos)
  next
    case 2
    have "rnd x \<le> 0" using rnd_nonneg [of "- x"] 2 by simp
    then show ?thesis using rnd_nonneg [of y] 2 by linarith
  next
    case 3
    then have "rnd (- y) \<le> rnd (- x)" using assms by (intro rnd_mono_pos) auto
    then show ?thesis by simp
  qed
qed

text \<open>
  A number with at most 53 significant bits and no bit below \<open>2\<^sup>-\<^sup>1\<^sup>0\<^sup>7\<^sup>4\<close> is left alone by rounding.
\<close>

lemma rnd_multiple:
  assumes "x \<noteq> 0" "x = of_int m * pow2 k" "exponent x - 52 \<le> k"
  shows "rnd x = x"
proof -
  define u where "u = pow2 (exponent x - 52)"
  have "pow2 k = pow2 (k - (exponent x - 52)) * u"
    unfolding u_def by (rule pow2_split)
  then have "x = of_int (m * 2 ^ nat (k - (exponent x - 52))) * u"
    using assms(2,3) by (simp add: pow2_def)
  moreover have "u \<noteq> 0" by (simp add: u_def)
  ultimately have "x / u = of_int (m * 2 ^ nat (k - (exponent x - 52)))"
    by (metis nonzero_mult_div_cancel_right)
  then have "of_int (rne (x / u)) = x / u" by (simp only: rne_of_int)
  then show ?thesis using assms(1) by (simp add: rnd_def flip: u_def) (simp add: u_def)
qed

lemma rnd_exact:
  assumes m: "\<bar>m\<bar> \<le> 2 ^ 53" and k: "-1074 \<le> k"
  shows "rnd (of_int m * pow2 k) = of_int m * pow2 k"
proof (cases "\<bar>m\<bar> = 2 ^ 53")
  case True
  define x :: rat where "x = of_int m * pow2 k"
  have ab: "\<bar>x\<bar> = pow2 (k + 53)"
    using True pow2_add [of k 53] pow2_of_nat [of 53]
    by (simp add: x_def abs_mult flip: of_int_abs)
  have "ilog2 \<bar>x\<bar> = k + 53"
    by (rule ilog2_unique) (simp_all add: ab pow2_less_iff)
  then have e: "exponent x = k + 53" using k by (simp add: exponent_def)
  have "m = 2 ^ 53 \<or> m = - (2 ^ 53)" using True by linarith
  then have "x = of_int (sgn m) * pow2 (k + 53)"
    using pow2_add [of k 53] pow2_of_nat [of 53] by (auto simp: x_def)
  moreover have "x \<noteq> 0" using True by (auto simp: x_def)
  ultimately have "rnd x = x"
    using e by (intro rnd_multiple [where k = "k + 53"]) auto
  then show ?thesis by (simp add: x_def)
next
  case False
  define x :: rat where "x = of_int m * pow2 k"
  show ?thesis
  proof (cases "m = 0")
    case False
    have "\<bar>m\<bar> < 2 ^ 53" using m \<open>\<bar>m\<bar> \<noteq> 2 ^ 53\<close> by linarith
    then have "(of_int \<bar>m\<bar> :: rat) < of_int (2 ^ 53)" by (simp only: of_int_less_iff)
    then have "\<bar>x\<bar> < 2 ^ 53 * pow2 k"
      by (simp add: x_def abs_mult)
    also have "\<dots> = pow2 (k + 53)"
      using pow2_add [of k 53] pow2_of_nat [of 53] by simp
    finally have "\<bar>x\<bar> < pow2 (k + 53)" .
    moreover have "x \<noteq> 0" using False by (simp add: x_def)
    ultimately have "pow2 (ilog2 \<bar>x\<bar>) < pow2 (k + 53)"
      using ilog2_bounds(1) [of "\<bar>x\<bar>"] by linarith
    then have "exponent x - 52 \<le> k" using k by (simp add: exponent_def pow2_less_iff)
    with \<open>x \<noteq> 0\<close> have "rnd x = x" by (intro rnd_multiple [where m = m and k = k]) (simp_all add: x_def)
    then show ?thesis by (simp add: x_def)
  qed simp
qed

lemma rnd_int: "\<bar>m\<bar> \<le> 2 ^ 53 \<Longrightarrow> rnd (of_int m) = of_int m"
  using rnd_exact [of m 0] by (simp add: pow2_def)

text \<open>The result of rounding is representable, so rounding twice is rounding once.\<close>

lemma rnd_form_pos:
  assumes "0 < x"
  shows "\<exists>m k. rnd x = of_int m * pow2 k \<and> \<bar>m\<bar> \<le> 2 ^ 53 \<and> -1074 \<le> k"
proof -
  define u where "u = pow2 (exponent x - 52)"
  have r: "rnd x = of_int (rne (x / u)) * u"
    using assms by (simp add: rnd_def flip: u_def)
  have "of_int (rne (x / u)) * u \<le> 2 ^ 53 * u"
    using rnd_le_pow2 [OF assms] pow2_add [of 53 "exponent x - 52"] pow2_of_nat [of 53]
    by (simp add: r u_def algebra_simps)
  then have "(of_int (rne (x / u)) :: rat) \<le> of_int (2 ^ 53)" by (simp add: u_def)
  then have "rne (x / u) \<le> 2 ^ 53" by (simp only: of_int_le_iff)
  moreover have "0 \<le> rne (x / u)" using assms by (intro rne_ge_of_int) (simp add: u_def)
  moreover have "-1074 \<le> exponent x - 52" by (simp add: exponent_def)
  ultimately show ?thesis using r by (metis abs_of_nonneg u_def)
qed

lemma rnd_idem [simp]: "rnd (rnd x) = rnd x"
proof -
  have pos: "rnd (rnd y) = rnd y" if "0 < y" for y
    using rnd_form_pos [OF that] rnd_exact by metis
  show ?thesis
  proof (cases x "0::rat" rule: linorder_cases)
    case less
    then show ?thesis using pos [of "- x"] by simp
  next
    case greater
    then show ?thesis by (rule pos)
  qed simp
qed

text \<open>Certificates: the exponent and the significand of a rounded value, checked by arithmetic.\<close>

lemma rne_unique:
  assumes "\<bar>x - of_int m\<bar> < 1 / 2"
  shows "rne x = m"
proof -
  have "\<lfloor>x\<rfloor> = m \<or> \<lfloor>x\<rfloor> = m - 1"
    using assms by (cases "of_int m \<le> x") (auto simp: floor_eq_iff abs_if split: if_splits)
  then show ?thesis
    using assms by (auto simp: rne_def Let_def abs_if field_simps split: if_splits)
qed

lemma rnd_by:
  assumes "pow2 e \<le> x" "x < pow2 (e + 1)" "-1022 \<le> e" "\<bar>x * pow2 (52 - e) - of_int m\<bar> < 1 / 2"
  shows "rnd x = of_int m * pow2 (e - 52)"
proof -
  have x: "0 < x" using assms(1) pow2_pos [of e] by linarith
  have "exponent x = e"
    using ilog2_unique [OF assms(1,2)] assms(3) x by (simp add: exponent_def)
  moreover have "x / pow2 (e - 52) = x * pow2 (52 - e)"
    using pow2_add [of "e - 52" "52 - e"] by (simp add: pow2_def field_simps)
  ultimately show ?thesis
    using x rne_unique [OF assms(4)] by (simp add: rnd_def)
qed

lemma to_double_Fin:
  assumes "\<bar>rnd x\<bar> \<le> pow2 1000"
  shows "to_double x = Fin (rnd x)"
proof -
  have "pow2 1000 < pow2 1024" by (simp add: pow2_less_iff)
  with assms show ?thesis by (simp add: to_double_def Let_def abs_le_iff)
qed

lemma to_double_by:
  assumes "pow2 e \<le> x" "x < pow2 (e + 1)" "-1022 \<le> e" "e < 900"
    "\<bar>x * pow2 (52 - e) - of_int m\<bar> < 1 / 2"
  shows "to_double x = Fin (of_int m * pow2 (e - 52))"
proof -
  have x: "0 < x" using assms(1) pow2_pos [of e] by linarith
  have "exponent x = e"
    using ilog2_unique [OF assms(1,2)] assms(3) x by (simp add: exponent_def)
  then have "rnd x \<le> pow2 (e + 1)" using rnd_le_pow2 [OF x] by simp
  also have "\<dots> \<le> pow2 1000" using assms(4) by (intro pow2_mono) simp
  finally have "\<bar>rnd x\<bar> \<le> pow2 1000" using rnd_nonneg [of x] x by simp
  then show ?thesis using rnd_by [OF assms(1-3,5)] to_double_Fin by simp
qed

lemma to_double_exact:
  assumes "\<bar>m\<bar> \<le> 2 ^ 53" "-1074 \<le> k" "k \<le> 900"
  shows "to_double (of_int m * pow2 k) = Fin (of_int m * pow2 k)"
proof -
  have "(of_int \<bar>m\<bar> :: rat) \<le> of_int (2 ^ 53)" using assms(1) by (simp only: of_int_le_iff)
  then have "\<bar>of_int m * pow2 k\<bar> \<le> 2 ^ 53 * pow2 k"
    by (simp add: abs_mult)
  also have "\<dots> = pow2 (53 + k)" using pow2_add [of 53 k] pow2_of_nat [of 53] by simp
  also have "\<dots> \<le> pow2 1000" using assms(3) by (intro pow2_mono) simp
  finally show ?thesis using to_double_Fin rnd_exact [OF assms(1,2)] by simp
qed

lemma to_double_int: "\<bar>m\<bar> \<le> 2 ^ 53 \<Longrightarrow> to_double (of_int m) = Fin (of_int m)"
  using to_double_exact [of m 0] by (simp add: pow2_def)

lemma to_double_0 [simp]: "to_double 0 = Fin 0"
  using to_double_int [of 0] by simp

lemma to_double_1 [simp]: "to_double 1 = Fin 1"
  using to_double_int [of 1] by simp

lemma to_double_numeral:
  "numeral n \<le> (2 ^ 53 :: int) \<Longrightarrow> to_double (numeral n) = Fin (numeral n)"
  using to_double_int [of "numeral n"] by simp

section \<open>The order on doubles and the growth of sums\<close>

lemma dle_refl: "x \<noteq> NaN \<Longrightarrow> dle x x"
  by (cases x) auto

lemma dle_trans: "dle x y \<Longrightarrow> dle y z \<Longrightarrow> dle x z"
  by (cases x; cases y; cases z) auto

lemma dle_not_NaN: "dle x y \<Longrightarrow> x \<noteq> NaN \<and> y \<noteq> NaN"
  by (cases x; cases y) auto

lemma dlt_iff: "dlt x y \<longleftrightarrow> dle x y \<and> \<not> dle y x"
  by (cases x; cases y) auto

lemma dlt_imp_dle: "dlt x y \<Longrightarrow> dle x y"
  by (simp add: dlt_iff)

lemma to_double_mono: "x \<le> y \<Longrightarrow> dle (to_double x) (to_double y)"
  using rnd_mono [of x y] pow2_pos [of 1024] by (auto simp: to_double_def Let_def)

lemma is_double_to_double [simp]: "is_double (to_double x)"
  by (simp add: to_double_def Let_def abs_if)

lemma is_double_numeral: "numeral n \<le> (2 ^ 53 :: int) \<Longrightarrow> is_double (Fin (numeral n))"
  using is_double_to_double [of "numeral n"] to_double_numeral [of n] by metis

lemma is_double_1: "is_double (Fin 1)"
  using is_double_to_double [of 1] by (simp only: to_double_1)

lemma to_double_of_is_double: "is_double (Fin x) \<Longrightarrow> to_double x = Fin x"
  by (auto simp: to_double_def Let_def abs_if split: if_splits)

lemma is_double_dadd: "is_double x \<Longrightarrow> is_double y \<Longrightarrow> is_double (dadd x y)"
  by (cases x; cases y) auto

lemma to_double_neq_NaN [simp]: "to_double x \<noteq> NaN"
  by (simp add: to_double_def Let_def)

text \<open>Adding a non-negative amount never makes a non-negative total smaller.\<close>

lemma dadd_ge:
  assumes "is_double x" "dle (Fin 0) x" "dle (Fin 0) y"
  shows "dle x (dadd x y)"
proof (cases x)
  case (Fin a)
  show ?thesis
  proof (cases y)
    case (Fin b)
    have "dle (to_double a) (to_double (a + b))"
      using assms Fin by (intro to_double_mono) simp
    then show ?thesis using assms(1) Fin \<open>x = Fin a\<close> to_double_of_is_double by simp
  qed (use assms Fin in auto)
qed (use assms in \<open>cases y; auto\<close>)+

lemma dadd_nonneg:
  assumes "is_double x" "dle (Fin 0) x" "dle (Fin 0) y"
  shows "dle (Fin 0) (dadd x y)"
  using dle_trans [OF assms(2) dadd_ge [OF assms]] .

lemma dadd_0_right: "is_double x \<Longrightarrow> dadd x (Fin 0) = x"
  by (cases x) (simp_all add: to_double_of_is_double del: is_double.simps)

end
