(* ===== verification/Shared.thy ===== *)
theory Shared
  imports Prelude Doubles "HOL-Library.Word"
begin

text \<open>
  Constants, enumerations and data structures of \<open>include/Shared.h\<close>: the memory layout all
  processes share.

  The scoped enumerations are bit masks over an unsigned integer type and are words of that width.
  A C array is a list of the array's length; \<open>zero_Package\<close>, \<open>zero_UserSession\<close> and
  \<open>zero_SharedState\<close> are the values that \<open>memset(\<dots>, 0, sizeof \<dots>)\<close> and \<open>{}\<close> produce.
\<close>

unbundle bit_operations_syntax

section \<open>Capacity constants, keys and limits\<close>

definition MAX_WORKERS_PER_BELT :: int where
  "MAX_WORKERS_PER_BELT = 100"

definition MAX_BELT_CAPACITY_K :: int where
  "MAX_BELT_CAPACITY_K = 10"

definition MAX_BELT_WEIGHT_M :: double where
  "MAX_BELT_WEIGHT_M = lit 1000"

definition VOL_A :: double where
  "VOL_A = lit (19456 / 1000000)"

definition VOL_B :: double where
  "VOL_B = lit (46208 / 1000000)"

definition VOL_C :: double where
  "VOL_C = lit (99712 / 1000000)"

definition SHM_KEY_ID :: int where "SHM_KEY_ID = 1234"

definition SEM_KEY_ID :: int where "SEM_KEY_ID = 5678"

definition MSG_KEY_ID :: int where "MSG_KEY_ID = 9012"

definition MAX_PACKAGE_HISTORY :: int where
  "MAX_PACKAGE_HISTORY = 6"

definition MAX_USERS_SESSIONS :: int where
  "MAX_USERS_SESSIONS = 210"

type_synonym OrgId = int
type_synonym pid_t = int
type_synonym time_t = int

lemmas shared_consts =
  MAX_WORKERS_PER_BELT_def MAX_BELT_CAPACITY_K_def MAX_PACKAGE_HISTORY_def MAX_USERS_SESSIONS_def

section \<open>Enumerations\<close>

datatype SemIndex = SEM_MUTEX_BELT | SEM_EMPTY_SLOTS | SEM_FULL_SLOTS | SEM_DOCK_MUTEX

datatype SignalType = SIGNAL_NONE | SIGNAL_DEPARTURE | SIGNAL_EXPRESS_LOAD | SIGNAL_END_WORK

type_synonym PackageType = "8 word"
type_synonym UserRole = "16 word"
type_synonym PackageStatus = "8 word"
type_synonym ActionType = "8 word"

definition PackageType_or :: "PackageType \<Rightarrow> PackageType \<Rightarrow> PackageType" where
  "PackageType_or lhs rhs = lhs OR rhs"

definition PackageType_and :: "PackageType \<Rightarrow> PackageType \<Rightarrow> PackageType" where
  "PackageType_and lhs rhs = lhs AND rhs"

definition PackageType_hasFlag :: "PackageType \<Rightarrow> PackageType \<Rightarrow> bool" where
  "PackageType_hasFlag val flag \<longleftrightarrow> val AND flag \<noteq> 0"

definition PackageType_None :: PackageType where "PackageType_None = 0"
definition TypeA :: PackageType where "TypeA = push_bit 0 1"
definition TypeB :: PackageType where "TypeB = push_bit 1 1"
definition TypeC :: PackageType where "TypeC = push_bit 2 1"
definition PackageType_All :: PackageType where
  "PackageType_All = PackageType_or (PackageType_or TypeA TypeB) TypeC"

definition UserRole_or :: "UserRole \<Rightarrow> UserRole \<Rightarrow> UserRole" where
  "UserRole_or lhs rhs = lhs OR rhs"

definition UserRole_and :: "UserRole \<Rightarrow> UserRole \<Rightarrow> UserRole" where
  "UserRole_and lhs rhs = lhs AND rhs"

definition UserRole_hasFlag :: "UserRole \<Rightarrow> UserRole \<Rightarrow> bool" where
  "UserRole_hasFlag val flag \<longleftrightarrow> val AND flag \<noteq> 0"

definition UserRole_None :: UserRole where "UserRole_None = 0"
definition Viewer :: UserRole where "Viewer = push_bit 0 1"
definition Operator :: UserRole where "Operator = push_bit 1 1"
definition OrgAdmin :: UserRole where "OrgAdmin = push_bit 2 1"
definition SysAdmin :: UserRole where "SysAdmin = push_bit 3 1"
definition UserRole_All :: UserRole where
  "UserRole_All = UserRole_or (UserRole_or (UserRole_or Viewer Operator) OrgAdmin) SysAdmin"

definition PackageStatus_or :: "PackageStatus \<Rightarrow> PackageStatus \<Rightarrow> PackageStatus" where
  "PackageStatus_or lhs rhs = lhs OR rhs"

definition PackageStatus_and :: "PackageStatus \<Rightarrow> PackageStatus \<Rightarrow> PackageStatus" where
  "PackageStatus_and lhs rhs = lhs AND rhs"

definition PackageStatus_hasFlag :: "PackageStatus \<Rightarrow> PackageStatus \<Rightarrow> bool" where
  "PackageStatus_hasFlag val flag \<longleftrightarrow> val AND flag \<noteq> 0"

definition Status_Normal :: PackageStatus where "Status_Normal = 0"
definition Status_Express :: PackageStatus where "Status_Express = push_bit 0 1"
definition Status_Loaded :: PackageStatus where "Status_Loaded = push_bit 1 1"

definition ActionType_or :: "ActionType \<Rightarrow> ActionType \<Rightarrow> ActionType" where
  "ActionType_or lhs rhs = lhs OR rhs"

definition ActionType_and :: "ActionType \<Rightarrow> ActionType \<Rightarrow> ActionType" where
  "ActionType_and lhs rhs = lhs AND rhs"

definition ActionType_hasFlag :: "ActionType \<Rightarrow> ActionType \<Rightarrow> bool" where
  "ActionType_hasFlag val flag \<longleftrightarrow> val AND flag \<noteq> 0"

definition Action_None :: ActionType where "Action_None = 0"
definition Created :: ActionType where "Created = push_bit 0 1"
definition PlacedOnBelt :: ActionType where "PlacedOnBelt = push_bit 1 1"
definition PickedUp :: ActionType where "PickedUp = push_bit 2 1"
definition LoadedToTruck :: ActionType where "LoadedToTruck = push_bit 3 1"
definition ByWorker :: ActionType where "ByWorker = push_bit 4 1"
definition ByExpress :: ActionType where "ByExpress = push_bit 5 1"
definition ByTruck :: ActionType where "ByTruck = push_bit 6 1"
definition Forced :: ActionType where "Forced = push_bit 7 1"

lemmas flag_defs =
  PackageType_or_def PackageType_and_def PackageType_hasFlag_def
  UserRole_or_def UserRole_and_def UserRole_hasFlag_def
  PackageStatus_or_def PackageStatus_and_def PackageStatus_hasFlag_def
  ActionType_or_def ActionType_and_def ActionType_hasFlag_def

lemmas role_consts = UserRole_None_def Viewer_def Operator_def OrgAdmin_def SysAdmin_def

section \<open>Structures\<close>

record UserContext =
  uc_username :: string
  uc_role :: UserRole
  uc_orgId :: OrgId

definition UserContext_default :: UserContext where
  "UserContext_default = \<lparr>uc_username = ''anonymous'', uc_role = UserRole_None, uc_orgId = 0\<rparr>"

definition UserContext_new :: "string \<Rightarrow> UserRole \<Rightarrow> OrgId \<Rightarrow> UserContext" where
  "UserContext_new u r ofs = \<lparr>uc_username = u, uc_role = r, uc_orgId = ofs\<rparr>"

record ActionRecord =
  act_type :: ActionType
  actor_pid :: pid_t
  timestamp :: time_t

record Package =
  pkg_id :: int
  creator_pid :: pid_t
  editor_pid :: pid_t
  pkg_type :: PackageType
  status :: PackageStatus
  weight :: double
  volume :: double
  created_at :: time_t
  updated_at :: time_t
  history :: "ActionRecord list"
  history_count :: int

text \<open>
  \<open>Package::pushAction\<close>.  The two calls of \<open>std::time\<close> return \<open>t1\<close> and \<open>t2\<close>.  The guard bounds
  \<open>history_count\<close> from above only, so a negative count indexes outside the array.
\<close>

definition pushAction :: "time_t \<Rightarrow> time_t \<Rightarrow> ActionType \<Rightarrow> pid_t \<Rightarrow> Package \<Rightarrow> Package option" where
  "pushAction t1 t2 action pid p =
     (if history_count p < MAX_PACKAGE_HISTORY then do {
        h \<leftarrow> aset (history p) (history_count p)
               \<lparr>act_type = action, actor_pid = pid, timestamp = t1\<rparr>;
        n \<leftarrow> cadd (history_count p) 1;
        Some (p\<lparr>history := h, history_count := n, updated_at := t2, editor_pid := pid\<rparr>)
      } else Some p)"

record UserSession =
  active :: bool
  username :: "char list"
  session_pid :: pid_t
  role :: UserRole
  orgId :: OrgId
  max_processes :: int
  current_processes :: int

record TruckState =
  is_present :: bool
  truck_id :: int
  current_load :: int
  max_load :: int
  current_volume :: double
  current_weight :: double
  max_weight :: double
  max_volume :: double

record SharedState =
  belt :: "Package list"
  head :: int
  tail :: int
  current_workers_count :: int
  current_items_count :: int
  current_belt_weight :: double
  running :: bool
  trucks_completed :: int
  total_packages_created :: int
  force_truck_departure :: bool
  p4_load_command :: bool
  users :: "UserSession list"
  dock_truck :: TruckState

record CommandMessage =
  mtype :: int
  command_id :: int

section \<open>Zeroed memory\<close>

definition NUL :: char where
  "NUL = CHR 0x00"

definition zero_ActionRecord :: ActionRecord where
  "zero_ActionRecord = \<lparr>act_type = 0, actor_pid = 0, timestamp = 0\<rparr>"

definition zero_Package :: Package where
  "zero_Package =
     \<lparr>pkg_id = 0, creator_pid = 0, editor_pid = 0, pkg_type = 0, status = 0, weight = Fin 0,
      volume = Fin 0, created_at = 0, updated_at = 0,
      history = replicate (nat MAX_PACKAGE_HISTORY) zero_ActionRecord, history_count = 0\<rparr>"

definition zero_UserSession :: UserSession where
  "zero_UserSession =
     \<lparr>active = False, username = replicate 32 NUL, session_pid = 0, role = 0, orgId = 0,
      max_processes = 0, current_processes = 0\<rparr>"

definition zero_TruckState :: TruckState where
  "zero_TruckState =
     \<lparr>is_present = False, truck_id = 0, current_load = 0, max_load = 0, current_volume = Fin 0,
      current_weight = Fin 0, max_weight = Fin 0, max_volume = Fin 0\<rparr>"

definition zero_SharedState :: SharedState where
  "zero_SharedState =
     \<lparr>belt = replicate (nat MAX_BELT_CAPACITY_K) zero_Package, head = 0, tail = 0,
      current_workers_count = 0, current_items_count = 0, current_belt_weight = Fin 0,
      running = False, trucks_completed = 0, total_packages_created = 0,
      force_truck_departure = False, p4_load_command = False,
      users = replicate (nat MAX_USERS_SESSIONS) zero_UserSession, dock_truck = zero_TruckState\<rparr>"

section \<open>Bit masks\<close>

lemma bit_word_eq_iff: "(a :: 'a::len word) = b \<longleftrightarrow> (\<forall>n. bit a n \<longleftrightarrow> bit b n)"
  by (metis bit_eq_iff)

lemma and_bit_neq_0_iff:
  fixes v :: "'a::len word"
  shows "v AND push_bit n 1 \<noteq> 0 \<longleftrightarrow> bit v n"
proof -
  have "bit v n \<Longrightarrow> n < LENGTH('a)" by (rule bit_imp_le_length)
  then show ?thesis by (auto simp: bit_word_eq_iff bit_simps)
qed

lemma or_and_neq_0_iff:
  fixes a :: "'a::len word"
  shows "(a OR b) AND f \<noteq> 0 \<longleftrightarrow> a AND f \<noteq> 0 \<or> b AND f \<noteq> 0"
  by (auto simp: bit_word_eq_iff bit_simps)

lemma role_flag_bits:
  "UserRole_hasFlag r Viewer \<longleftrightarrow> bit r 0"
  "UserRole_hasFlag r Operator \<longleftrightarrow> bit r 1"
  "UserRole_hasFlag r OrgAdmin \<longleftrightarrow> bit r 2"
  "UserRole_hasFlag r SysAdmin \<longleftrightarrow> bit r 3"
  unfolding UserRole_hasFlag_def role_consts by (rule and_bit_neq_0_iff)+

lemma UserRole_hasFlag_or:
  "UserRole_hasFlag (UserRole_or a b) f \<longleftrightarrow> UserRole_hasFlag a f \<or> UserRole_hasFlag b f"
  unfolding UserRole_hasFlag_def UserRole_or_def by (rule or_and_neq_0_iff)

lemma UserRole_hasFlag_None [simp]: "\<not> UserRole_hasFlag UserRole_None f"
  by (simp add: UserRole_hasFlag_def UserRole_None_def)

section \<open>The audit trail of a package\<close>

definition history_ok :: "Package \<Rightarrow> bool" where
  "history_ok p \<longleftrightarrow> length (history p) = nat MAX_PACKAGE_HISTORY
     \<and> 0 \<le> history_count p \<and> history_count p \<le> MAX_PACKAGE_HISTORY"

text \<open>The recorded part of the trail.\<close>

definition trail :: "Package \<Rightarrow> ActionRecord list" where
  "trail p = take (nat (history_count p)) (history p)"

lemma trail_zero [simp]: "trail zero_Package = []" "history_ok zero_Package"
  by (simp_all add: trail_def history_ok_def zero_Package_def shared_consts)

lemma pushAction_spec:
  assumes "history_ok p"
  shows "\<exists>p'. pushAction t1 t2 a pid p = Some p' \<and> history_ok p' \<and>
     (if history_count p < MAX_PACKAGE_HISTORY
      then trail p' = trail p @ [\<lparr>act_type = a, actor_pid = pid, timestamp = t1\<rparr>]
           \<and> editor_pid p' = pid \<and> updated_at p' = t2
      else p' = p)"
proof (cases "history_count p < MAX_PACKAGE_HISTORY")
  case True
  define n where "n = nat (history_count p)"
  have n: "history_count p = int n" "n < length (history p)" "length (history p) = 6" "n < 6"
    using True assms by (auto simp: history_ok_def n_def shared_consts)
  have "take (Suc n) ((history p)[n := r]) = take n (history p) @ [r]" for r
    using n(2) by (simp add: take_Suc_conv_app_nth)
  then show ?thesis
    using True n by (simp add: pushAction_def history_ok_def trail_def shared_consts aset_def cadd_def
        in_int32_iff nat_add_distrib)
next
  case False
  then show ?thesis using assms by (simp add: pushAction_def)
qed

text \<open>A whole sequence of pushes keeps the first entries and never writes outside the array.\<close>

fun pushActions :: "(time_t \<times> time_t \<times> ActionType \<times> pid_t) list \<Rightarrow> Package \<Rightarrow> Package option" where
  "pushActions [] p = Some p"
| "pushActions ((t1, t2, a, pid) # xs) p = Option.bind (pushAction t1 t2 a pid p) (pushActions xs)"

lemma pushActions_trail:
  assumes "history_ok p"
  shows "\<exists>p'. pushActions xs p = Some p' \<and> history_ok p' \<and>
     trail p' = take (nat MAX_PACKAGE_HISTORY)
       (trail p @ map (\<lambda>(t1, t2, a, pid). \<lparr>act_type = a, actor_pid = pid, timestamp = t1\<rparr>) xs)"
  using assms
proof (induction xs arbitrary: p)
  case Nil
  then show ?case by (auto simp: trail_def history_ok_def shared_consts min_def)
next
  case (Cons x xs)
  obtain t1 t2 a pid where x: "x = (t1, t2, a, pid)" by (cases x)
  obtain p1 where p1: "pushAction t1 t2 a pid p = Some p1" "history_ok p1"
    and st: "if history_count p < MAX_PACKAGE_HISTORY
      then trail p1 = trail p @ [\<lparr>act_type = a, actor_pid = pid, timestamp = t1\<rparr>]
           \<and> editor_pid p1 = pid \<and> updated_at p1 = t2
      else p1 = p"
    using pushAction_spec [OF Cons.prems] by blast
  have len: "length (trail p) = nat (history_count p)" "history_count p \<le> MAX_PACKAGE_HISTORY"
    using Cons.prems by (auto simp: trail_def history_ok_def shared_consts)
  from Cons.IH [OF p1(2)] p1(1) st len show ?case
    by (auto simp: x shared_consts take_Cons' nat_diff_distrib split: if_splits)
qed

section \<open>Properties\<close>

text \<open>
  The audit trail.  Any sequence of recorded actions on a package with a valid counter is free of
  out-of-bounds writes and keeps the first six entries in order; later ones are dropped.  The source
  calls the array a circular buffer, but nothing is ever overwritten.
\<close>

theorem audit_trail_keeps_first:
  assumes "history_ok p"
  shows "\<exists>p'. pushActions xs p = Some p' \<and> history_ok p' \<and>
     trail p' = take (nat MAX_PACKAGE_HISTORY)
       (trail p @ map (\<lambda>(t1, t2, a, pid). \<lparr>act_type = a, actor_pid = pid, timestamp = t1\<rparr>) xs)"
  by (rule pushActions_trail [OF assms])

theorem audit_trail_keeps_first_witness:
  "\<exists>p'. pushActions (replicate 7 (10, 11, Created, 5)) zero_Package = Some p' \<and> length (trail p') = 6"
  using audit_trail_keeps_first [of zero_Package "replicate 7 (10, 11, Created, 5)"]
  by (auto simp: shared_consts)

end
