(* ===== verification/Manager.thy ===== *)
theory Manager
  imports Shared
begin

text \<open>
  \<open>include/Manager.h\<close>: the facade over System V shared memory, semaphores and the message queue.

  A \<open>world\<close> is what one process sees through its \<open>Manager\<close>: the shared segment, whether its
  \<open>shm\<close> pointer is non-null, the values of the four semaphores, the message queue with its byte
  limit, the script of errors the kernel will report for the next IPC calls (\<open>None\<close> or an empty
  script: the call succeeds), and the time spent sleeping.

  An operation returns an \<open>outcome\<close>: it is \<open>Done\<close>, it is \<open>Blocked\<close> in a system call, it called
  \<open>exit\<close>, or it ran into undefined behaviour (an index out of range, signed overflow).  Logging is
  not modelled.
\<close>

section \<open>State and outcomes\<close>

datatype errno = EINTR | EIDRM | EINVAL | ENOENT | Errno int

datatype wait_point = OnSem SemIndex | OnMsg pid_t | OnMsgSpace

record world =
  shm :: SharedState
  attached :: bool
  sems :: "SemIndex \<Rightarrow> int"
  msgq :: "CommandMessage list"
  msg_qbytes :: int
  kernel :: "errno option list"
  clock_ms :: int

datatype 'a outcome =
    Done 'a world
  | Blocked wait_point world
  | Exited errno world
  | UB

fun obind :: "'a outcome \<Rightarrow> ('a \<Rightarrow> world \<Rightarrow> 'b outcome) \<Rightarrow> 'b outcome" where
  "obind (Done a w) f = f a w"
| "obind (Blocked p w) f = Blocked p w"
| "obind (Exited e w) f = Exited e w"
| "obind UB f = UB"

text \<open>Straight-line code over the shared segment; \<open>None\<close> is undefined behaviour.\<close>

definition on_shm :: "(SharedState \<Rightarrow> ('a \<times> SharedState) option) \<Rightarrow> world \<Rightarrow> 'a outcome" where
  "on_shm g w = (case g (shm w) of None \<Rightarrow> UB | Some (a, s) \<Rightarrow> Done a (w\<lparr>shm := s\<rparr>))"

definition sleep_ms :: "int \<Rightarrow> world \<Rightarrow> world" where
  "sleep_ms ms w = w\<lparr>clock_ms := clock_ms w + ms\<rparr>"

section \<open>Semaphores\<close>

text \<open>
  One \<open>semop\<close> call.  A reported error leaves the semaphore alone: after \<open>EINTR\<close> the method returns
  normally although nothing was acquired, after \<open>EIDRM\<close> or \<open>EINVAL\<close> it does so during shutdown, and
  every other error ends the process.
\<close>

definition semOperation :: "SemIndex \<Rightarrow> int \<Rightarrow> world \<Rightarrow> unit outcome" where
  "semOperation semIdx opv w =
     (case kernel w of
        Some e # ks \<Rightarrow>
          (let w' = w\<lparr>kernel := ks\<rparr> in
           if (e = EIDRM \<or> e = EINVAL) \<and> \<not> running (shm w') then Done () w'
           else if e \<noteq> EINTR then Exited e w'
           else Done () w')
      | ks \<Rightarrow>
          (if sems w semIdx + opv < 0 then Blocked (OnSem semIdx) w
           else Done () (w\<lparr>kernel := tl ks, sems := (sems w)(semIdx := sems w semIdx + opv)\<rparr>)))"

definition lockBelt :: "world \<Rightarrow> unit outcome" where
  "lockBelt = semOperation SEM_MUTEX_BELT (-1)"

definition unlockBelt :: "world \<Rightarrow> unit outcome" where
  "unlockBelt = semOperation SEM_MUTEX_BELT 1"

definition waitForEmptySlot :: "world \<Rightarrow> unit outcome" where
  "waitForEmptySlot = semOperation SEM_EMPTY_SLOTS (-1)"

definition signalSlotFreed :: "world \<Rightarrow> unit outcome" where
  "signalSlotFreed = semOperation SEM_EMPTY_SLOTS 1"

definition waitForPackage :: "world \<Rightarrow> unit outcome" where
  "waitForPackage = semOperation SEM_FULL_SLOTS (-1)"

definition signalPackageAdded :: "world \<Rightarrow> unit outcome" where
  "signalPackageAdded = semOperation SEM_FULL_SLOTS 1"

definition lockDock :: "world \<Rightarrow> unit outcome" where
  "lockDock = semOperation SEM_DOCK_MUTEX (-1)"

definition unlockDock :: "world \<Rightarrow> unit outcome" where
  "unlockDock = semOperation SEM_DOCK_MUTEX 1"

lemmas sem_wrapper_defs [warehouse_defs] =
  lockBelt_def unlockBelt_def waitForEmptySlot_def signalSlotFreed_def
  waitForPackage_def signalPackageAdded_def lockDock_def unlockDock_def

text \<open>The bracket \<open>lock(); body; unlock()\<close> that every critical section of the program has.\<close>

definition with_lock ::
  "(world \<Rightarrow> unit outcome) \<Rightarrow> (world \<Rightarrow> unit outcome) \<Rightarrow> (world \<Rightarrow> 'a outcome) \<Rightarrow> world \<Rightarrow> 'a outcome"
where
  "with_lock lock unlock body w =
     obind (lock w) (\<lambda>_ w1. obind (body w1) (\<lambda>a w2. obind (unlock w2) (\<lambda>_ w3. Done a w3)))"

section \<open>The message queue\<close>

definition signal_id :: "SignalType \<Rightarrow> int" where
  "signal_id t = (case t of SIGNAL_NONE \<Rightarrow> 0 | SIGNAL_DEPARTURE \<Rightarrow> 1
                          | SIGNAL_EXPRESS_LOAD \<Rightarrow> 2 | SIGNAL_END_WORK \<Rightarrow> 3)"

text \<open>
  The cast back from the payload.  \<open>sendSignal\<close> is the only sender, so the payload is one of the
  four enumerators; any other value would be outside the enumeration and reads as \<open>SIGNAL_NONE\<close>.
\<close>

definition signal_of_id :: "int \<Rightarrow> SignalType" where
  "signal_of_id i = (if i = 1 then SIGNAL_DEPARTURE else if i = 2 then SIGNAL_EXPRESS_LOAD
                     else if i = 3 then SIGNAL_END_WORK else SIGNAL_NONE)"

text \<open>Which message \<open>msgrcv\<close> takes: the first, the first of a type, or the first of the lowest type.\<close>

definition msg_matches :: "int \<Rightarrow> CommandMessage list \<Rightarrow> CommandMessage \<Rightarrow> bool" where
  "msg_matches typ q m \<longleftrightarrow>
     (if typ = 0 then True
      else if 0 < typ then mtype m = typ
      else mtype m \<le> - typ \<and> (\<forall>m' \<in> set q. mtype m' \<le> - typ \<longrightarrow> mtype m \<le> mtype m'))"

definition msg_take :: "int \<Rightarrow> CommandMessage list \<Rightarrow> (CommandMessage \<times> CommandMessage list) option" where
  "msg_take typ q = (case List.extract (msg_matches typ q) q of
                       None \<Rightarrow> None | Some (ys, m, zs) \<Rightarrow> Some (m, ys @ zs))"

definition sendSignal :: "pid_t \<Rightarrow> SignalType \<Rightarrow> world \<Rightarrow> unit outcome" where
  "sendSignal target_pid ty w =
     (let msg = \<lparr>mtype = target_pid, command_id = signal_id ty\<rparr>; n = int (length (msgq w)) in
      case kernel w of
        Some e # ks \<Rightarrow> Done () (w\<lparr>kernel := ks\<rparr>)
      | ks \<Rightarrow>
          (if target_pid < 1 then Done () (w\<lparr>kernel := tl ks\<rparr>)
           else if msg_qbytes w < 4 * n + 4 \<or> msg_qbytes w < n + 1 then Blocked OnMsgSpace w
           else Done () (w\<lparr>kernel := tl ks, msgq := msgq w @ [msg]\<rparr>)))"

definition receiveSignalBlocking :: "pid_t \<Rightarrow> world \<Rightarrow> SignalType outcome" where
  "receiveSignalBlocking my_pid w =
     (case kernel w of
        Some e # ks \<Rightarrow> Done SIGNAL_NONE (w\<lparr>kernel := ks\<rparr>)
      | ks \<Rightarrow> (case msg_take my_pid (msgq w) of
                 None \<Rightarrow> Blocked (OnMsg my_pid) w
               | Some (m, q) \<Rightarrow> Done (signal_of_id (command_id m)) (w\<lparr>kernel := tl ks, msgq := q\<rparr>)))"

definition receiveSignalNonBlocking :: "pid_t \<Rightarrow> world \<Rightarrow> SignalType outcome" where
  "receiveSignalNonBlocking my_pid w =
     (case kernel w of
        Some e # ks \<Rightarrow> Done SIGNAL_NONE (w\<lparr>kernel := ks\<rparr>)
      | ks \<Rightarrow> (case msg_take my_pid (msgq w) of
                 None \<Rightarrow> Done SIGNAL_NONE (w\<lparr>kernel := tl ks\<rparr>)
               | Some (m, q) \<Rightarrow> Done (signal_of_id (command_id m)) (w\<lparr>kernel := tl ks, msgq := q\<rparr>)))"

section \<open>Creating and destroying the IPC resources\<close>

text \<open>The IPC objects that exist in the kernel under the program's three keys.\<close>

record ipc_objects =
  ipc_shm :: "SharedState option"
  ipc_sem :: "(SemIndex \<Rightarrow> int) option"
  ipc_msg :: "CommandMessage list option"

text \<open>An error the kernel reports for one of the four calls that create or attach.\<close>

record ipc_errors =
  shmget_err :: "errno option"
  shmat_err :: "errno option"
  semget_err :: "errno option"
  msgget_err :: "errno option"

definition no_ipc_errors :: ipc_errors where
  "no_ipc_errors = \<lparr>shmget_err = None, shmat_err = None, semget_err = None, msgget_err = None\<rparr>"

text \<open>
  \<open>get_object owner err old fresh\<close>: a \<open>...get\<close> call with \<open>IPC_CREAT\<close> for the owner and without it for
  a client, which fails with \<open>ENOENT\<close> when there is no object.
\<close>

definition get_object :: "bool \<Rightarrow> errno option \<Rightarrow> 'a option \<Rightarrow> 'a \<Rightarrow> errno + 'a" where
  "get_object owner err old fresh =
     (case err of Some e \<Rightarrow> Inl e
      | None \<Rightarrow> (case old of Some x \<Rightarrow> Inr x | None \<Rightarrow> if owner then Inr fresh else Inl ENOENT))"

definition init_shm :: "SharedState \<Rightarrow> SharedState" where
  "init_shm s = zero_SharedState\<lparr>running := True, total_packages_created := 0,
                                 trucks_completed := 0, current_workers_count := 0\<rparr>"

definition init_sems :: "(SemIndex \<Rightarrow> int) \<Rightarrow> SemIndex \<Rightarrow> int" where
  "init_sems v = v(SEM_MUTEX_BELT := 1, SEM_DOCK_MUTEX := 1,
                   SEM_EMPTY_SLOTS := MAX_BELT_CAPACITY_K, SEM_FULL_SLOTS := 0)"

text \<open>
  The constructor: \<open>Inl\<close> is the error it exits with, \<open>Inr\<close> the objects and the contents the process
  sees.  The owner removes an old segment first, but attaches to an old semaphore set and an old
  message queue if there are any.
\<close>

definition Manager_new :: "bool \<Rightarrow> ipc_errors \<Rightarrow> int \<Rightarrow> ipc_objects \<Rightarrow> errno + (ipc_objects \<times> world)" where
  "Manager_new owner err qbytes sys =
     (let old_shm = (if owner then None else ipc_shm sys) in
      case get_object owner (shmget_err err) old_shm zero_SharedState of Inl e \<Rightarrow> Inl e | Inr seg \<Rightarrow>
      case shmat_err err of Some e \<Rightarrow> Inl e | None \<Rightarrow>
      case get_object owner (semget_err err) (ipc_sem sys) (\<lambda>_. 0) of Inl e \<Rightarrow> Inl e | Inr sv \<Rightarrow>
      case get_object owner (msgget_err err) (ipc_msg sys) [] of Inl e \<Rightarrow> Inl e | Inr q \<Rightarrow>
        (let seg' = (if owner then init_shm seg else seg);
             sv' = (if owner then init_sems sv else sv)
         in Inr (\<lparr>ipc_shm = Some seg', ipc_sem = Some sv', ipc_msg = Some q\<rparr>,
                 \<lparr>shm = seg', attached = True, sems = sv', msgq = q, msg_qbytes = qbytes,
                  kernel = [], clock_ms = 0\<rparr>)))"

definition Manager_delete :: "bool \<Rightarrow> ipc_objects \<Rightarrow> ipc_objects" where
  "Manager_delete owner sys =
     (if owner then \<lparr>ipc_shm = None, ipc_sem = None, ipc_msg = None\<rparr> else sys)"

text \<open>What the owner sees after a start on a system without left-over objects.\<close>

definition boot_world :: world where
  "boot_world = \<lparr>shm = init_shm zero_SharedState, attached = True, sems = init_sems (\<lambda>_. 0),
                 msgq = [], msg_qbytes = 16384, kernel = [], clock_ms = 0\<rparr>"

lemma boot_world_simps [simp]:
  "shm boot_world = init_shm zero_SharedState" "attached boot_world" "kernel boot_world = []"
  "msgq boot_world = []" "sems boot_world = init_sems (\<lambda>_. 0)" "msg_qbytes boot_world = 16384"
  by (simp_all add: boot_world_def)

section \<open>Laws of the semaphore operations\<close>

lemma obind_assoc: "obind (obind m f) g = obind m (\<lambda>a w. obind (f a w) g)"
  by (cases m) auto

lemma obind_Done_right [simp]: "obind m (\<lambda>a w. Done a w) = m"
  by (cases m) auto

lemma obind_eq_Done_iff:
  "obind m f = Done b w \<longleftrightarrow> (\<exists>a w'. m = Done a w' \<and> f a w' = Done b w)"
  by (cases m) auto

lemma semOperation_ok [checked_simps]:
  "kernel w = [] \<Longrightarrow> 0 \<le> sems w i + v \<Longrightarrow>
   semOperation i v w = Done () (w\<lparr>sems := (sems w)(i := sems w i + v)\<rparr>)"
  by (simp add: semOperation_def)

lemma semOperation_blocks [checked_simps]:
  "kernel w = [] \<Longrightarrow> sems w i + v < 0 \<Longrightarrow> semOperation i v w = Blocked (OnSem i) w"
  by (simp add: semOperation_def)

lemma semOperation_EINTR:
  "kernel w = Some EINTR # ks \<Longrightarrow> semOperation i v w = Done () (w\<lparr>kernel := ks\<rparr>)"
  by (simp add: semOperation_def)

text \<open>
  What a client of a mutex relies on.  The body may do anything but touch the semaphore it runs
  under or raise kernel errors; then the bracket runs it in isolation and gives the mutex back.
\<close>

locale mutex =
  fixes lock unlock :: "world \<Rightarrow> unit outcome" and idx :: SemIndex
  assumes lock_free: "kernel w = [] \<Longrightarrow> 0 < sems w idx \<Longrightarrow>
      lock w = Done () (w\<lparr>sems := (sems w)(idx := sems w idx - 1)\<rparr>)"
    and lock_busy: "kernel w = [] \<Longrightarrow> sems w idx \<le> 0 \<Longrightarrow> lock w = Blocked (OnSem idx) w"
    and unlock_gives: "kernel w = [] \<Longrightarrow> 0 \<le> sems w idx \<Longrightarrow>
      unlock w = Done () (w\<lparr>sems := (sems w)(idx := sems w idx + 1)\<rparr>)"
    and lock_EINTR: "kernel w = Some EINTR # ks \<Longrightarrow> lock w = Done () (w\<lparr>kernel := ks\<rparr>)"
begin

lemma bracket_shm:
  assumes "kernel w = []" "0 < sems w idx"
  shows "with_lock lock unlock (on_shm g) w =
     (case g (shm w) of None \<Rightarrow> UB | Some (a, s) \<Rightarrow> Done a (w\<lparr>shm := s\<rparr>))"
  using assms by (simp add: with_lock_def lock_free on_shm_def unlock_gives split: option.split)

lemma bracket_busy:
  "kernel w = [] \<Longrightarrow> sems w idx \<le> 0 \<Longrightarrow> with_lock lock unlock body w = Blocked (OnSem idx) w"
  by (simp add: with_lock_def lock_busy)

lemma bracket_Done:
  assumes "kernel w = []" "0 < sems w idx"
    and "body (w\<lparr>sems := (sems w)(idx := sems w idx - 1)\<rparr>) = Done a w2"
    and "kernel w2 = []" "sems w2 idx = sems w idx - 1"
  shows "with_lock lock unlock body w = Done a (w2\<lparr>sems := (sems w2)(idx := sems w idx)\<rparr>)"
  using assms by (simp add: with_lock_def lock_free unlock_gives)

text \<open>
  An interrupted \<open>lock\<close> is not noticed: the body runs without the mutex, and \<open>unlock\<close> then raises
  the semaphore above the value it had.
\<close>

lemma bracket_EINTR:
  assumes "kernel w = [Some EINTR]" "0 \<le> sems w idx" "g (shm w) = Some (a, s)"
  shows "with_lock lock unlock (on_shm g) w =
    Done a (w\<lparr>kernel := [], shm := s, sems := (sems w)(idx := sems w idx + 1)\<rparr>)"
  using assms by (simp add: with_lock_def lock_EINTR on_shm_def unlock_gives)

end

interpretation belt_mutex: mutex lockBelt unlockBelt SEM_MUTEX_BELT
  by unfold_locales (simp_all add: sem_wrapper_defs checked_simps semOperation_EINTR)

interpretation dock_mutex: mutex lockDock unlockDock SEM_DOCK_MUTEX
  by unfold_locales (simp_all add: sem_wrapper_defs checked_simps semOperation_EINTR)

section \<open>Laws of the message queue\<close>

lemma signal_roundtrip [simp]: "signal_of_id (signal_id t) = t"
  by (cases t) (simp_all add: signal_id_def signal_of_id_def)

lemma signal_id_range: "0 \<le> signal_id t \<and> signal_id t \<le> 3"
  by (cases t) (simp_all add: signal_id_def)

text \<open>The messages waiting for one process, oldest first.\<close>

definition mailbox :: "pid_t \<Rightarrow> CommandMessage list \<Rightarrow> SignalType list" where
  "mailbox pid q = map (signal_of_id \<circ> command_id) (filter (\<lambda>m. mtype m = pid) q)"

lemma mailbox_Nil [simp]: "mailbox p [] = []"
  by (simp add: mailbox_def)

lemma mailbox_snoc:
  "mailbox p (q @ [\<lparr>mtype = p', command_id = signal_id s\<rparr>]) = mailbox p q @ (if p = p' then [s] else [])"
  by (simp add: mailbox_def)

lemma msg_take_pos:
  assumes "0 < p"
  shows "case msg_take p q of
      None \<Rightarrow> mailbox p q = []
    | Some (m, q') \<Rightarrow> mailbox p q = signal_of_id (command_id m) # mailbox p q'
        \<and> (\<forall>p'. p' \<noteq> p \<longrightarrow> mailbox p' q' = mailbox p' q) \<and> length q = Suc (length q')"
proof -
  have m: "msg_matches p q = (\<lambda>m. mtype m = p)"
    using assms by (auto simp: msg_matches_def)
  show ?thesis
  proof (cases "List.extract (\<lambda>m. mtype m = p) q")
    case None
    then have "\<forall>x \<in> set q. mtype x \<noteq> p" by (simp add: extract_None_iff)
    with None show ?thesis by (simp add: msg_take_def m mailbox_def filter_empty_conv)
  next
    case (Some r)
    obtain ys x zs where r: "r = (ys, x, zs)" by (cases r)
    from Some have q: "q = ys @ x # zs" "mtype x = p" "filter (\<lambda>m. mtype m = p) ys = []"
      by (auto simp: r extract_Some_iff filter_empty_conv)
    have t: "msg_take p q = Some (x, ys @ zs)" using Some by (simp add: msg_take_def m r)
    show ?thesis unfolding t using q(2,3) by (auto simp: mailbox_def q(1))
  qed
qed

text \<open>
  The contract of a mailbox per process: a sent signal goes to the end of the receiver's box and
  to no other, and a receive takes the oldest signal of the caller's box and nothing else.
\<close>

locale signal_channel =
  fixes send :: "pid_t \<Rightarrow> SignalType \<Rightarrow> CommandMessage list \<Rightarrow> CommandMessage list"
    and recv :: "pid_t \<Rightarrow> CommandMessage list \<Rightarrow> (SignalType \<times> CommandMessage list) option"
    and box :: "pid_t \<Rightarrow> CommandMessage list \<Rightarrow> SignalType list"
  assumes box_send: "box p (send p' s q) = box p q @ (if p = p' then [s] else [])"
    and recv_None: "0 < p \<Longrightarrow> recv p q = None \<longleftrightarrow> box p q = []"
    and recv_Some: "0 < p \<Longrightarrow> recv p q = Some (s, q') \<Longrightarrow>
      box p q = s # box p q' \<and> (\<forall>p'. p' \<noteq> p \<longrightarrow> box p' q' = box p' q)"
begin

fun send_all :: "(pid_t \<times> SignalType) list \<Rightarrow> CommandMessage list \<Rightarrow> CommandMessage list" where
  "send_all [] q = q"
| "send_all ((p, s) # xs) q = send_all xs (send p s q)"

fun recv_n :: "nat \<Rightarrow> pid_t \<Rightarrow> CommandMessage list \<Rightarrow> SignalType list" where
  "recv_n 0 p q = []"
| "recv_n (Suc n) p q = (case recv p q of None \<Rightarrow> [] | Some (s, q') \<Rightarrow> s # recv_n n p q')"

lemma box_send_all: "box p (send_all xs q) = box p q @ map snd (filter (\<lambda>x. fst x = p) xs)"
  by (induction xs q rule: send_all.induct) (auto simp: box_send)

lemma recv_n_box: "0 < p \<Longrightarrow> recv_n n p q = take n (box p q)"
proof (induction n arbitrary: q)
  case 0
  then show ?case by simp
next
  case (Suc n)
  show ?case
  proof (cases "recv p q")
    case None
    then have "box p q = []" using recv_None [OF Suc.prems] by simp
    with None show ?thesis by simp
  next
    case (Some r)
    with Suc recv_Some [of p q "fst r" "snd r"] show ?thesis by (cases r) auto
  qed
qed

text \<open>Whatever is sent to a process is received by it, all of it and in the order of sending.\<close>

lemma channel_fifo:
  assumes "0 < p" "box p q = []"
  shows "recv_n (length xs) p (send_all xs q) = map snd (filter (\<lambda>x. fst x = p) xs)"
proof -
  have "length (map snd (filter (\<lambda>x. fst x = p) xs)) \<le> length xs" by simp
  then show ?thesis using assms by (simp add: recv_n_box box_send_all)
qed

end

definition msg_send :: "pid_t \<Rightarrow> SignalType \<Rightarrow> CommandMessage list \<Rightarrow> CommandMessage list" where
  "msg_send p s q = q @ [\<lparr>mtype = p, command_id = signal_id s\<rparr>]"

definition msg_recv :: "pid_t \<Rightarrow> CommandMessage list \<Rightarrow> (SignalType \<times> CommandMessage list) option" where
  "msg_recv p q = map_option (\<lambda>(m, q'). (signal_of_id (command_id m), q')) (msg_take p q)"

interpretation queue_channel: signal_channel msg_send msg_recv mailbox
proof unfold_locales
  show "mailbox p (msg_send p' s q) = mailbox p q @ (if p = p' then [s] else [])" for p p' s q
    by (simp add: msg_send_def mailbox_snoc)
  show "msg_recv p q = None \<longleftrightarrow> mailbox p q = []" if "0 < p" for p q
    using msg_take_pos [OF that, of q] by (auto simp: msg_recv_def split: option.splits)
  show "mailbox p q = s # mailbox p q' \<and> (\<forall>p'. p' \<noteq> p \<longrightarrow> mailbox p' q' = mailbox p' q)"
    if "0 < p" "msg_recv p q = Some (s, q')" for p q s q'
    using msg_take_pos [OF that(1), of q] that(2) by (auto simp: msg_recv_def)
qed

text \<open>There is room in the queue for one more message.\<close>

definition msg_room :: "world \<Rightarrow> bool" where
  "msg_room w \<longleftrightarrow> 4 * int (length (msgq w)) + 4 \<le> msg_qbytes w"

lemma sendSignal_ok [checked_simps]:
  "kernel w = [] \<Longrightarrow> 0 < p \<Longrightarrow> msg_room w \<Longrightarrow>
   sendSignal p s w = Done () (w\<lparr>msgq := msg_send p s (msgq w)\<rparr>)"
  by (simp add: sendSignal_def msg_room_def msg_send_def)

lemma receiveSignalBlocking_alt [checked_simps]:
  "kernel w = [] \<Longrightarrow> receiveSignalBlocking p w =
     (case msg_recv p (msgq w) of
        None \<Rightarrow> Blocked (OnMsg p) w | Some (s, q) \<Rightarrow> Done s (w\<lparr>msgq := q\<rparr>))"
  by (simp add: receiveSignalBlocking_def msg_recv_def split: option.split)

lemma receiveSignalNonBlocking_alt [checked_simps]:
  "kernel w = [] \<Longrightarrow> receiveSignalNonBlocking p w =
     (case msg_recv p (msgq w) of None \<Rightarrow> Done SIGNAL_NONE w | Some (s, q) \<Rightarrow> Done s (w\<lparr>msgq := q\<rparr>))"
  by (simp add: receiveSignalNonBlocking_def msg_recv_def split: option.split)

section \<open>Properties\<close>

lemma manager_owner_start:
  "Manager_new True no_ipc_errors qb sys =
     (let sv = init_sems (case ipc_sem sys of None \<Rightarrow> (\<lambda>_. 0) | Some v \<Rightarrow> v);
          q = (case ipc_msg sys of None \<Rightarrow> [] | Some q \<Rightarrow> q); s = init_shm zero_SharedState
      in Inr (\<lparr>ipc_shm = Some s, ipc_sem = Some sv, ipc_msg = Some q\<rparr>,
              \<lparr>shm = s, attached = True, sems = sv, msgq = q, msg_qbytes = qb, kernel = [], clock_ms = 0\<rparr>))"
  by (cases "ipc_sem sys"; cases "ipc_msg sys") (simp_all add: Manager_new_def get_object_def no_ipc_errors_def Let_def)

text \<open>
  Life cycle of the IPC resources.  Whatever objects are left from an earlier run, a successful
  start of the owner gives a zeroed and running shared state, one free unit of each mutex, ten free
  slots and no package; a client that attaches afterwards sees the same contents, and none can attach
  before the owner has started or after it has ended.  The messages of the earlier run are still in
  the queue, although the documentation promises that old resources are cleaned up.
\<close>

theorem manager_lifecycle:
  "\<exists>sys' w. Manager_new True no_ipc_errors qb sys = Inr (sys', w)
     \<and> shm w = init_shm zero_SharedState \<and> attached w
     \<and> sems w SEM_MUTEX_BELT = 1 \<and> sems w SEM_DOCK_MUTEX = 1
     \<and> sems w SEM_EMPTY_SLOTS = MAX_BELT_CAPACITY_K \<and> sems w SEM_FULL_SLOTS = 0
     \<and> msgq w = (case ipc_msg sys of None \<Rightarrow> [] | Some q \<Rightarrow> q)
     \<and> Manager_new False no_ipc_errors qb sys' = Inr (sys', w)
     \<and> Manager_new False no_ipc_errors qb (Manager_delete True sys') = Inl ENOENT"
  unfolding manager_owner_start Let_def
  by (intro exI conjI, rule refl)
    (simp_all add: Manager_new_def Manager_delete_def get_object_def no_ipc_errors_def init_sems_def Let_def)

text \<open>Sending a list of signals, and receiving a number of signals for one process.\<close>

fun send_signals :: "(pid_t \<times> SignalType) list \<Rightarrow> world \<Rightarrow> unit outcome" where
  "send_signals [] w = Done () w"
| "send_signals ((p, s) # xs) w = obind (sendSignal p s w) (\<lambda>_ w1. send_signals xs w1)"

fun receive_signals :: "nat \<Rightarrow> pid_t \<Rightarrow> world \<Rightarrow> SignalType list outcome" where
  "receive_signals 0 p w = Done [] w"
| "receive_signals (Suc n) p w =
     obind (receiveSignalBlocking p w) (\<lambda>s w1. obind (receive_signals n p w1) (\<lambda>ss w2. Done (s # ss) w2))"

lemma send_signals_ok:
  assumes "kernel w = []" "\<forall>(p, s) \<in> set xs. 0 < p" "4 * (int (length (msgq w)) + int (length xs)) \<le> msg_qbytes w"
  shows "\<exists>q. send_signals xs w = Done () (w\<lparr>msgq := q\<rparr>)
     \<and> (\<forall>p. mailbox p q = mailbox p (msgq w) @ map snd (filter (\<lambda>x. fst x = p) xs))"
  using assms
proof (induction xs arbitrary: w)
  case Nil
  show ?case by (rule exI [of _ "msgq w"]) simp
next
  case (Cons x xs)
  obtain p s where x: "x = (p, s)" by (cases x)
  define w1 where "w1 = w\<lparr>msgq := msg_send p s (msgq w)\<rparr>"
  have "sendSignal p s w = Done () w1"
    using Cons.prems by (simp add: w1_def x sendSignal_ok msg_room_def)
  moreover obtain q where "send_signals xs w1 = Done () (w1\<lparr>msgq := q\<rparr>)"
    "\<forall>p. mailbox p q = mailbox p (msgq w1) @ map snd (filter (\<lambda>x. fst x = p) xs)"
    using Cons.IH [of w1] Cons.prems by (auto simp: w1_def msg_send_def)
  ultimately show ?case
    by (intro exI [of _ q]) (auto simp: x w1_def queue_channel.box_send)
qed

lemma receive_signals_ok:
  assumes "kernel w = []" "0 < p" "n \<le> length (mailbox p (msgq w))"
  shows "\<exists>q. receive_signals n p w = Done (take n (mailbox p (msgq w))) (w\<lparr>msgq := q\<rparr>)
     \<and> mailbox p q = drop n (mailbox p (msgq w)) \<and> (\<forall>p'. p' \<noteq> p \<longrightarrow> mailbox p' q = mailbox p' (msgq w))"
  using assms
proof (induction n arbitrary: w)
  case 0
  show ?case by (rule exI [of _ "msgq w"]) simp
next
  case (Suc n)
  obtain s q where r: "msg_recv p (msgq w) = Some (s, q)"
    using queue_channel.recv_None [OF Suc.prems(2), of "msgq w"] Suc.prems(3) by (cases "msg_recv p (msgq w)") auto
  note c = queue_channel.recv_Some [OF Suc.prems(2) r]
  obtain q' where "receive_signals n p (w\<lparr>msgq := q\<rparr>) = Done (take n (mailbox p q)) (w\<lparr>msgq := q'\<rparr>)"
    "mailbox p q' = drop n (mailbox p q)" "\<forall>p'. p' \<noteq> p \<longrightarrow> mailbox p' q' = mailbox p' q"
    using Suc.IH [of "w\<lparr>msgq := q\<rparr>"] Suc.prems c by auto
  then show ?case using c r Suc.prems(1)
    by (intro exI [of _ q']) (auto simp: receiveSignalBlocking_alt)
qed

text \<open>
  C34: the message queue delivers to each process exactly the signals sent to it, all of them and in the
  order of sending, however the signals to different processes are mixed; the signals of other
  processes stay in the queue.
\<close>

theorem signals_delivered_in_order:
  assumes "kernel w = []" "\<forall>(p, s) \<in> set xs. 0 < p" "0 < p" "mailbox p (msgq w) = []"
    and "4 * (int (length (msgq w)) + int (length xs)) \<le> msg_qbytes w"
    and "mine = map snd (filter (\<lambda>x. fst x = p) xs)"
  shows "\<exists>w1 w2. send_signals xs w = Done () w1 \<and> receive_signals (length mine) p w1 = Done mine w2
     \<and> receiveSignalBlocking p w2 = Blocked (OnMsg p) w2 \<and> shm w2 = shm w
     \<and> (\<forall>p'. p' \<noteq> p \<longrightarrow> mailbox p' (msgq w2) = mailbox p' (msgq w) @ map snd (filter (\<lambda>x. fst x = p') xs))"
proof -
  obtain q where q: "send_signals xs w = Done () (w\<lparr>msgq := q\<rparr>)"
    "\<forall>p. mailbox p q = mailbox p (msgq w) @ map snd (filter (\<lambda>x. fst x = p) xs)"
    using send_signals_ok [OF assms(1,2,5)] by blast
  have m: "mailbox p q = mine" using q(2) assms(4,6) by simp
  obtain q' where q': "receive_signals (length mine) p (w\<lparr>msgq := q\<rparr>) = Done mine (w\<lparr>msgq := q'\<rparr>)"
    "mailbox p q' = []" "\<forall>p'. p' \<noteq> p \<longrightarrow> mailbox p' q' = mailbox p' q"
    using receive_signals_ok [of "w\<lparr>msgq := q\<rparr>" p "length mine"] assms(1,3) m by auto
  have "receiveSignalBlocking p (w\<lparr>msgq := q'\<rparr>) = Blocked (OnMsg p) (w\<lparr>msgq := q'\<rparr>)"
    using queue_channel.recv_None [OF assms(3), of q'] q'(2) assms(1) by (simp add: receiveSignalBlocking_alt)
  then show ?thesis using q q' by auto
qed

theorem signals_delivered_in_order_witness:
  "\<exists>w1 w2. send_signals [(5, SIGNAL_DEPARTURE), (6, SIGNAL_EXPRESS_LOAD), (5, SIGNAL_END_WORK)] boot_world = Done () w1
     \<and> receive_signals 2 5 w1 = Done [SIGNAL_DEPARTURE, SIGNAL_END_WORK] w2"
  using signals_delivered_in_order [of boot_world "[(5, SIGNAL_DEPARTURE), (6, SIGNAL_EXPRESS_LOAD), (5, SIGNAL_END_WORK)]" 5
      "[SIGNAL_DEPARTURE, SIGNAL_END_WORK]"]
  by (auto simp: numeral_2_eq_2)

end
