(* ===== verification/Belt.thy ===== *)
theory Belt
  imports Manager
begin

text \<open>
  \<open>include/Belt.h\<close>: the conveyor belt, a circular FIFO buffer in shared memory.

  Each method is split the way it is written: the part between \<open>lock_fn\<close> and \<open>unlock_fn\<close> is a
  \<open>..._body\<close> over the shared state, and the method wraps it in the semaphore operations.  The bodies
  refine a bounded queue of packages, and semaphores, blocking and error paths are stated for the
  whole methods.
\<close>

section \<open>Worker registration\<close>

definition registerWorker_body :: "SharedState \<Rightarrow> (bool \<times> SharedState) option" where
  "registerWorker_body s =
     (if current_workers_count s < MAX_WORKERS_PER_BELT then do {
        n \<leftarrow> cadd (current_workers_count s) 1;
        Some (True, s\<lparr>current_workers_count := n\<rparr>)
      } else Some (False, s))"

definition registerWorker :: "world \<Rightarrow> bool outcome" where
  "registerWorker w =
     (if \<not> attached w then Done False w
      else with_lock lockBelt unlockBelt (on_shm registerWorker_body) w)"

definition unregisterWorker_body :: "SharedState \<Rightarrow> (unit \<times> SharedState) option" where
  "unregisterWorker_body s =
     (if 0 < current_workers_count s then do {
        n \<leftarrow> csub (current_workers_count s) 1;
        Some ((), s\<lparr>current_workers_count := n\<rparr>)
      } else Some ((), s))"

definition unregisterWorker :: "world \<Rightarrow> unit outcome" where
  "unregisterWorker w =
     (if \<not> attached w then Done () w
      else with_lock lockBelt unlockBelt (on_shm unregisterWorker_body) w)"

section \<open>Placing and removing packages\<close>

definition simulateWorkLoad :: "world \<Rightarrow> unit outcome" where
  "simulateWorkLoad w =
     (if \<not> attached w then Done () w
      else if current_workers_count (shm w) \<le> 0 then Done () (sleep_ms 100 w)
      else (let delay = 500 div current_workers_count (shm w) in Done () (sleep_ms delay w)))"

text \<open>The result says whether the package was accepted, and the package with its new id.\<close>

definition push_body :: "Package \<Rightarrow> SharedState \<Rightarrow> ((bool \<times> Package) \<times> SharedState) option" where
  "push_body pkg s =
     (if MAX_BELT_CAPACITY_K \<le> current_items_count s then Some ((False, pkg), s)
      else do {
        total \<leftarrow> cadd (total_packages_created s) 1;
        let pkg' = pkg\<lparr>pkg_id := total\<rparr>;
        let current_tail = tail s;
        b \<leftarrow> aset (belt s) current_tail pkg';
        t \<leftarrow> cadd current_tail 1;
        n \<leftarrow> cadd (current_items_count s) 1;
        Some ((True, pkg'),
          s\<lparr>total_packages_created := total, belt := b, tail := t mod MAX_BELT_CAPACITY_K,
            current_items_count := n,
            current_belt_weight := dadd (current_belt_weight s) (weight pkg')\<rparr>)
      })"

definition push :: "Package \<Rightarrow> world \<Rightarrow> Package outcome" where
  "push pkg w =
     (if \<not> attached w then Done pkg w
      else obind (simulateWorkLoad w) (\<lambda>_ w1.
           obind (waitForEmptySlot w1) (\<lambda>_ w2.
           obind (with_lock lockBelt unlockBelt (on_shm (push_body pkg)) w2) (\<lambda>(accepted, pkg') w3.
           obind (if accepted then signalPackageAdded w3 else signalSlotFreed w3) (\<lambda>_ w4.
           Done pkg' w4)))))"

definition pop_body :: "SharedState \<Rightarrow> ((bool \<times> Package) \<times> SharedState) option" where
  "pop_body s =
     (if current_items_count s \<le> 0 then Some ((False, zero_Package), s)
      else do {
        let current_head = head s;
        pkg \<leftarrow> aget (belt s) current_head;
        b \<leftarrow> aset (belt s) current_head zero_Package;
        h \<leftarrow> cadd current_head 1;
        n \<leftarrow> csub (current_items_count s) 1;
        Some ((True, pkg),
          s\<lparr>belt := b, head := h mod MAX_BELT_CAPACITY_K, current_items_count := n,
            current_belt_weight := dsub (current_belt_weight s) (weight pkg)\<rparr>)
      })"

definition pop :: "world \<Rightarrow> Package outcome" where
  "pop w =
     (if \<not> attached w then Done zero_Package w
      else obind (waitForPackage w) (\<lambda>_ w1.
           obind (with_lock lockBelt unlockBelt (on_shm pop_body) w1) (\<lambda>(taken, pkg) w2.
           obind (if taken then signalSlotFreed w2 else signalPackageAdded w2) (\<lambda>_ w3.
           Done pkg w3))))"

definition getCount :: "world \<Rightarrow> int" where
  "getCount w = (if attached w then current_items_count (shm w) else 0)"

definition getWorkerCount :: "world \<Rightarrow> int" where
  "getWorkerCount w = (if attached w then current_workers_count (shm w) else 0)"

section \<open>Invariant and abstraction\<close>

definition belt_inv :: "SharedState \<Rightarrow> bool" where
  "belt_inv s \<longleftrightarrow>
     length (belt s) = nat MAX_BELT_CAPACITY_K
   \<and> 0 \<le> head s \<and> head s < MAX_BELT_CAPACITY_K
   \<and> 0 \<le> current_items_count s \<and> current_items_count s \<le> MAX_BELT_CAPACITY_K
   \<and> tail s = (head s + current_items_count s) mod MAX_BELT_CAPACITY_K
   \<and> 0 \<le> current_workers_count s \<and> current_workers_count s \<le> MAX_WORKERS_PER_BELT
   \<and> 0 \<le> total_packages_created s \<and> total_packages_created s \<le> INT32_MAX"

definition belt_contents :: "SharedState \<Rightarrow> Package list" where
  "belt_contents s = ring (belt s) (nat (head s)) (nat (current_items_count s))"

text \<open>How many packages can still be numbered before the id counter overflows.\<close>

definition id_budget :: "SharedState \<Rightarrow> int" where
  "id_budget s = INT32_MAX - total_packages_created s"

definition stamp :: "SharedState \<Rightarrow> Package \<Rightarrow> Package" where
  "stamp s p = p\<lparr>pkg_id := total_packages_created s + 1\<rparr>"

lemma belt_inv_zero: "belt_inv zero_SharedState"
  by (simp add: belt_inv_def zero_SharedState_def shared_consts INT32_MAX_def)

lemma belt_inv_init: "belt_inv (init_shm s)" "belt_contents (init_shm s) = []"
  by (simp_all add: belt_inv_def init_shm_def zero_SharedState_def shared_consts INT32_MAX_def
      belt_contents_def)

lemma length_belt_contents: "belt_inv s \<Longrightarrow> length (belt_contents s) = nat (current_items_count s)"
  by (simp add: belt_contents_def)

lemma belt_count: "belt_inv s \<Longrightarrow> current_items_count s = int (length (belt_contents s))"
  by (simp add: belt_contents_def belt_inv_def)

text \<open>The belt sections do not touch the rest of the shared state.\<close>

definition same_elsewhere :: "SharedState \<Rightarrow> SharedState \<Rightarrow> bool" where
  "same_elsewhere s s' \<longleftrightarrow>
     users s' = users s \<and> dock_truck s' = dock_truck s \<and> running s' = running s
   \<and> trucks_completed s' = trucks_completed s \<and> force_truck_departure s' = force_truck_departure s
   \<and> p4_load_command s' = p4_load_command s"

lemma push_body_accepts:
  assumes inv: "belt_inv s" and room: "current_items_count s < MAX_BELT_CAPACITY_K"
    and ids: "0 < id_budget s"
  shows "\<exists>s'. push_body pkg s = Some ((True, stamp s pkg), s') \<and> belt_inv s'
     \<and> belt_contents s' = belt_contents s @ [stamp s pkg]
     \<and> total_packages_created s' = total_packages_created s + 1
     \<and> current_belt_weight s' = dadd (current_belt_weight s) (weight pkg)
     \<and> current_workers_count s' = current_workers_count s \<and> same_elsewhere s s'"
proof -
  define h n where "h = nat (head s)" and "n = nat (current_items_count s)"
  have hn: "head s = int h" "current_items_count s = int n" "h < 10" "n < 10" "length (belt s) = 10"
    using inv room by (auto simp: belt_inv_def h_def n_def shared_consts)
  define t where "t = (h + n) mod 10"
  have t: "tail s = int t" "t < 10"
    using inv hn by (simp_all add: belt_inv_def shared_consts t_def zmod_int)
  define s' where "s' = s\<lparr>total_packages_created := total_packages_created s + 1,
     belt := (belt s)[t := stamp s pkg], tail := (tail s + 1) mod 10,
     current_items_count := current_items_count s + 1,
     current_belt_weight := dadd (current_belt_weight s) (weight pkg)\<rparr>"
  have "0 \<le> total_packages_created s" "total_packages_created s < 2147483647"
    using inv ids by (simp_all add: belt_inv_def id_budget_def INT32_MAX_def)
  then have "push_body pkg s = Some ((True, stamp s pkg), s')"
    using hn t by (simp add: push_body_def stamp_def s'_def cadd_def in_int32_iff aset_def
        shared_consts Let_def)
  moreover have "belt_inv s'"
    using inv ids hn
    by (simp add: belt_inv_def s'_def shared_consts id_budget_def mod_add_left_eq add.assoc)
  moreover have "belt_contents s' = belt_contents s @ [stamp s pkg]"
    using ring_snoc [of n "belt s" h "stamp s pkg"] hn
    by (simp add: belt_contents_def s'_def t_def nat_add_distrib)
  ultimately show ?thesis by (simp add: s'_def same_elsewhere_def)
qed

lemma push_body_rejects:
  "MAX_BELT_CAPACITY_K \<le> current_items_count s \<Longrightarrow> push_body pkg s = Some ((False, pkg), s)"
  by (simp add: push_body_def)

lemma pop_body_takes:
  assumes inv: "belt_inv s" and some: "0 < current_items_count s"
  shows "\<exists>s'. pop_body s = Some ((True, hd (belt_contents s)), s') \<and> belt_inv s'
     \<and> belt_contents s = hd (belt_contents s) # belt_contents s'
     \<and> total_packages_created s' = total_packages_created s
     \<and> current_belt_weight s' = dsub (current_belt_weight s) (weight (hd (belt_contents s)))
     \<and> current_workers_count s' = current_workers_count s \<and> same_elsewhere s s'"
proof -
  define h n where "h = nat (head s)" and "n = nat (current_items_count s)"
  have hn: "head s = int h" "current_items_count s = int n" "h < 10" "n \<le> 10" "0 < n"
    "length (belt s) = 10"
    using inv some by (auto simp: belt_inv_def h_def n_def shared_consts)
  have c: "belt_contents s = belt s ! h # ring (belt s) (Suc h) (n - 1)"
    using ring_Cons [of n "belt s" h] hn by (simp add: belt_contents_def)
  define s' where "s' = s\<lparr>belt := (belt s)[h := zero_Package], head := (head s + 1) mod 10,
     current_items_count := current_items_count s - 1,
     current_belt_weight := dsub (current_belt_weight s) (weight (belt s ! h))\<rparr>"
  have "pop_body s = Some ((True, belt s ! h), s')"
    using hn by (simp add: pop_body_def s'_def cadd_def csub_def in_int32_iff aget_def aset_def
        shared_consts Let_def)
  moreover have "belt_inv s'"
  proof -
    have "tail s = ((int h + 1) mod 10 + (int n - 1)) mod 10"
      using inv hn by (simp add: belt_inv_def shared_consts mod_add_left_eq)
    then show ?thesis using inv hn by (simp add: belt_inv_def s'_def shared_consts)
  qed
  moreover have "belt_contents s' = ring (belt s) (Suc h) (n - 1)"
  proof -
    have "nat ((head s + 1) mod 10) = Suc h mod 10"
    proof -
      have "(head s + 1) mod 10 = int (Suc h mod 10)" using hn by (simp add: zmod_int algebra_simps)
      then show ?thesis by (simp only: nat_int)
    qed
    then have "belt_contents s' = ring ((belt s)[h := zero_Package]) (Suc h mod 10) (n - 1)"
      using hn by (simp add: belt_contents_def s'_def nat_diff_distrib)
    also have "\<dots> = ring ((belt s)[h := zero_Package]) (Suc h) (n - 1)"
      using ring_mod_head [of "(belt s)[h := zero_Package]" "Suc h"] hn by simp
    also have "\<dots> = ring (belt s) (Suc h) (n - 1)"
      using ring_clear_head [of "n - 1" "belt s" h] hn by simp
    finally show ?thesis .
  qed
  ultimately show ?thesis using c by (simp add: s'_def same_elsewhere_def)
qed

lemma push_body_inv:
  assumes "belt_inv s" "push_body x s = Some (r, s')"
  shows "belt_inv s'"
proof (cases "current_items_count s < MAX_BELT_CAPACITY_K")
  case True
  have "0 < id_budget s"
    using assms True
    by (auto simp: push_body_def bind_eq_Some_conv cadd_eq_Some_iff id_budget_def in_int32_def)
  then show ?thesis using push_body_accepts [OF assms(1) True, of x] assms(2) by auto
qed (use assms in \<open>simp add: push_body_rejects\<close>)

lemma pop_body_empty:
  "current_items_count s \<le> 0 \<Longrightarrow> pop_body s = Some ((False, zero_Package), s)"
  by (simp add: pop_body_def)

lemma pop_body_inv:
  assumes "belt_inv s" "pop_body s = Some (r, s')"
  shows "belt_inv s'"
  using pop_body_takes [OF assms(1)] pop_body_empty [of s] assms
  by (cases "0 < current_items_count s") auto

section \<open>The interface of a bounded queue\<close>

text \<open>Clients of the belt call it in some order; \<open>fifo_run\<close> collects what was accepted and returned.\<close>

datatype 'a fifo_op = Enq 'a | Deq

fun fifo_run ::
  "('a \<Rightarrow> 's \<Rightarrow> ((bool \<times> 'a) \<times> 's) option) \<Rightarrow> ('s \<Rightarrow> ((bool \<times> 'a) \<times> 's) option) \<Rightarrow>
   'a fifo_op list \<Rightarrow> 's \<Rightarrow> ('a list \<times> 'a list \<times> 's) option"
where
  "fifo_run enq deq [] s = Some ([], [], s)"
| "fifo_run enq deq (Enq x # ops) s = do {
     ((ok, y), s1) \<leftarrow> enq x s;
     (acc, out, s2) \<leftarrow> fifo_run enq deq ops s1;
     Some ((if ok then y # acc else acc), out, s2)
   }"
| "fifo_run enq deq (Deq # ops) s = do {
     ((ok, y), s1) \<leftarrow> deq s;
     (acc, out, s2) \<leftarrow> fifo_run enq deq ops s1;
     Some (acc, (if ok then y # out else out), s2)
   }"

text \<open>A predicate that both operations keep is kept by a whole run.\<close>

lemma fifo_run_preserves:
  assumes "fifo_run enq deq ops s = Some (acc, out, s')" "P s"
    and "\<And>x t r t'. Enq x \<in> set ops \<Longrightarrow> P t \<Longrightarrow> enq x t = Some (r, t') \<Longrightarrow> P t'"
    and "\<And>t r t'. P t \<Longrightarrow> deq t = Some (r, t') \<Longrightarrow> P t'"
  shows "P s'"
  using assms
proof (induction ops arbitrary: s acc out)
  case Nil
  then show ?case by simp
next
  case (Cons op ops)
  have enq': "\<And>x t r t'. Enq x \<in> set ops \<Longrightarrow> P t \<Longrightarrow> enq x t = Some (r, t') \<Longrightarrow> P t'"
    using Cons.prems(3) by (meson list.set_intros(2))
  obtain s1 acc' out' where s1: "P s1" "fifo_run enq deq ops s1 = Some (acc', out', s')"
  proof (cases op)
    case (Enq x)
    with Cons.prems(1) obtain r s1 a b where "enq x s = Some (r, s1)"
      "fifo_run enq deq ops s1 = Some (a, b, s')"
      by (auto simp: bind_eq_Some_conv)
    with that Cons.prems(2) Cons.prems(3) [of x] Enq show ?thesis by (meson list.set_intros(1))
  next
    case Deq
    with Cons.prems(1) obtain r s1 a b where "deq s = Some (r, s1)"
      "fifo_run enq deq ops s1 = Some (a, b, s')"
      by (auto simp: bind_eq_Some_conv)
    with that Cons.prems(2,4) show ?thesis by blast
  qed
  show ?case by (rule Cons.IH [OF s1(2,1) enq' Cons.prems(4)])
qed

text \<open>
  The contract.  \<open>mark\<close> is what the queue does to an accepted element (the belt numbers it) and
  \<open>budget\<close> bounds how many elements can still be accepted without overflow.
\<close>

locale bounded_fifo =
  fixes enq :: "'a \<Rightarrow> 's \<Rightarrow> ((bool \<times> 'a) \<times> 's) option"
    and deq :: "'s \<Rightarrow> ((bool \<times> 'a) \<times> 's) option"
    and contents :: "'s \<Rightarrow> 'a list"
    and inv :: "'s \<Rightarrow> bool"
    and cap :: nat
    and mark :: "'s \<Rightarrow> 'a \<Rightarrow> 'a"
    and budget :: "'s \<Rightarrow> int"
  assumes enq_accepts: "inv s \<Longrightarrow> length (contents s) < cap \<Longrightarrow> 0 < budget s \<Longrightarrow>
      \<exists>s'. enq x s = Some ((True, mark s x), s') \<and> inv s' \<and> contents s' = contents s @ [mark s x]
         \<and> budget s' = budget s - 1"
    and enq_rejects: "inv s \<Longrightarrow> cap \<le> length (contents s) \<Longrightarrow> enq x s = Some ((False, x), s)"
    and deq_takes: "inv s \<Longrightarrow> contents s \<noteq> [] \<Longrightarrow>
      \<exists>s'. deq s = Some ((True, hd (contents s)), s') \<and> inv s' \<and> contents s' = tl (contents s)
         \<and> budget s' = budget s"
    and deq_empty: "inv s \<Longrightarrow> contents s = [] \<Longrightarrow> \<exists>y. deq s = Some ((False, y), s)"
    and bounded: "inv s \<Longrightarrow> length (contents s) \<le> cap"
begin

text \<open>One operation, accepted or not.\<close>

lemma enq_step:
  assumes "inv s" "0 < budget s"
  shows "\<exists>b y s'. enq x s = Some ((b, y), s') \<and> inv s' \<and> contents s' = contents s @ (if b then [y] else [])
     \<and> budget s - 1 \<le> budget s'"
proof (cases "length (contents s) < cap")
  case True
  then show ?thesis using enq_accepts [OF assms(1) True assms(2), of x] by auto
next
  case False
  then show ?thesis using enq_rejects [OF assms(1), of x] assms(1) by auto
qed

lemma deq_step:
  assumes "inv s"
  shows "\<exists>b y s'. deq s = Some ((b, y), s') \<and> inv s' \<and> contents s = (if b then [y] else []) @ contents s'
     \<and> budget s' = budget s"
proof (cases "contents s = []")
  case True
  then show ?thesis using deq_empty [OF assms True] assms by auto
next
  case False
  then obtain s' where "deq s = Some ((True, hd (contents s)), s')" "inv s'" "contents s' = tl (contents s)"
    "budget s' = budget s"
    using deq_takes [OF assms] by blast
  then show ?thesis using False by (intro exI [of _ True] exI [of _ "hd (contents s)"] exI [of _ s']) simp
qed

lemma run_fifo:
  assumes "inv s" "int (length ops) \<le> budget s"
  shows "\<exists>acc out s'. fifo_run enq deq ops s = Some (acc, out, s') \<and> inv s'
           \<and> contents s @ acc = out @ contents s'"
  using assms
proof (induction ops arbitrary: s)
  case Nil
  then show ?case by simp
next
  case (Cons op ops)
  have b: "0 < budget s" "int (length ops) \<le> budget s - 1" using Cons.prems(2) by auto
  show ?case
  proof (cases op)
    case (Enq x)
    obtain k y s1 where s1: "enq x s = Some ((k, y), s1)" "inv s1"
      "contents s1 = contents s @ (if k then [y] else [])" "budget s - 1 \<le> budget s1"
      using enq_step [OF Cons.prems(1) b(1)] by blast
    obtain acc out s2 where "fifo_run enq deq ops s1 = Some (acc, out, s2)" "inv s2"
      "contents s1 @ acc = out @ contents s2"
      using Cons.IH [OF s1(2)] s1(4) b by auto
    with s1 show ?thesis by (auto simp: Enq)
  next
    case Deq
    obtain k y s1 where s1: "deq s = Some ((k, y), s1)" "inv s1"
      "contents s = (if k then [y] else []) @ contents s1" "budget s1 = budget s"
      using deq_step [OF Cons.prems(1)] by blast
    obtain acc out s2 where "fifo_run enq deq ops s1 = Some (acc, out, s2)" "inv s2"
      "contents s1 @ acc = out @ contents s2"
      using Cons.IH [OF s1(2)] s1(4) b by auto
    with s1 show ?thesis by (auto simp: Deq)
  qed
qed

text \<open>An element put on an empty queue comes straight back.\<close>

lemma enq_deq:
  assumes "inv s" "contents s = []" "0 < cap" "0 < budget s"
  shows "\<exists>s1 s2. enq x s = Some ((True, mark s x), s1) \<and> deq s1 = Some ((True, mark s x), s2)
           \<and> inv s2 \<and> contents s2 = []"
proof -
  obtain s1 where s1: "enq x s = Some ((True, mark s x), s1)" "inv s1" "contents s1 = [mark s x]"
    using enq_accepts [OF assms(1) _ assms(4), of x] assms by auto
  then obtain s2 where "deq s1 = Some ((True, mark s x), s2)" "inv s2" "contents s2 = []"
    using deq_takes [OF s1(2)] by auto
  with s1 show ?thesis by blast
qed

end

interpretation belt_queue:
  bounded_fifo push_body pop_body belt_contents belt_inv "nat MAX_BELT_CAPACITY_K" stamp id_budget
proof unfold_locales
  fix s x
  show "\<exists>s'. push_body x s = Some ((True, stamp s x), s') \<and> belt_inv s'
          \<and> belt_contents s' = belt_contents s @ [stamp s x] \<and> id_budget s' = id_budget s - 1"
    if "belt_inv s" "length (belt_contents s) < nat MAX_BELT_CAPACITY_K" "0 < id_budget s"
    using push_body_accepts [OF that(1) _ that(3), of x] that(2) belt_count [OF that(1)]
    by (auto simp: id_budget_def shared_consts)
  show "push_body x s = Some ((False, x), s)"
    if "belt_inv s" "nat MAX_BELT_CAPACITY_K \<le> length (belt_contents s)"
    using that belt_count [OF that(1)] by (simp add: push_body_rejects shared_consts)
next
  fix s
  show "\<exists>s'. pop_body s = Some ((True, hd (belt_contents s)), s') \<and> belt_inv s'
          \<and> belt_contents s' = tl (belt_contents s) \<and> id_budget s' = id_budget s"
    if "belt_inv s" "belt_contents s \<noteq> []"
    using pop_body_takes [OF that(1)] that(2) belt_count [OF that(1)]
    by (metis id_budget_def length_greater_0_conv list.sel(3) of_nat_0_less_iff)
  show "\<exists>y. pop_body s = Some ((False, y), s)" if "belt_inv s" "belt_contents s = []"
    using that belt_count [OF that(1)] by (simp add: pop_body_empty)
  show "length (belt_contents s) \<le> nat MAX_BELT_CAPACITY_K" if "belt_inv s"
    using that by (simp add: length_belt_contents belt_inv_def nat_mono)
qed

abbreviation belt_run ::
  "Package fifo_op list \<Rightarrow> SharedState \<Rightarrow> (Package list \<times> Package list \<times> SharedState) option" where
  "belt_run \<equiv> fifo_run push_body pop_body"

section \<open>Package numbers\<close>

lemma push_body_numbers:
  assumes "belt_inv s" "push_body x s = Some ((ok, y), s')"
  shows "if ok then pkg_id y = total_packages_created s + 1 \<and> total_packages_created s' = total_packages_created s + 1
         else s' = s"
  using assms(2)
  by (auto simp: push_body_def bind_eq_Some_conv cadd_eq_Some_iff Let_def split: if_splits)

lemma pop_body_numbers: "pop_body s = Some (r, s') \<Longrightarrow> total_packages_created s' = total_packages_created s"
  by (auto simp: pop_body_def bind_eq_Some_conv Let_def split: if_splits)

lemma belt_run_ids:
  assumes "belt_inv s" "belt_run ops s = Some (acc, out, s')"
  shows "map pkg_id acc = map (\<lambda>k. total_packages_created s + 1 + int k) [0..<length acc]
       \<and> total_packages_created s' = total_packages_created s + int (length acc)"
  using assms
proof (induction ops arbitrary: s acc out)
  case Nil
  then show ?case by simp
next
  case (Cons op ops)
  have shift: "map (\<lambda>k. n + int k) [0..<Suc m] = n # map (\<lambda>k. n + 1 + int k) [0..<m]" for n m
    by (simp add: map_upt_Suc add.assoc del: upt_Suc)
  show ?case
  proof (cases op)
    case (Enq x)
    then obtain ok y s1 acc' where s1: "push_body x s = Some ((ok, y), s1)"
      "belt_run ops s1 = Some (acc', out, s')" "acc = (if ok then y # acc' else acc')"
      using Cons.prems(2) by (auto simp: bind_eq_Some_conv)
    note IH = Cons.IH [OF push_body_inv [OF Cons.prems(1) s1(1)] s1(2)]
    show ?thesis using IH push_body_numbers [OF Cons.prems(1) s1(1)] s1(3) shift [of "total_packages_created s + 1"]
      by (auto simp del: upt_Suc split: if_splits)
  next
    case Deq
    then obtain r s1 out' where s1: "pop_body s = Some (r, s1)" "belt_run ops s1 = Some (acc, out', s')"
      using Cons.prems(2) by (auto simp: bind_eq_Some_conv)
    show ?thesis using Cons.IH [OF pop_body_inv [OF Cons.prems(1) s1(1)] s1(2)] pop_body_numbers [OF s1(1)] by simp
  qed
qed

section \<open>Worker registration\<close>

lemma registerWorker_body_spec:
  assumes "belt_inv s"
  shows "registerWorker_body s =
     (if current_workers_count s < MAX_WORKERS_PER_BELT
      then Some (True, s\<lparr>current_workers_count := current_workers_count s + 1\<rparr>)
      else Some (False, s))"
  using assms by (simp add: registerWorker_body_def belt_inv_def cadd_def in_int32_iff shared_consts)

lemma unregisterWorker_body_spec:
  assumes "belt_inv s"
  shows "unregisterWorker_body s =
     Some ((), s\<lparr>current_workers_count := max 0 (current_workers_count s - 1)\<rparr>)"
  using assms
  by (simp add: unregisterWorker_body_def belt_inv_def csub_def in_int32_iff shared_consts)

lemma belt_inv_workers:
  "belt_inv s \<Longrightarrow> 0 \<le> n \<Longrightarrow> n \<le> MAX_WORKERS_PER_BELT \<Longrightarrow> belt_inv (s\<lparr>current_workers_count := n\<rparr>)"
  by (simp add: belt_inv_def)

lemma belt_contents_workers [simp]:
  "belt_contents (s\<lparr>current_workers_count := n\<rparr>) = belt_contents s"
  by (simp add: belt_contents_def)

section \<open>The whole methods\<close>

text \<open>
  \<open>belt_quiet\<close>: no process is inside a belt operation and the counting semaphores agree with the
  buffer.  It holds after initialisation, and every completed operation re-establishes it.
\<close>

definition belt_quiet :: "world \<Rightarrow> bool" where
  "belt_quiet w \<longleftrightarrow> attached w \<and> kernel w = [] \<and> sems w SEM_MUTEX_BELT = 1
     \<and> sems w SEM_EMPTY_SLOTS = MAX_BELT_CAPACITY_K - current_items_count (shm w)
     \<and> sems w SEM_FULL_SLOTS = current_items_count (shm w)"

definition workload_delay :: "SharedState \<Rightarrow> int" where
  "workload_delay s =
     (if current_workers_count s \<le> 0 then 100 else 500 div current_workers_count s)"

lemma simulateWorkLoad_delay:
  "attached w \<Longrightarrow> simulateWorkLoad w = Done () (sleep_ms (workload_delay (shm w)) w)"
  by (simp add: simulateWorkLoad_def workload_delay_def)

lemma workload_delay_bounds:
  assumes "belt_inv s"
  shows "5 \<le> workload_delay s" "workload_delay s \<le> 500"
proof -
  define c where "c = current_workers_count s"
  have c: "0 \<le> c" "c \<le> 100" using assms by (simp_all add: belt_inv_def c_def shared_consts)
  have "5 \<le> 500 div c" "500 div c \<le> 500" if "0 < c"
    using that c zdiv_mono2 [of 500 c 100] zdiv_mono2 [of 500 1 c] by auto
  then show "5 \<le> workload_delay s" "workload_delay s \<le> 500"
    by (auto simp: workload_delay_def c_def [symmetric])
qed

lemma push_quiet:
  assumes q: "belt_quiet w" and inv: "belt_inv (shm w)"
    and room: "current_items_count (shm w) < MAX_BELT_CAPACITY_K" and ids: "0 < id_budget (shm w)"
  shows "\<exists>w'. push pkg w = Done (stamp (shm w) pkg) w' \<and> belt_quiet w' \<and> belt_inv (shm w')
     \<and> belt_contents (shm w') = belt_contents (shm w) @ [stamp (shm w) pkg]
     \<and> total_packages_created (shm w') = total_packages_created (shm w) + 1
     \<and> same_elsewhere (shm w) (shm w') \<and> msgq w' = msgq w
     \<and> sems w' SEM_DOCK_MUTEX = sems w SEM_DOCK_MUTEX \<and> msg_qbytes w' = msg_qbytes w
     \<and> current_workers_count (shm w') = current_workers_count (shm w)
     \<and> current_belt_weight (shm w') = dadd (current_belt_weight (shm w)) (weight pkg)"
proof -
  obtain s' where s': "push_body pkg (shm w) = Some ((True, stamp (shm w) pkg), s')" "belt_inv s'"
    "belt_contents s' = belt_contents (shm w) @ [stamp (shm w) pkg]"
    "total_packages_created s' = total_packages_created (shm w) + 1" "same_elsewhere (shm w) s'"
    "current_workers_count s' = current_workers_count (shm w)"
    "current_belt_weight s' = dadd (current_belt_weight (shm w)) (weight pkg)"
    using push_body_accepts [OF inv room ids] by blast
  have c: "current_items_count s' = current_items_count (shm w) + 1"
    using belt_count [OF s'(2)] belt_count [OF inv] s'(3) by simp
  have "0 \<le> current_items_count (shm w)" using inv by (simp add: belt_inv_def)
  then show ?thesis using q s' c room
    by (simp add: push_def simulateWorkLoad_delay belt_quiet_def sleep_ms_def sem_wrapper_defs
        checked_simps with_lock_def on_shm_def)
qed

lemma push_blocks:
  assumes "belt_quiet w" "current_items_count (shm w) = MAX_BELT_CAPACITY_K"
  shows "push pkg w = Blocked (OnSem SEM_EMPTY_SLOTS) (sleep_ms (workload_delay (shm w)) w)"
  using assms by (simp add: push_def simulateWorkLoad_delay belt_quiet_def sleep_ms_def
      sem_wrapper_defs checked_simps)

lemma pop_quiet:
  assumes q: "belt_quiet w" and inv: "belt_inv (shm w)" and some: "0 < current_items_count (shm w)"
  shows "\<exists>w'. pop w = Done (hd (belt_contents (shm w))) w' \<and> belt_quiet w' \<and> belt_inv (shm w')
     \<and> belt_contents (shm w) = hd (belt_contents (shm w)) # belt_contents (shm w')
     \<and> total_packages_created (shm w') = total_packages_created (shm w)
     \<and> same_elsewhere (shm w) (shm w') \<and> msgq w' = msgq w \<and> msg_qbytes w' = msg_qbytes w
     \<and> sems w' SEM_DOCK_MUTEX = sems w SEM_DOCK_MUTEX"
proof -
  obtain s' where s': "pop_body (shm w) = Some ((True, hd (belt_contents (shm w))), s')" "belt_inv s'"
    "belt_contents (shm w) = hd (belt_contents (shm w)) # belt_contents s'"
    "total_packages_created s' = total_packages_created (shm w)" "same_elsewhere (shm w) s'"
    using pop_body_takes [OF inv some] by blast
  have c: "current_items_count s' = current_items_count (shm w) - 1"
    using belt_count [OF s'(2)] belt_count [OF inv] arg_cong [OF s'(3), of length] by simp
  have "current_items_count (shm w) \<le> MAX_BELT_CAPACITY_K" using inv by (simp add: belt_inv_def)
  then show ?thesis using q s' c some
    by (simp add: pop_def belt_quiet_def sem_wrapper_defs checked_simps with_lock_def on_shm_def)
qed

lemma pop_blocks:
  assumes "belt_quiet w" "current_items_count (shm w) = 0"
  shows "pop w = Blocked (OnSem SEM_FULL_SLOTS) w"
  using assms by (simp add: pop_def belt_quiet_def sem_wrapper_defs checked_simps)

lemma registerWorker_quiet:
  assumes "belt_quiet w" "belt_inv (shm w)" "current_workers_count (shm w) < MAX_WORKERS_PER_BELT"
  shows "registerWorker w =
    Done True (w\<lparr>shm := (shm w)\<lparr>current_workers_count := current_workers_count (shm w) + 1\<rparr>\<rparr>)"
  using assms by (simp add: registerWorker_def belt_quiet_def belt_mutex.bracket_shm registerWorker_body_spec)

lemma unregisterWorker_quiet:
  assumes "belt_quiet w" "belt_inv (shm w)"
  shows "unregisterWorker w =
    Done () (w\<lparr>shm := (shm w)\<lparr>current_workers_count := max 0 (current_workers_count (shm w) - 1)\<rparr>\<rparr>)"
  using assms by (simp add: unregisterWorker_def belt_quiet_def belt_mutex.bracket_shm unregisterWorker_body_spec)

section \<open>The weight counter\<close>

text \<open>
  The counter is kept in floating point.  It is the exact sum as long as the weights are
  multiples of a common power of two (whole kilograms, quarters of a kilogram) of moderate size.
\<close>

fun dval :: "double \<Rightarrow> rat" where
  "dval (Fin x) = x"
| "dval _ = 0"

definition dyadic :: "int \<Rightarrow> double \<Rightarrow> bool" where
  "dyadic k x \<longleftrightarrow> (\<exists>m. 0 \<le> m \<and> m \<le> 2 ^ 49 \<and> x = Fin (of_int m * pow2 k))"

definition weight_sum :: "Package list \<Rightarrow> rat" where
  "weight_sum ps = sum_list (map (dval \<circ> weight) ps)"

definition weight_exact :: "int \<Rightarrow> SharedState \<Rightarrow> bool" where
  "weight_exact k s \<longleftrightarrow> (\<forall>p \<in> set (belt_contents s). dyadic k (weight p))
     \<and> current_belt_weight s = Fin (weight_sum (belt_contents s))"

lemma weight_sum_dyadic:
  assumes "\<forall>p \<in> set ps. dyadic k (weight p)"
  shows "\<exists>M. 0 \<le> M \<and> M \<le> int (length ps) * 2 ^ 49 \<and> weight_sum ps = of_int M * pow2 k"
  using assms
proof (induction ps)
  case Nil
  show ?case by (rule exI [of _ 0]) (simp add: weight_sum_def)
next
  case (Cons p ps)
  then obtain M m where M: "0 \<le> M" "M \<le> int (length ps) * 2 ^ 49" "weight_sum ps = of_int M * pow2 k"
    and m: "0 \<le> m" "m \<le> 2 ^ 49" "weight p = Fin (of_int m * pow2 k)"
    by (auto simp: dyadic_def)
  then show ?case
    by (intro exI [of _ "M + m"]) (simp add: weight_sum_def algebra_simps)
qed

lemma weight_sum_representable:
  assumes "\<forall>p \<in> set ps. dyadic k (weight p)" "length ps \<le> 10" "-1074 \<le> k" "k \<le> 900"
  shows "to_double (weight_sum ps) = Fin (weight_sum ps)"
proof -
  obtain M where M: "0 \<le> M" "M \<le> int (length ps) * 2 ^ 49" "weight_sum ps = of_int M * pow2 k"
    using weight_sum_dyadic [OF assms(1)] by blast
  have "int (length ps) * 2 ^ 49 \<le> 10 * 2 ^ 49" using assms(2) by (intro mult_right_mono) auto
  with M have "\<bar>M\<bar> \<le> 2 ^ 53" by simp
  then show ?thesis using to_double_exact assms(3,4) M(3) by simp
qed

lemma push_body_weight_exact:
  assumes "belt_inv s" "weight_exact k s" "dyadic k (weight x)" "-1074 \<le> k" "k \<le> 900"
    and "push_body x s = Some (r, s')" "belt_inv s'"
  shows "weight_exact k s'"
proof (cases "current_items_count s < MAX_BELT_CAPACITY_K")
  case True
  have "0 < id_budget s"
    using assms(1,6) True
    by (auto simp: push_body_def bind_eq_Some_conv cadd_eq_Some_iff id_budget_def in_int32_def)
  then have c: "belt_contents s' = belt_contents s @ [stamp s x]"
    "current_belt_weight s' = dadd (current_belt_weight s) (weight x)"
    using push_body_accepts [OF assms(1) True, of x] assms(6) by auto
  have dy: "\<forall>p \<in> set (belt_contents s'). dyadic k (weight p)"
    using assms(2,3) by (auto simp: c weight_exact_def stamp_def)
  have "length (belt_contents s') \<le> 10"
    using belt_queue.bounded [OF assms(7)] by (simp add: shared_consts)
  then have "to_double (weight_sum (belt_contents s')) = Fin (weight_sum (belt_contents s'))"
    using weight_sum_representable dy assms(4,5) by blast
  moreover obtain m where m: "weight x = Fin m" using assms(3) by (auto simp: dyadic_def)
  have "weight_sum (belt_contents s') = weight_sum (belt_contents s) + m"
    by (simp add: c weight_sum_def stamp_def m)
  then have "current_belt_weight s' = to_double (weight_sum (belt_contents s'))"
    using assms(2) c(2) m by (simp add: weight_exact_def)
  ultimately show ?thesis using dy by (simp add: weight_exact_def)
next
  case False
  then show ?thesis using assms by (simp add: push_body_rejects)
qed

lemma pop_body_weight_exact:
  assumes "belt_inv s" "weight_exact k s" "-1074 \<le> k" "k \<le> 900" "pop_body s = Some (r, s')"
  shows "weight_exact k s'"
proof (cases "0 < current_items_count s")
  case True
  then have c: "belt_contents s = hd (belt_contents s) # belt_contents s'" "belt_inv s'"
    "current_belt_weight s' = dsub (current_belt_weight s) (weight (hd (belt_contents s)))"
    using pop_body_takes [OF assms(1)] assms(5) by auto
  have "\<forall>p \<in> set (hd (belt_contents s) # belt_contents s'). dyadic k (weight p)"
    using assms(2) c(1) unfolding weight_exact_def by metis
  then have dy: "\<forall>p \<in> set (belt_contents s'). dyadic k (weight p)"
    and hd: "dyadic k (weight (hd (belt_contents s)))" by auto
  have "length (belt_contents s') \<le> 10"
    using belt_queue.bounded [OF c(2)] by (simp add: shared_consts)
  then have rep: "to_double (weight_sum (belt_contents s')) = Fin (weight_sum (belt_contents s'))"
    using weight_sum_representable dy assms(3,4) by blast
  obtain m where m: "weight (hd (belt_contents s)) = Fin m" using hd by (auto simp: dyadic_def)
  have "weight_sum (belt_contents s) = m + weight_sum (belt_contents s')"
    by (subst c(1)) (simp add: weight_sum_def m)
  then have "current_belt_weight s' = to_double (weight_sum (belt_contents s'))"
    using assms(2) c(3) m by (simp add: weight_exact_def dsub_def)
  then show ?thesis using dy rep by (simp add: weight_exact_def)
next
  case False
  then show ?thesis using assms by (simp add: pop_body_empty)
qed

section \<open>Properties\<close>

text \<open>
  C13: any interleaving of completed pushes and pops behaves as a bounded FIFO queue.  No sequence
  leads to undefined behaviour; what was on the belt followed by what was accepted is what came
  out followed by what is on the belt now, in order; the capacity is never exceeded.
\<close>

theorem belt_fifo_order:
  assumes "belt_inv s" "int (length ops) \<le> id_budget s"
  shows "\<exists>acc out s'. belt_run ops s = Some (acc, out, s') \<and> belt_inv s'
     \<and> belt_contents s @ acc = out @ belt_contents s'
     \<and> length (belt_contents s') \<le> nat MAX_BELT_CAPACITY_K"
  using belt_queue.run_fifo [OF assms] belt_queue.bounded by blast

theorem belt_fifo_order_witness:
  "belt_inv zero_SharedState \<and>
   (\<exists>acc out s'. belt_run [Enq zero_Package, Enq zero_Package, Deq] zero_SharedState = Some (acc, out, s')
     \<and> belt_inv s' \<and> belt_contents zero_SharedState @ acc = out @ belt_contents s'
     \<and> length (belt_contents s') \<le> nat MAX_BELT_CAPACITY_K)"
  using belt_inv_zero
    belt_fifo_order [OF belt_inv_zero, of "[Enq zero_Package, Enq zero_Package, Deq]"]
  by (simp add: id_budget_def zero_SharedState_def INT32_MAX_def)

text \<open>
  The packages accepted by any sequence of operations get consecutive numbers, starting after
  the number of packages created so far; hence no two packages ever share an id.
\<close>

theorem belt_ids_consecutive:
  assumes "belt_inv s" "int (length ops) \<le> id_budget s" "belt_run ops s = Some (acc, out, s')"
  shows "map pkg_id acc = map (\<lambda>k. total_packages_created s + 1 + int k) [0..<length acc]
     \<and> distinct (map pkg_id acc)
     \<and> total_packages_created s' = total_packages_created s + int (length acc)"
proof -
  note ids = belt_run_ids [OF assms(1,3)]
  moreover have "distinct (map (\<lambda>k. total_packages_created s + 1 + int k) [0..<length acc])"
    by (simp add: distinct_map inj_on_def)
  ultimately show ?thesis by simp
qed

lemma belt_run_sample:
  "belt_run [Enq zero_Package, Enq zero_Package] zero_SharedState =
     Some ([stamp zero_SharedState zero_Package, zero_Package\<lparr>pkg_id := 2\<rparr>], [],
       zero_SharedState\<lparr>total_packages_created := 2, tail := 2, current_items_count := 2,
         belt := [zero_Package\<lparr>pkg_id := 1\<rparr>, zero_Package\<lparr>pkg_id := 2\<rparr>] @ replicate 8 zero_Package\<rparr>)"
  by (simp add: push_body_def zero_SharedState_def shared_consts cadd_def in_int32_iff aset_def
      stamp_def Let_def zero_Package_def eval_nat_numeral)

theorem belt_ids_consecutive_witness:
  "belt_inv zero_SharedState \<and>
   map pkg_id [stamp zero_SharedState zero_Package, zero_Package\<lparr>pkg_id := 2\<rparr>] = [1, 2]"
  using belt_inv_zero belt_ids_consecutive [OF belt_inv_zero _ belt_run_sample]
  by (simp add: id_budget_def zero_SharedState_def INT32_MAX_def)

text \<open>
  C25: the whole \<open>push\<close>, with its semaphore operations.  On a quiet belt with room it completes, gives
  the package the next id, appends it, adds its weight to the weight counter, leaves sessions, dock and
  messages alone and the semaphores consistent; on a full belt it blocks on the empty-slot semaphore and
  changes nothing but time.  The number of packages is the only criterion: the comment on \<open>push\<close> says
  that a package is rejected when \<open>MAX_BELT_WEIGHT_M\<close> would be exceeded, but the code has no such test,
  and the statement holds for packages of any weight; the instance below exceeds the limit.
\<close>

theorem push_handler:
  assumes "belt_quiet w" "belt_inv (shm w)" "0 < id_budget (shm w)"
  shows "if current_items_count (shm w) < MAX_BELT_CAPACITY_K
    then \<exists>w' p. push pkg w = Done p w' \<and> p = pkg\<lparr>pkg_id := total_packages_created (shm w) + 1\<rparr>
      \<and> belt_quiet w' \<and> belt_inv (shm w') \<and> belt_contents (shm w') = belt_contents (shm w) @ [p]
      \<and> total_packages_created (shm w') = total_packages_created (shm w) + 1
      \<and> current_belt_weight (shm w') = dadd (current_belt_weight (shm w)) (weight pkg)
      \<and> same_elsewhere (shm w) (shm w') \<and> msgq w' = msgq w
    else push pkg w = Blocked (OnSem SEM_EMPTY_SLOTS) (sleep_ms (workload_delay (shm w)) w)"
proof (cases "current_items_count (shm w) < MAX_BELT_CAPACITY_K")
  case True
  then show ?thesis using push_quiet [OF assms(1,2) True assms(3), of pkg] unfolding stamp_def by auto
next
  case False
  then have "current_items_count (shm w) = MAX_BELT_CAPACITY_K"
    using assms(2) by (simp add: belt_inv_def)
  then show ?thesis using push_blocks [OF assms(1)] by simp
qed

lemma belt_quiet_boot: "belt_quiet boot_world" "belt_inv (shm boot_world)" "0 < id_budget (shm boot_world)"
  using belt_inv_init
  by (simp_all add: belt_quiet_def init_sems_def init_shm_def zero_SharedState_def shared_consts
      id_budget_def INT32_MAX_def)

theorem push_handler_witness:
  "belt_quiet boot_world \<and> (\<exists>w'. push (zero_Package\<lparr>weight := Fin 2000\<rparr>) boot_world
        = Done (zero_Package\<lparr>weight := Fin 2000, pkg_id := 1\<rparr>) w'
     \<and> belt_quiet w' \<and> belt_contents (shm w') = [zero_Package\<lparr>weight := Fin 2000, pkg_id := 1\<rparr>]
     \<and> dlt MAX_BELT_WEIGHT_M (current_belt_weight (shm w')))"
proof -
  have b: "current_items_count (shm boot_world) < MAX_BELT_CAPACITY_K" "total_packages_created (shm boot_world) = 0"
    "belt_contents (shm boot_world) = []" "current_belt_weight (shm boot_world) = Fin 0"
    by (simp_all add: init_shm_def zero_SharedState_def shared_consts belt_contents_def)
  obtain w' where w': "push (zero_Package\<lparr>weight := Fin 2000\<rparr>) boot_world
        = Done (zero_Package\<lparr>weight := Fin 2000, pkg_id := 1\<rparr>) w'" "belt_quiet w'"
    "belt_contents (shm w') = [zero_Package\<lparr>weight := Fin 2000, pkg_id := 1\<rparr>]"
    "current_belt_weight (shm w') = dadd (Fin 0) (Fin 2000)"
    using push_handler [OF belt_quiet_boot, of "zero_Package\<lparr>weight := Fin 2000\<rparr>"] b by auto
  have "dlt MAX_BELT_WEIGHT_M (dadd (Fin 0) (Fin 2000))"
    by (simp add: MAX_BELT_WEIGHT_M_def to_double_numeral)
  then show ?thesis using w' belt_quiet_boot(1) by metis
qed

text \<open>
  C26: the whole \<open>pop\<close>.  On a quiet belt it returns the oldest package and removes it, or blocks on the
  full-slot semaphore when the belt is empty; it never returns an empty package there.
\<close>

theorem pop_handler:
  assumes "belt_quiet w" "belt_inv (shm w)"
  shows "if belt_contents (shm w) = [] then pop w = Blocked (OnSem SEM_FULL_SLOTS) w
    else \<exists>w'. pop w = Done (hd (belt_contents (shm w))) w' \<and> belt_quiet w' \<and> belt_inv (shm w')
      \<and> belt_contents (shm w') = tl (belt_contents (shm w))
      \<and> same_elsewhere (shm w) (shm w') \<and> msgq w' = msgq w"
proof (cases "belt_contents (shm w) = []")
  case True
  then show ?thesis using pop_blocks [OF assms(1)] belt_count [OF assms(2)] by simp
next
  case False
  then have "0 < current_items_count (shm w)" using belt_count [OF assms(2)] by simp
  then obtain w' where w': "pop w = Done (hd (belt_contents (shm w))) w'" "belt_quiet w'"
    "belt_inv (shm w')" "belt_contents (shm w) = hd (belt_contents (shm w)) # belt_contents (shm w')"
    "same_elsewhere (shm w) (shm w')" "msgq w' = msgq w"
    using pop_quiet [OF assms] by blast
  moreover from w'(4) have "belt_contents (shm w') = tl (belt_contents (shm w))"
    by (metis list.sel(3))
  ultimately show ?thesis using False by auto
qed

theorem pop_handler_witness:
  "belt_quiet boot_world \<and> pop boot_world = Blocked (OnSem SEM_FULL_SLOTS) boot_world"
  using belt_quiet_boot(1) pop_handler [OF belt_quiet_boot(1,2)] belt_inv_init(2) by simp

text \<open>
  Worker registration.  A worker is admitted exactly while fewer than the maximum are registered,
  the count follows, and unregistering an admitted worker restores the state.
\<close>

theorem worker_registration:
  assumes "belt_quiet w" "belt_inv (shm w)"
  shows "\<exists>b w'. registerWorker w = Done b w' \<and> belt_quiet w' \<and> belt_inv (shm w')
     \<and> (b \<longleftrightarrow> current_workers_count (shm w) < MAX_WORKERS_PER_BELT)
     \<and> current_workers_count (shm w') = current_workers_count (shm w) + (if b then 1 else 0)
     \<and> (if b then unregisterWorker w' = Done () w else w' = w)"
proof -
  have m: "kernel w = []" "0 < sems w SEM_MUTEX_BELT" "attached w"
    using assms(1) by (simp_all add: belt_quiet_def)
  have "belt_inv ((shm w)\<lparr>current_workers_count := current_workers_count (shm w) + 1\<rparr>)"
    if "current_workers_count (shm w) < MAX_WORKERS_PER_BELT"
    using assms(2) that by (intro belt_inv_workers) (auto simp: belt_inv_def)
  moreover have "0 \<le> current_workers_count (shm w)" using assms(2) by (simp add: belt_inv_def)
  ultimately show ?thesis
    using assms m
    by (auto simp: registerWorker_def unregisterWorker_def belt_mutex.bracket_shm
        registerWorker_body_spec unregisterWorker_body_spec belt_quiet_def)
qed

theorem worker_registration_witness:
  "belt_quiet boot_world \<and> (\<exists>b w'. registerWorker boot_world = Done b w' \<and> b
      \<and> current_workers_count (shm w') = 1)"
  using belt_quiet_boot(1) worker_registration [OF belt_quiet_boot(1,2)]
  by (auto simp: init_shm_def zero_SharedState_def shared_consts)

text \<open>
  A signal handler that runs while a process waits for the belt mutex makes \<open>semop\<close> fail with
  \<open>EINTR\<close>; the wrapper ignores this.  The process enters the critical section while another holds the
  mutex, and its \<open>unlock\<close> leaves the mutex free although the other process is still inside.
\<close>

theorem interrupted_lock_breaks_mutex:
  assumes "kernel w = [Some EINTR]" "attached w" "sems w SEM_MUTEX_BELT = 0" "belt_inv (shm w)"
    "current_workers_count (shm w) < MAX_WORKERS_PER_BELT"
  shows "\<exists>w'. registerWorker w = Done True w' \<and> sems w' SEM_MUTEX_BELT = 1
     \<and> current_workers_count (shm w') = current_workers_count (shm w) + 1"
  using assms belt_mutex.bracket_EINTR [OF assms(1), of registerWorker_body True]
  by (simp add: registerWorker_def registerWorker_body_spec)

theorem interrupted_lock_breaks_mutex_witness:
  "\<exists>w'. registerWorker (boot_world\<lparr>kernel := [Some EINTR], sems := (\<lambda>_. 0)\<rparr>) = Done True w'
     \<and> sems w' SEM_MUTEX_BELT = 1"
  using interrupted_lock_breaks_mutex [of "boot_world\<lparr>kernel := [Some EINTR], sems := (\<lambda>_. 0)\<rparr>"]
    belt_quiet_boot(2)
  by (auto simp: init_shm_def zero_SharedState_def shared_consts)

text \<open>
  With weights that are multiples of a common power of two (of at most \<open>2\<^sup>4\<^sup>9\<close> units each), the
  weight counter equals the exact sum of the weights on the belt after any sequence of operations;
  in particular it is zero whenever the belt is empty.
\<close>

theorem belt_weight_exact:
  assumes "belt_inv s" "weight_exact k s" "-1074 \<le> k" "k \<le> 900"
    and "\<forall>x. Enq x \<in> set ops \<longrightarrow> dyadic k (weight x)"
    and "belt_run ops s = Some (acc, out, s')"
  shows "current_belt_weight s' = Fin (weight_sum (belt_contents s'))"
proof -
  have "belt_inv s' \<and> weight_exact k s'"
  proof (rule fifo_run_preserves [OF assms(6)])
    show "belt_inv s \<and> weight_exact k s" using assms by simp
    fix x t r t'
    assume "Enq x \<in> set ops" "belt_inv t \<and> weight_exact k t" "push_body x t = Some (r, t')"
    moreover from this have "belt_inv t'" using push_body_inv by blast
    ultimately show "belt_inv t' \<and> weight_exact k t'"
      using push_body_weight_exact assms(3-5) by blast
  next
    fix t r t'
    assume "belt_inv t \<and> weight_exact k t" "pop_body t = Some (r, t')"
    then show "belt_inv t' \<and> weight_exact k t'"
      using pop_body_weight_exact assms(3,4) pop_body_inv by blast
  qed
  then show ?thesis by (simp add: weight_exact_def)
qed

theorem belt_weight_exact_witness:
  "\<exists>acc out s'. belt_run [Enq (zero_Package\<lparr>weight := Fin 10\<rparr>)] zero_SharedState = Some (acc, out, s')
     \<and> belt_contents s' = acc \<and> current_belt_weight s' = Fin (weight_sum (belt_contents s'))"
proof -
  define ops where "ops = [Enq (zero_Package\<lparr>weight := Fin 10\<rparr>)]"
  have w: "weight_exact 0 zero_SharedState" "belt_contents zero_SharedState = []"
    by (simp_all add: weight_exact_def belt_contents_def zero_SharedState_def weight_sum_def)
  have d: "\<forall>x. Enq x \<in> set ops \<longrightarrow> dyadic 0 (weight x)"
    by (auto simp: ops_def dyadic_def pow2_def intro!: exI [of _ 10])
  obtain acc out s' where r: "belt_run ops zero_SharedState = Some (acc, out, s')"
    "belt_contents zero_SharedState @ acc = out @ belt_contents s'"
    using belt_queue.run_fifo [OF belt_inv_zero, of ops]
    by (auto simp: ops_def id_budget_def zero_SharedState_def INT32_MAX_def)
  have "out = []" using r(1) by (auto simp: ops_def bind_eq_Some_conv)
  then show ?thesis
    using r w(2) belt_weight_exact [OF belt_inv_zero w(1) _ _ d r(1)] by (auto simp: ops_def)
qed

text \<open>The roundings of the next theorem, certified one by one.\<close>

lemma drift_roundings:
  "lit (1 / 5) = Fin (3602879701896397 / 18014398509481984)"
  "lit (19 / 10) = Fin (4278419646001971 / 2251799813685248)"
  "to_double (3602879701896397 / 18014398509481984) = Fin (3602879701896397 / 18014398509481984)"
  "to_double (37830236869912165 / 18014398509481984) = Fin (4728779608739021 / 2251799813685248)"
  "to_double (34227357168015771 / 18014398509481984) = Fin (8556839292003943 / 4503599627370496)"
  "to_double (1 / 4503599627370496) = Fin (1 / 4503599627370496)"
  using to_double_by [of "-3" "1 / 5" 7205759403792794]
    to_double_by [of 0 "19 / 10" 8556839292003942]
    to_double_by [of "-3" "3602879701896397 / 18014398509481984" 7205759403792794]
    to_double_by [of 1 "37830236869912165 / 18014398509481984" 4728779608739021]
    to_double_by [of 0 "34227357168015771 / 18014398509481984" 8556839292003943]
    to_double_exact [of 1 "-52"]
  by (simp_all add: pow2_def)

definition light_package :: "rat \<Rightarrow> Package" where
  "light_package kg = zero_Package\<lparr>pkg_type := TypeA, volume := VOL_A, weight := lit kg\<rparr>"

text \<open>
  In general the weight counter drifts.  Two packages of 0.2 kg and 1.9 kg, both legal weights
  of type A, are placed on a fresh belt and removed again: the belt is empty and the counter is
  not zero.
\<close>

theorem belt_weight_drifts:
  "\<exists>acc out s'. belt_run [Enq (light_package (1 / 5)), Enq (light_package (19 / 10)), Deq, Deq]
       (init_shm zero_SharedState) = Some (acc, out, s')
     \<and> belt_contents s' = [] \<and> current_belt_weight s' = Fin (1 / 4503599627370496)"
proof -
  have w: "weight (light_package kg) = lit kg" for kg by (simp add: light_package_def)
  show ?thesis
    by (simp add: push_body_def pop_body_def init_shm_def zero_SharedState_def shared_consts cadd_def
        csub_def in_int32_iff aset_def aget_def Let_def w drift_roundings dsub_def belt_contents_def
        eval_nat_numeral)
qed

end
