(* ===== verification/Sessions.thy ===== *)
theory Sessions
  imports Manager
begin

text \<open>
  \<open>include/SessionManager.h\<close>: the session table in shared memory.

  A \<open>SessionManager\<close> object has one field of its own, \<open>current_session\<close>; the operations that change
  it return its new value.  Usernames are the bytes of a \<open>char[32]\<close>, written by \<open>strncpy\<close> and compared
  by \<open>strncmp\<close>, both bounded by 31.
\<close>

section \<open>C strings\<close>

definition c_str :: "char list \<Rightarrow> char list" where
  "c_str s = takeWhile (\<lambda>c. c \<noteq> NUL) s"

text \<open>\<open>strncmp(a, b, n) == 0\<close>; the end of the list is the terminating NUL.\<close>

fun strncmp_eq :: "nat \<Rightarrow> char list \<Rightarrow> char list \<Rightarrow> bool" where
  "strncmp_eq 0 a b = True"
| "strncmp_eq (Suc n) a b =
     (let x = (case a of [] \<Rightarrow> NUL | c # _ \<Rightarrow> c); y = (case b of [] \<Rightarrow> NUL | c # _ \<Rightarrow> c) in
      if x \<noteq> y then False else if x = NUL then True else strncmp_eq n (tl a) (tl b))"

text \<open>\<open>strncpy(dst, src, n)\<close>: copies at most \<open>n\<close> bytes and pads with NUL up to \<open>n\<close>.\<close>

definition strncpy :: "char list \<Rightarrow> char list \<Rightarrow> nat \<Rightarrow> char list" where
  "strncpy dst src n = take n (c_str src @ replicate n NUL) @ drop n dst"

section \<open>Operations\<close>

text \<open>The index of the first element with a property, -1 if there is none.\<close>

fun first_index :: "('a \<Rightarrow> bool) \<Rightarrow> 'a list \<Rightarrow> int \<Rightarrow> int" where
  "first_index P [] i = -1"
| "first_index P (x # xs) i = (if P x then i else first_index P xs (i + 1))"

definition login_body ::
  "string \<Rightarrow> UserRole \<Rightarrow> OrgId \<Rightarrow> int \<Rightarrow> pid_t \<Rightarrow> int \<Rightarrow> SharedState \<Rightarrow> ((bool \<times> int) \<times> SharedState) option"
where
  "login_body name r org max_procs pid current_session s =
     (if list_ex (\<lambda>u. active u \<and> strncmp_eq 31 (username u) (c_str name)) (users s)
      then Some ((False, current_session), s)
      else (let free_slot = first_index (\<lambda>u. \<not> active u) (users s) 0 in
        if free_slot = -1 then Some ((False, current_session), s)
        else do {
          us \<leftarrow> aset (users s) free_slot
                 (zero_UserSession\<lparr>active := True, username := strncpy (username zero_UserSession) name 31,
                    role := r, orgId := org, max_processes := max_procs, current_processes := 0,
                    session_pid := pid\<rparr>);
          Some ((True, free_slot), s\<lparr>users := us\<rparr>)
        }))"

definition login ::
  "string \<Rightarrow> UserRole \<Rightarrow> OrgId \<Rightarrow> int \<Rightarrow> pid_t \<Rightarrow> int \<Rightarrow> world \<Rightarrow> (bool \<times> int) outcome"
where
  "login name r org max_procs pid current_session w =
     (if \<not> attached w then Done (False, current_session) w
      else with_lock lockBelt unlockBelt
             (on_shm (login_body name r org max_procs pid current_session)) w)"

definition logout_body :: "int \<Rightarrow> SharedState \<Rightarrow> (int \<times> SharedState) option" where
  "logout_body current_session s = do {
     u \<leftarrow> aget (users s) current_session;
     us \<leftarrow> aset (users s) current_session
            (u\<lparr>active := False, role := UserRole_None, orgId := 0, current_processes := 0\<rparr>);
     Some (-1, s\<lparr>users := us\<rparr>)
   }"

definition logout :: "int \<Rightarrow> world \<Rightarrow> int outcome" where
  "logout current_session w =
     (if current_session = -1 \<or> \<not> attached w then Done current_session w
      else with_lock lockBelt unlockBelt (on_shm (logout_body current_session)) w)"

definition trySpawnProcess_body :: "int \<Rightarrow> SharedState \<Rightarrow> (bool \<times> SharedState) option" where
  "trySpawnProcess_body current_session s = do {
     u \<leftarrow> aget (users s) current_session;
     (if current_processes u < max_processes u then do {
        n \<leftarrow> cadd (current_processes u) 1;
        us \<leftarrow> aset (users s) current_session (u\<lparr>current_processes := n\<rparr>);
        Some (True, s\<lparr>users := us\<rparr>)
      } else Some (False, s))
   }"

definition trySpawnProcess :: "int \<Rightarrow> world \<Rightarrow> bool outcome" where
  "trySpawnProcess current_session w =
     (if current_session = -1 \<or> \<not> attached w then Done False w
      else with_lock lockBelt unlockBelt (on_shm (trySpawnProcess_body current_session)) w)"

definition reportProcessFinished_body :: "int \<Rightarrow> SharedState \<Rightarrow> (unit \<times> SharedState) option" where
  "reportProcessFinished_body current_session s = do {
     u \<leftarrow> aget (users s) current_session;
     (if 0 < current_processes u then do {
        n \<leftarrow> csub (current_processes u) 1;
        us \<leftarrow> aset (users s) current_session (u\<lparr>current_processes := n\<rparr>);
        Some ((), s\<lparr>users := us\<rparr>)
      } else Some ((), s))
   }"

definition reportProcessFinished :: "int \<Rightarrow> world \<Rightarrow> unit outcome" where
  "reportProcessFinished current_session w =
     (if current_session = -1 \<or> \<not> attached w then Done () w
      else with_lock lockBelt unlockBelt (on_shm (reportProcessFinished_body current_session)) w)"

definition getCurrentRole :: "int \<Rightarrow> world \<Rightarrow> UserRole option" where
  "getCurrentRole current_session w =
     (if current_session = -1 \<or> \<not> attached w then Some UserRole_None
      else map_option role (aget (users (shm w)) current_session))"

text \<open>Finding the process of a session by its name (\<open>TerminalActions::findProcessByRole\<close>).\<close>

definition findProcessByRole :: "string \<Rightarrow> SharedState \<Rightarrow> pid_t" where
  "findProcessByRole name s =
     (case List.find (\<lambda>u. active u \<and> c_str (username u) = name) (users s) of
        None \<Rightarrow> -1 | Some u \<Rightarrow> session_pid u)"

section \<open>Facts about C strings\<close>

lemma NUL_notin_c_str [simp]: "NUL \<notin> set (c_str s)"
  by (auto simp: c_str_def dest: set_takeWhileD)

lemma c_str_id: "NUL \<notin> set s \<Longrightarrow> c_str s = s"
  by (auto simp: c_str_def takeWhile_eq_all_conv)

lemma c_str_c_str [simp]: "c_str (c_str s) = c_str s"
  by (simp add: c_str_id)

lemma strncmp_eq_iff:
  "NUL \<notin> set b \<Longrightarrow> strncmp_eq n a b \<longleftrightarrow> take n (c_str a) = take n b"
proof (induction n arbitrary: a b)
  case 0
  then show ?case by simp
next
  case (Suc n)
  then show ?case
    by (cases a; cases b) (auto simp: c_str_def Let_def)
qed

lemma length_strncpy: "n \<le> length dst \<Longrightarrow> length (strncpy dst src n) = length dst"
  by (simp add: strncpy_def)

lemma c_str_padded:
  "NUL \<notin> set xs \<Longrightarrow> c_str (xs @ NUL # ys) = xs"
  by (induction xs) (auto simp: c_str_def)

lemma c_str_strncpy_zero:
  assumes "n < m"
  shows "c_str (strncpy (replicate m NUL) src n) = take n (c_str src)"
proof -
  define xs where "xs = take n (c_str src)"
  have "NUL \<notin> set xs"
    by (metis NUL_notin_c_str in_set_takeD xs_def)
  moreover have "\<exists>ys. strncpy (replicate m NUL) src n = xs @ NUL # ys"
  proof -
    define k where "k = (n - length (c_str src)) + (m - n)"
    have "strncpy (replicate m NUL) src n = xs @ replicate k NUL"
      using assms by (simp add: strncpy_def xs_def k_def flip: replicate_add)
    moreover have "0 < k" using assms by (simp add: k_def)
    ultimately show ?thesis by (cases k) auto
  qed
  ultimately show ?thesis by (auto simp: xs_def c_str_padded)
qed

lemma first_index_spec:
  "first_index P xs i = -1 \<and> (\<forall>x \<in> set xs. \<not> P x)
   \<or> (\<exists>k < length xs. first_index P xs i = i + int k \<and> P (xs ! k) \<and> (\<forall>j < k. \<not> P (xs ! j)))"
  (is "?none xs i \<or> ?some xs i") if "0 \<le> i"
  using that
proof (induction xs arbitrary: i)
  case Nil
  then show ?case by simp
next
  case (Cons x xs)
  show ?case
  proof (cases "P x")
    case True
    then show ?thesis by (intro disjI2 exI [of _ 0]) simp
  next
    case False
    from Cons.IH [of "i + 1"] Cons.prems consider "?none xs (i + 1)" | "?some xs (i + 1)" by auto
    then show ?thesis
    proof cases
      case 1
      with False show ?thesis by simp
    next
      case 2
      then obtain k where k: "k < length xs" "first_index P xs (i + 1) = i + 1 + int k" "P (xs ! k)"
        "\<forall>j < k. \<not> P (xs ! j)" by blast
      have "\<forall>j < Suc k. \<not> P ((x # xs) ! j)" using k(4) False by (auto simp: nth_Cons split: nat.split)
      with k False show ?thesis by (intro disjI2 exI [of _ "Suc k"]) simp
    qed
  qed
qed

section \<open>Invariant\<close>

definition cname :: "UserSession \<Rightarrow> char list" where
  "cname u = c_str (username u)"

definition session_ok :: "UserSession \<Rightarrow> bool" where
  "session_ok u \<longleftrightarrow> length (username u) = 32 \<and> length (cname u) \<le> 31
     \<and> (active u \<longrightarrow> 0 \<le> current_processes u \<and> current_processes u \<le> max_processes u
                    \<and> max_processes u \<le> INT32_MAX)"

definition sessions_inv :: "SharedState \<Rightarrow> bool" where
  "sessions_inv s \<longleftrightarrow> length (users s) = nat MAX_USERS_SESSIONS
     \<and> (\<forall>u \<in> set (users s). session_ok u)
     \<and> (\<forall>i < length (users s). \<forall>j < length (users s).
          active (users s ! i) \<and> active (users s ! j) \<and> cname (users s ! i) = cname (users s ! j)
          \<longrightarrow> i = j)"

text \<open>The current session of a process: logged out, or the index of a session of the table.\<close>

definition session_index_ok :: "int \<Rightarrow> SharedState \<Rightarrow> bool" where
  "session_index_ok c s \<longleftrightarrow> c = -1 \<or> (0 \<le> c \<and> c < MAX_USERS_SESSIONS \<and> active (users s ! nat c))"

text \<open>\<open>session_of name s\<close>: the process id registered under a name.\<close>

definition session_of :: "char list \<Rightarrow> SharedState \<Rightarrow> pid_t option" where
  "session_of name s = map_option session_pid (List.find (\<lambda>u. active u \<and> cname u = name) (users s))"

lemma cname_zero [simp]: "cname zero_UserSession = []"
  by (simp add: cname_def c_str_def zero_UserSession_def)

lemma sessions_inv_init: "sessions_inv (init_shm s)" "sessions_inv zero_SharedState"
  by (simp_all add: sessions_inv_def init_shm_def zero_SharedState_def shared_consts session_ok_def)
    (simp_all add: zero_UserSession_def)

lemma session_ok_nth: "sessions_inv s \<Longrightarrow> i < length (users s) \<Longrightarrow> session_ok (users s ! i)"
  by (simp add: sessions_inv_def)

lemma find_active_unique:
  assumes "sessions_inv s" "i < length (users s)" "active (users s ! i)"
  shows "List.find (\<lambda>u. active u \<and> cname u = cname (users s ! i)) (users s) = Some (users s ! i)"
proof -
  have "\<forall>j < i. \<not> (active (users s ! j) \<and> cname (users s ! j) = cname (users s ! i))"
    using assms unfolding sessions_inv_def by (metis less_trans nat_neq_iff)
  with assms show ?thesis by (auto simp: find_Some_iff)
qed

lemma session_of_active:
  "sessions_inv s \<Longrightarrow> i < length (users s) \<Longrightarrow> active (users s ! i) \<Longrightarrow>
   session_of (cname (users s ! i)) s = Some (session_pid (users s ! i))"
  by (simp add: session_of_def find_active_unique)

lemma session_of_None_iff:
  "session_of name s = None \<longleftrightarrow> (\<forall>u \<in> set (users s). active u \<longrightarrow> cname u \<noteq> name)"
  by (auto simp: session_of_def find_None_iff)

lemma session_of_Some_iff:
  assumes "sessions_inv s"
  shows "session_of name s = Some p \<longleftrightarrow>
    (\<exists>i < length (users s). active (users s ! i) \<and> cname (users s ! i) = name
        \<and> session_pid (users s ! i) = p)"
proof
  assume "session_of name s = Some p"
  then show "\<exists>i < length (users s). active (users s ! i) \<and> cname (users s ! i) = name
        \<and> session_pid (users s ! i) = p"
    by (auto simp: session_of_def find_Some_iff)
next
  assume "\<exists>i < length (users s). active (users s ! i) \<and> cname (users s ! i) = name
        \<and> session_pid (users s ! i) = p"
  then show "session_of name s = Some p" using session_of_active [OF assms] by blast
qed

lemma findProcessByRole_alt:
  "findProcessByRole name s = (case session_of name s of None \<Rightarrow> -1 | Some p \<Rightarrow> p)"
  by (simp add: findProcessByRole_def session_of_def cname_def split: option.split)

text \<open>Changing one slot of the table.\<close>

lemma sessions_inv_update:
  assumes inv: "sessions_inv s" and i: "i < length (users s)" and ok: "session_ok u"
    and fresh: "active u \<Longrightarrow> (active (users s ! i) \<and> cname u = cname (users s ! i)) \<or>
         (\<forall>j < length (users s). active (users s ! j) \<longrightarrow> cname (users s ! j) \<noteq> cname u)"
  shows "sessions_inv (s\<lparr>users := (users s)[i := u]\<rparr>)"
proof -
  have "\<forall>v \<in> set ((users s)[i := u]). session_ok v"
    using inv ok set_update_subset_insert [of "users s" i u] by (auto simp: sessions_inv_def)
  moreover have "j = k"
    if "j < length (users s)" "k < length (users s)" "active ((users s)[i := u] ! j)"
      "active ((users s)[i := u] ! k)" "cname ((users s)[i := u] ! j) = cname ((users s)[i := u] ! k)"
    for j k
    using that inv i fresh by (auto simp: sessions_inv_def nth_list_update split: if_splits)
  ultimately show ?thesis using inv by (auto simp: sessions_inv_def)
qed

section \<open>Login and logout\<close>

lemma login_duplicate_iff:
  assumes "sessions_inv s"
  shows "list_ex (\<lambda>u. active u \<and> strncmp_eq 31 (username u) (c_str name)) (users s)
     \<longleftrightarrow> session_of (take 31 (c_str name)) s \<noteq> None"
proof -
  have "strncmp_eq 31 (username u) (c_str name) \<longleftrightarrow> cname u = take 31 (c_str name)"
    if "u \<in> set (users s)" for u
    using that assms by (auto simp: strncmp_eq_iff sessions_inv_def session_ok_def cname_def)
  then show ?thesis by (auto simp: list_ex_iff session_of_None_iff)
qed

text \<open>The table after a successful login into slot \<open>k\<close>.\<close>

definition new_session :: "string \<Rightarrow> UserRole \<Rightarrow> OrgId \<Rightarrow> int \<Rightarrow> pid_t \<Rightarrow> UserSession" where
  "new_session name r org max_procs pid =
     zero_UserSession\<lparr>active := True, username := strncpy (username zero_UserSession) name 31,
        role := r, orgId := org, max_processes := max_procs, current_processes := 0,
        session_pid := pid\<rparr>"

lemma cname_new_session [simp]: "cname (new_session name r org mp pid) = take 31 (c_str name)"
  using c_str_strncpy_zero [of 31 32 name]
  by (simp add: cname_def new_session_def zero_UserSession_def)

lemma new_session_ok:
  "0 \<le> mp \<Longrightarrow> mp \<le> INT32_MAX \<Longrightarrow> session_ok (new_session name r org mp pid)"
  by (simp add: session_ok_def)
    (simp add: new_session_def zero_UserSession_def length_strncpy)

lemma login_body_cases:
  assumes inv: "sessions_inv s"
  shows "login_body name r org mp pid c s =
     (if session_of (take 31 (c_str name)) s \<noteq> None \<or> (\<forall>u \<in> set (users s). active u)
      then Some ((False, c), s)
      else let k = first_index (\<lambda>u. \<not> active u) (users s) 0
           in Some ((True, k), s\<lparr>users := (users s)[nat k := new_session name r org mp pid]\<rparr>))"
proof (cases "session_of (take 31 (c_str name)) s = None \<and> \<not> (\<forall>u \<in> set (users s). active u)")
  case True
  define k where "k = first_index (\<lambda>u. \<not> active u) (users s) 0"
  have "\<exists>j < length (users s). k = int j"
    using first_index_spec [of 0 "\<lambda>u. \<not> active u" "users s"] True by (auto simp: k_def)
  then show ?thesis
    using True login_duplicate_iff [OF inv, of name]
    by (auto simp: login_body_def aset_def new_session_def k_def [symmetric])
next
  case False
  then show ?thesis
    using first_index_spec [of 0 "\<lambda>u. \<not> active u" "users s"] login_duplicate_iff [OF inv, of name]
    by (auto simp: login_body_def dest: nth_mem)
qed

lemma login_body_success:
  assumes inv: "sessions_inv s" and fresh: "session_of (take 31 (c_str name)) s = None"
    and free: "\<exists>u \<in> set (users s). \<not> active u" and mp: "0 \<le> mp" "mp \<le> INT32_MAX"
  shows "\<exists>k s'. login_body name r org mp pid c s = Some ((True, k), s') \<and> sessions_inv s'
     \<and> session_index_ok k s' \<and> k \<noteq> -1 \<and> \<not> active (users s ! nat k)
     \<and> users s' = (users s)[nat k := new_session name r org mp pid]
     \<and> s' = s\<lparr>users := users s'\<rparr>
     \<and> session_of (take 31 (c_str name)) s' = Some pid
     \<and> (\<forall>n. n \<noteq> take 31 (c_str name) \<longrightarrow> session_of n s' = session_of n s)
     \<and> (\<forall>j < nat k. active (users s ! j))"
proof -
  define u where "u = new_session name r org mp pid"
  obtain j where j: "j < length (users s)" "first_index (\<lambda>u. \<not> active u) (users s) 0 = int j"
    "\<not> active (users s ! j)" "\<forall>i < j. active (users s ! i)"
    using first_index_spec [of 0 "\<lambda>u. \<not> active u" "users s"] free by auto
  define s' where "s' = s\<lparr>users := (users s)[j := u]\<rparr>"
  have len: "length (users s) = 210" using inv by (simp add: sessions_inv_def shared_consts)
  have a: "active u" "session_pid u = pid" by (simp_all add: u_def new_session_def)
  have nd: "\<forall>i < length (users s). active (users s ! i) \<longrightarrow> cname (users s ! i) \<noteq> cname u"
    using fresh by (simp add: session_of_None_iff u_def)
  have inv': "sessions_inv s'"
    unfolding s'_def using inv j(1) new_session_ok [OF mp] nd
    by (intro sessions_inv_update) (simp_all add: u_def)
  have "login_body name r org mp pid c s = Some ((True, int j), s')"
    using login_body_cases [OF inv, of name r org mp pid c] fresh free j
    by (auto simp: s'_def u_def)
  moreover have "session_of (take 31 (c_str name)) s' = Some pid"
    using session_of_active [OF inv', of j] j(1) a by (simp add: s'_def u_def)
  moreover have "session_of n s' = session_of n s" if n: "n \<noteq> take 31 (c_str name)" for n
  proof -
    have "session_of n s' = Some p \<longleftrightarrow> session_of n s = Some p" for p
      using n j(1,3) unfolding session_of_Some_iff [OF inv'] session_of_Some_iff [OF inv]
      by (auto simp: s'_def u_def nth_list_update)
    then show ?thesis by (metis not_Some_eq)
  qed
  ultimately show ?thesis
    using inv' j len a by (auto simp: session_index_ok_def s'_def u_def shared_consts intro!: exI [of _ "int j"])
qed

lemma logout_body_spec:
  assumes inv: "sessions_inv s" and c: "session_index_ok c s" "c \<noteq> -1"
  shows "\<exists>s'. logout_body c s = Some (-1, s') \<and> sessions_inv s' \<and> s' = s\<lparr>users := users s'\<rparr>
     \<and> \<not> active (users s' ! nat c) \<and> role (users s' ! nat c) = UserRole_None
     \<and> session_of (cname (users s ! nat c)) s' = None
     \<and> (\<forall>n. n \<noteq> cname (users s ! nat c) \<longrightarrow> session_of n s' = session_of n s)"
proof -
  define j where "j = nat c"
  have len: "length (users s) = 210" using inv by (simp add: sessions_inv_def shared_consts)
  have j: "j < length (users s)" "c = int j" "active (users s ! j)"
    using c len by (auto simp: session_index_ok_def j_def shared_consts)
  define u where "u = (users s ! j)\<lparr>active := False, role := UserRole_None, orgId := 0,
     current_processes := 0\<rparr>"
  define s' where "s' = s\<lparr>users := (users s)[j := u]\<rparr>"
  have uo: "session_ok u" "\<not> active u" "cname u = cname (users s ! j)"
    using session_ok_nth [OF inv j(1)] by (auto simp: u_def session_ok_def cname_def)
  have inv': "sessions_inv s'"
    unfolding s'_def using inv j(1) uo by (intro sessions_inv_update) auto
  have only: "\<forall>i < length (users s). active (users s ! i) \<and> cname (users s ! i) = cname (users s ! j) \<longrightarrow> i = j"
    using inv j by (auto simp: sessions_inv_def)
  have "session_of (cname (users s ! j)) s' = None"
    using only j uo
    by (auto simp: session_of_None_iff s'_def in_set_conv_nth nth_list_update split: if_splits)
  moreover have "session_of n s' = session_of n s" if n: "n \<noteq> cname (users s ! j)" for n
  proof -
    have "session_of n s' = Some p \<longleftrightarrow> session_of n s = Some p" for p
      using n uo j unfolding session_of_Some_iff [OF inv'] session_of_Some_iff [OF inv]
      by (auto simp: s'_def nth_list_update)
    then show ?thesis by (metis not_Some_eq)
  qed
  moreover have "logout_body c s = Some (-1, s')"
    using j by (simp add: logout_body_def aget_def aset_def s'_def u_def)
  ultimately show ?thesis
    using inv' j uo by (auto simp: s'_def j_def [symmetric] u_def)
qed

section \<open>Quotas\<close>

text \<open>The slot of the current session, and the state with another process count in it.\<close>

definition slot_of :: "int \<Rightarrow> SharedState \<Rightarrow> UserSession" where
  "slot_of c s = users s ! nat c"

definition set_processes :: "int \<Rightarrow> int \<Rightarrow> SharedState \<Rightarrow> SharedState" where
  "set_processes c n s = s\<lparr>users := (users s)[nat c := (slot_of c s)\<lparr>current_processes := n\<rparr>]\<rparr>"

lemma session_index_range:
  assumes "sessions_inv s" "session_index_ok c s" "c \<noteq> -1"
  shows "0 \<le> c" "c < int (length (users s))" "nat c < length (users s)" "active (slot_of c s)"
    "session_ok (slot_of c s)"
proof -
  show c: "0 \<le> c" "c < int (length (users s))" "active (slot_of c s)"
    using assms by (auto simp: session_index_ok_def sessions_inv_def shared_consts slot_of_def)
  then show "nat c < length (users s)" by simp
  then show "session_ok (slot_of c s)" using session_ok_nth assms(1) by (simp add: slot_of_def)
qed

lemma sessions_inv_set_processes:
  assumes "sessions_inv s" "session_index_ok c s" "c \<noteq> -1"
    and "0 \<le> n" "n \<le> max_processes (slot_of c s)"
  shows "sessions_inv (set_processes c n s)"
proof -
  note r = session_index_range [OF assms(1-3)]
  show ?thesis
    unfolding set_processes_def using assms r
    by (intro sessions_inv_update) (auto simp: session_ok_def cname_def slot_of_def)
qed

lemma session_of_set_processes:
  assumes "sessions_inv s" "session_index_ok c s" "c \<noteq> -1"
    and "0 \<le> n" "n \<le> max_processes (slot_of c s)"
  shows "session_of name (set_processes c n s) = session_of name s"
proof -
  note r = session_index_range [OF assms(1-3)]
  have "session_of name (set_processes c n s) = Some p \<longleftrightarrow> session_of name s = Some p" for p
    using r unfolding session_of_Some_iff [OF sessions_inv_set_processes [OF assms]]
      session_of_Some_iff [OF assms(1)]
    by (auto simp: set_processes_def nth_list_update cname_def slot_of_def)
  then show ?thesis by (metis not_Some_eq)
qed

lemma trySpawnProcess_body_spec:
  assumes "sessions_inv s" "session_index_ok c s" "c \<noteq> -1"
  shows "trySpawnProcess_body c s =
     (if current_processes (slot_of c s) < max_processes (slot_of c s)
      then Some (True, set_processes c (current_processes (slot_of c s) + 1) s)
      else Some (False, s))"
  using session_index_range [OF assms]
  by (auto simp: trySpawnProcess_body_def aget_def aset_def cadd_def in_int32_def INT32_MIN_def
      session_ok_def set_processes_def slot_of_def)

lemma reportProcessFinished_body_spec:
  assumes "sessions_inv s" "session_index_ok c s" "c \<noteq> -1"
  shows "reportProcessFinished_body c s =
     Some ((), if 0 < current_processes (slot_of c s)
               then set_processes c (current_processes (slot_of c s) - 1) s else s)"
  using session_index_range [OF assms]
  by (auto simp: reportProcessFinished_body_def aget_def aset_def csub_def in_int32_def INT32_MIN_def
      session_ok_def set_processes_def slot_of_def)

section \<open>The interface of the session registry\<close>

text \<open>
  What the other components rely on: a name is registered at most once, a registered name leads to
  the process that registered it until it logs out, and no operation disturbs other names.
\<close>

locale registry =
  fixes ins :: "string \<Rightarrow> pid_t \<Rightarrow> 's \<Rightarrow> ((bool \<times> int) \<times> 's) option"
    and del :: "int \<Rightarrow> 's \<Rightarrow> (int \<times> 's) option"
    and look :: "char list \<Rightarrow> 's \<Rightarrow> pid_t option"
    and key :: "string \<Rightarrow> char list"
    and owns :: "int \<Rightarrow> char list \<Rightarrow> 's \<Rightarrow> bool"
    and inv :: "'s \<Rightarrow> bool" and has_room :: "'s \<Rightarrow> bool"
  assumes ins_ok: "inv s \<Longrightarrow> look (key n) s = None \<Longrightarrow> has_room s \<Longrightarrow>
      \<exists>h s'. ins n p s = Some ((True, h), s') \<and> inv s' \<and> owns h (key n) s'
           \<and> look (key n) s' = Some p \<and> (\<forall>m. m \<noteq> key n \<longrightarrow> look m s' = look m s)"
    and ins_refused: "inv s \<Longrightarrow> look (key n) s \<noteq> None \<or> \<not> has_room s \<Longrightarrow>
      \<exists>h. ins n p s = Some ((False, h), s)"
    and del_ok: "inv s \<Longrightarrow> owns h m s \<Longrightarrow>
      \<exists>x s'. del h s = Some (x, s') \<and> inv s' \<and> look m s' = None
           \<and> (\<forall>m'. m' \<noteq> m \<longrightarrow> look m' s' = look m' s)"
begin

lemma ins_twice_refused:
  assumes "inv s" "look (key n) s = None" "has_room s"
  shows "\<exists>h s' h'. ins n p s = Some ((True, h), s') \<and> ins n q s' = Some ((False, h'), s')"
proof -
  obtain h s' where "ins n p s = Some ((True, h), s')" "inv s'" "look (key n) s' = Some p"
    using ins_ok [OF assms] by blast
  then show ?thesis using ins_refused [of s' n q] by auto
qed

lemma ins_del_restores:
  assumes "inv s" "look (key n) s = None" "has_room s"
  shows "\<exists>h s' x s''. ins n p s = Some ((True, h), s') \<and> del h s' = Some (x, s'') \<and> inv s''
     \<and> (\<forall>m. look m s'' = look m s)"
proof -
  obtain h s' where i: "ins n p s = Some ((True, h), s')" "inv s'" "owns h (key n) s'"
    "\<forall>m. m \<noteq> key n \<longrightarrow> look m s' = look m s"
    using ins_ok [OF assms] by blast
  then obtain x s'' where "del h s' = Some (x, s'')" "inv s''" "look (key n) s'' = None"
    "\<forall>m'. m' \<noteq> key n \<longrightarrow> look m' s'' = look m' s'"
    using del_ok by blast
  with i assms(2) show ?thesis by metis
qed

end

definition owns_session :: "int \<Rightarrow> char list \<Rightarrow> SharedState \<Rightarrow> bool" where
  "owns_session c n s \<longleftrightarrow> session_index_ok c s \<and> c \<noteq> -1 \<and> cname (slot_of c s) = n"

definition has_free_slot :: "SharedState \<Rightarrow> bool" where
  "has_free_slot s \<longleftrightarrow> (\<exists>u \<in> set (users s). \<not> active u)"

text \<open>A login with the role of a worker process, an organisation and a quota that fit.\<close>

interpretation session_registry: registry "\<lambda>n p s. login_body n Operator 0 1 p (-1) s" logout_body
  session_of "\<lambda>n. take 31 (c_str n)" owns_session sessions_inv has_free_slot
proof unfold_locales
  fix s n p
  show "\<exists>h s'. login_body n Operator 0 1 p (-1) s = Some ((True, h), s') \<and> sessions_inv s'
      \<and> owns_session h (take 31 (c_str n)) s' \<and> session_of (take 31 (c_str n)) s' = Some p
      \<and> (\<forall>m. m \<noteq> take 31 (c_str n) \<longrightarrow> session_of m s' = session_of m s)"
    if h: "sessions_inv s" "session_of (take 31 (c_str n)) s = None" "has_free_slot s"
  proof -
    obtain k s' where k: "login_body n Operator 0 1 p (-1) s = Some ((True, k), s')" "sessions_inv s'"
      "session_index_ok k s'" "k \<noteq> -1" "users s' = (users s)[nat k := new_session n Operator 0 1 p]"
      "session_of (take 31 (c_str n)) s' = Some p"
      "\<forall>m. m \<noteq> take 31 (c_str n) \<longrightarrow> session_of m s' = session_of m s"
      using login_body_success [OF h(1,2), of 1 Operator 0 p "-1"] h(3)
      by (auto simp: has_free_slot_def INT32_MAX_def)
    moreover have "owns_session k (take 31 (c_str n)) s'"
      using k(3-5) session_index_range(3) [OF k(2-4)] by (simp add: owns_session_def slot_of_def)
    ultimately show ?thesis by blast
  qed
  show "\<exists>h. login_body n Operator 0 1 p (-1) s = Some ((False, h), s)"
    if "sessions_inv s" "session_of (take 31 (c_str n)) s \<noteq> None \<or> \<not> has_free_slot s"
    using that by (auto simp: login_body_cases has_free_slot_def)
next
  fix s h m
  show "\<exists>x s'. logout_body h s = Some (x, s') \<and> sessions_inv s' \<and> session_of m s' = None
      \<and> (\<forall>m'. m' \<noteq> m \<longrightarrow> session_of m' s' = session_of m' s)"
    if "sessions_inv s" "owns_session h m s"
    using logout_body_spec [OF that(1), of h] that(2) by (auto simp: owns_session_def slot_of_def)
qed

section \<open>Sequences of quota operations\<close>

datatype quota_op = Spawn | Finish

fun quota_run :: "int \<Rightarrow> quota_op list \<Rightarrow> SharedState \<Rightarrow> (bool list \<times> SharedState) option" where
  "quota_run c [] s = Some ([], s)"
| "quota_run c (Spawn # ops) s = do {
     (b, s1) \<leftarrow> trySpawnProcess_body c s;
     (bs, s2) \<leftarrow> quota_run c ops s1;
     Some (b # bs, s2)
   }"
| "quota_run c (Finish # ops) s = do {
     (x, s1) \<leftarrow> reportProcessFinished_body c s;
     quota_run c ops s1
   }"

text \<open>The abstract quota: a counter between zero and a maximum.\<close>

fun counter_run :: "int \<Rightarrow> quota_op list \<Rightarrow> int \<Rightarrow> bool list \<times> int" where
  "counter_run mx [] n = ([], n)"
| "counter_run mx (Spawn # ops) n =
     (let (bs, n') = counter_run mx ops (if n < mx then n + 1 else n) in ((n < mx) # bs, n'))"
| "counter_run mx (Finish # ops) n = counter_run mx ops (if 0 < n then n - 1 else n)"

lemma counter_run_bounds:
  "0 \<le> n \<Longrightarrow> n \<le> mx \<Longrightarrow> 0 \<le> snd (counter_run mx ops n) \<and> snd (counter_run mx ops n) \<le> mx"
  by (induction mx ops n rule: counter_run.induct) (auto simp: Let_def split: prod.splits)

lemma slot_of_set_processes:
  assumes "sessions_inv s" "session_index_ok c s" "c \<noteq> -1"
  shows "slot_of c (set_processes c n s) = (slot_of c s)\<lparr>current_processes := n\<rparr>"
    "session_index_ok c (set_processes c n s)" "set_processes c m (set_processes c n s) = set_processes c m s"
  using session_index_range [OF assms] assms(2)
  by (auto simp: set_processes_def slot_of_def session_index_ok_def)

lemma set_processes_same:
  assumes "sessions_inv s" "session_index_ok c s" "c \<noteq> -1"
  shows "set_processes c (current_processes (slot_of c s)) s = s"
  using session_index_range [OF assms] by (simp add: set_processes_def slot_of_def)

text \<open>One step of either kind is a step of the abstract counter on this session's slot.\<close>

lemma quota_run_refines:
  assumes "sessions_inv s" "session_index_ok c s" "c \<noteq> -1"
  shows "quota_run c ops s =
     (let (bs, n) = counter_run (max_processes (slot_of c s)) ops (current_processes (slot_of c s))
      in Some (bs, set_processes c n s))"
  using assms
proof (induction ops arbitrary: s)
  case Nil
  then show ?case by (simp add: set_processes_same)
next
  case (Cons op ops)
  note so = session_index_range [OF Cons.prems]
  define n where "n = (case op of Spawn \<Rightarrow>
      if current_processes (slot_of c s) < max_processes (slot_of c s)
      then current_processes (slot_of c s) + 1 else current_processes (slot_of c s)
    | Finish \<Rightarrow> if 0 < current_processes (slot_of c s) then current_processes (slot_of c s) - 1
                else current_processes (slot_of c s))"
  have n: "0 \<le> n" "n \<le> max_processes (slot_of c s)"
    using so by (auto simp: n_def session_ok_def split: quota_op.split)
  note sp = slot_of_set_processes [OF Cons.prems, of n]
  have inv1: "sessions_inv (set_processes c n s)"
    using sessions_inv_set_processes Cons.prems n by blast
  from Cons.IH [OF inv1 sp(2) Cons.prems(3)] show ?case
    using trySpawnProcess_body_spec [OF Cons.prems] reportProcessFinished_body_spec [OF Cons.prems] sp
      set_processes_same [OF Cons.prems]
    by (cases op) (auto simp: n_def Let_def slot_of_set_processes [OF Cons.prems] split: prod.splits if_splits)
qed

section \<open>Properties\<close>

text \<open>
  C20: the whole \<open>login\<close>.  It succeeds exactly when no active session has the same first 31 bytes of
  the name and a slot is free; then it takes the first free slot, the entry holds exactly the given
  credentials with a zero process count, looking the name up finds the caller's pid, and no other name
  and no other part of the shared state is affected.  Otherwise it reports failure and changes nothing.
  The mutex is given back on every path.
\<close>

theorem login_handler:
  assumes "attached w" "kernel w = []" "0 < sems w SEM_MUTEX_BELT" "sessions_inv (shm w)"
    "0 \<le> mp" "mp \<le> INT32_MAX"
  shows "if session_of (take 31 (c_str name)) (shm w) = None \<and> has_free_slot (shm w)
    then \<exists>k s'. login name r org mp pid c w = Done (True, k) (w\<lparr>shm := s'\<rparr>) \<and> sessions_inv s'
      \<and> 0 \<le> k \<and> nat k < length (users (shm w)) \<and> \<not> active (users (shm w) ! nat k)
      \<and> (\<forall>j < nat k. active (users (shm w) ! j))
      \<and> s' = (shm w)\<lparr>users := (users (shm w))[nat k := zero_UserSession\<lparr>active := True,
           username := strncpy (username zero_UserSession) name 31, role := r, orgId := org, max_processes := mp,
           current_processes := 0, session_pid := pid\<rparr>]\<rparr>
      \<and> session_of (take 31 (c_str name)) s' = Some pid
      \<and> (\<forall>n. n \<noteq> take 31 (c_str name) \<longrightarrow> session_of n s' = session_of n (shm w))
    else login name r org mp pid c w = Done (False, c) w"
proof (cases "session_of (take 31 (c_str name)) (shm w) = None \<and> has_free_slot (shm w)")
  case True
  then obtain k s' where k: "login_body name r org mp pid c (shm w) = Some ((True, k), s')" "sessions_inv s'"
    "session_index_ok k s'" "k \<noteq> -1" "users s' = (users (shm w))[nat k := new_session name r org mp pid]"
    "\<not> active (users (shm w) ! nat k)" "session_of (take 31 (c_str name)) s' = Some pid"
    "\<forall>n. n \<noteq> take 31 (c_str name) \<longrightarrow> session_of n s' = session_of n (shm w)"
    "\<forall>j < nat k. active (users (shm w) ! j)" "s' = (shm w)\<lparr>users := users s'\<rparr>"
    using login_body_success [OF assms(4) _ _ assms(5,6), of name r org pid c]
    by (auto simp: has_free_slot_def)
  have "0 \<le> k" "nat k < length (users (shm w))" using session_index_range [OF k(2-4)] k(5) by simp_all
  moreover have "s' = (shm w)\<lparr>users := (users (shm w))[nat k := zero_UserSession\<lparr>active := True,
      username := strncpy (username zero_UserSession) name 31, role := r, orgId := org, max_processes := mp,
      current_processes := 0, session_pid := pid\<rparr>]\<rparr>"
    using k(10) unfolding k(5) by (simp add: new_session_def)
  ultimately show ?thesis using k(1,2,6-9) True assms(1-3)
    by (simp only: simp_thms if_True) (intro exI [of _ k] exI [of _ s'] conjI; simp add: login_def belt_mutex.bracket_shm)
next
  case False
  then have "login_body name r org mp pid c (shm w) = Some ((False, c), shm w)"
    using login_body_cases [OF assms(4), of name r org mp pid c] by (auto simp: has_free_slot_def)
  with False assms(1-3) show ?thesis by (simp add: login_def belt_mutex.bracket_shm)
qed

lemma boot_sessions:
  "sessions_inv (shm boot_world)" "has_free_slot (shm boot_world)" "session_of n (shm boot_world) = None"
  "0 < sems boot_world SEM_MUTEX_BELT"
proof -
  have u: "users (shm boot_world) = replicate 210 zero_UserSession"
    by (simp add: init_shm_def zero_SharedState_def shared_consts)
  show "sessions_inv (shm boot_world)" using sessions_inv_init by simp
  show "has_free_slot (shm boot_world)" unfolding has_free_slot_def u by (simp add: zero_UserSession_def)
  show "session_of n (shm boot_world) = None"
    unfolding session_of_None_iff u by (simp add: zero_UserSession_def)
  show "0 < sems boot_world SEM_MUTEX_BELT" by (simp add: init_sems_def)
qed

theorem login_handler_witness:
  "sessions_inv (shm boot_world) \<and> (\<exists>s'. login ''AdminConsole'' SysAdmin 1 1 42 (-1) boot_world =
       Done (True, 0) (boot_world\<lparr>shm := s'\<rparr>) \<and> session_of (take 31 (c_str ''AdminConsole'')) s' = Some 42)"
proof -
  obtain k s' where k: "login ''AdminConsole'' SysAdmin 1 1 42 (-1) boot_world = Done (True, k) (boot_world\<lparr>shm := s'\<rparr>)"
    "0 \<le> k" "nat k < length (users (shm boot_world))" "\<forall>j < nat k. active (users (shm boot_world) ! j)"
    "session_of (take 31 (c_str ''AdminConsole'')) s' = Some 42"
    using login_handler [of boot_world 1 "''AdminConsole''" SysAdmin 1 42 "-1"] boot_sessions
    by (auto simp: INT32_MAX_def)
  have "\<not> active (users (shm boot_world) ! 0)"
    by (simp add: init_shm_def zero_SharedState_def zero_UserSession_def shared_consts)
  then have "k = 0" using k(2,4) by (cases "nat k") auto
  then show ?thesis using k(1,5) boot_sessions(1) by blast
qed

text \<open>
  C30: a login followed by a logout of the same process leaves every name lookup as it was, resets
  the current session to -1 and withdraws the role.
\<close>

theorem login_logout_roundtrip:
  assumes "attached w" "kernel w = []" "0 < sems w SEM_MUTEX_BELT" "sessions_inv (shm w)"
    "0 \<le> mp" "mp \<le> INT32_MAX" "login name r org mp pid c w = Done (True, k) w1"
  shows "\<exists>w2. logout k w1 = Done (-1) w2 \<and> sessions_inv (shm w2) \<and> sems w2 = sems w \<and> msgq w2 = msgq w
     \<and> (\<forall>n. session_of n (shm w2) = session_of n (shm w))
     \<and> getCurrentRole k w1 = Some r \<and> getCurrentRole (-1) w2 = Some UserRole_None
     \<and> role (users (shm w2) ! nat k) = UserRole_None"
proof -
  define key where "key = take 31 (c_str name)"
  have c: "session_of key (shm w) = None" "\<exists>u \<in> set (users (shm w)). \<not> active u"
    using assms login_body_cases [OF assms(4), of name r org mp pid c]
    by (auto simp: login_def belt_mutex.bracket_shm key_def split: if_splits)
  then obtain k' s' where k': "login_body name r org mp pid c (shm w) = Some ((True, k'), s')"
    "sessions_inv s'" "session_index_ok k' s'" "k' \<noteq> -1"
    "users s' = (users (shm w))[nat k' := new_session name r org mp pid]"
    "session_of key s' = Some pid" "\<forall>n. n \<noteq> key \<longrightarrow> session_of n s' = session_of n (shm w)"
    using login_body_success [OF assms(4) _ _ assms(5,6), of name r org pid c] by (auto simp: key_def)
  have w1: "k = k'" "w1 = w\<lparr>shm := s'\<rparr>"
    using assms k'(1) by (auto simp: login_def belt_mutex.bracket_shm)
  note rg = session_index_range [OF k'(2-4)]
  have slot: "users s' ! nat k = new_session name r org mp pid"
    using rg(3) k'(5) by (simp add: w1(1))
  obtain s2 where s2: "logout_body k s' = Some (-1, s2)" "sessions_inv s2"
    "role (users s2 ! nat k) = UserRole_None" "session_of key s2 = None"
    "\<forall>n. n \<noteq> key \<longrightarrow> session_of n s2 = session_of n s'"
    using logout_body_spec [OF k'(2-4)] slot by (auto simp: w1(1) key_def)
  have "logout k w1 = Done (-1) (w\<lparr>shm := s2\<rparr>)"
    using assms(1-3) s2(1) k'(4) by (simp add: logout_def w1 belt_mutex.bracket_shm)
  moreover have "session_of n s2 = session_of n (shm w)" for n
    using s2(4,5) k'(7) c(1) by (cases "n = key") auto
  moreover have "getCurrentRole k w1 = Some r"
    using rg k'(4) slot assms(1) by (simp add: getCurrentRole_def w1 aget_def new_session_def)
  ultimately show ?thesis using s2 by (simp add: getCurrentRole_def)
qed

theorem login_logout_roundtrip_witness:
  "\<exists>k w1 w2. login ''Truck_1'' Operator 0 1 7 (-1) boot_world = Done (True, k) w1
     \<and> logout k w1 = Done (-1) w2 \<and> (\<forall>n. session_of n (shm w2) = session_of n (shm boot_world))"
proof -
  obtain k w1 where l: "login ''Truck_1'' Operator 0 1 7 (-1) boot_world = Done (True, k) w1"
    using login_body_success [OF boot_sessions(1,3), of 1 "''Truck_1''" Operator 0 7 "-1"] boot_sessions
    by (auto simp: has_free_slot_def INT32_MAX_def login_def belt_mutex.bracket_shm)
  then show ?thesis
    using login_logout_roundtrip [OF _ _ boot_sessions(4,1) _ _ l] by (auto simp: INT32_MAX_def)
qed

text \<open>
  C31: process quotas.  Any sequence of spawn attempts and finish reports of a session refines a counter
  that stays between zero and the session's maximum: a spawn succeeds exactly below the maximum, a
  finish report never goes below zero, and no other session's entry changes.
\<close>

theorem quota_refines_counter:
  assumes "sessions_inv s" "session_index_ok c s" "c \<noteq> -1"
  shows "\<exists>s'. quota_run c ops s =
       Some (fst (counter_run (max_processes (slot_of c s)) ops (current_processes (slot_of c s))), s')
     \<and> current_processes (slot_of c s')
         = snd (counter_run (max_processes (slot_of c s)) ops (current_processes (slot_of c s)))
     \<and> 0 \<le> current_processes (slot_of c s') \<and> current_processes (slot_of c s') \<le> max_processes (slot_of c s)
     \<and> (\<forall>j. j \<noteq> nat c \<longrightarrow> users s' ! j = users s ! j) \<and> sessions_inv s'"
proof -
  obtain bs n where cr: "counter_run (max_processes (slot_of c s)) ops (current_processes (slot_of c s)) = (bs, n)"
    by (cases "counter_run (max_processes (slot_of c s)) ops (current_processes (slot_of c s))")
  have n: "0 \<le> n" "n \<le> max_processes (slot_of c s)"
    using counter_run_bounds [of "current_processes (slot_of c s)" "max_processes (slot_of c s)" ops] cr
      session_index_range [OF assms] by (auto simp: session_ok_def)
  then show ?thesis
    using quota_run_refines [OF assms, of ops] slot_of_set_processes(1) [OF assms, of n]
      sessions_inv_set_processes [OF assms n]
    by (auto simp: cr set_processes_def)
qed

definition sample_table :: SharedState where
  "sample_table = zero_SharedState\<lparr>users := (users zero_SharedState)[0 := new_session ''W'' Operator 0 2 9]\<rparr>"

lemma sample_table_ok: "sessions_inv sample_table" "session_index_ok 0 sample_table"
  "slot_of 0 sample_table = new_session ''W'' Operator 0 2 9"
proof -
  have len: "0 < length (users zero_SharedState)" by (simp add: zero_SharedState_def shared_consts)
  have no: "\<not> active (users zero_SharedState ! j)" if "j < length (users zero_SharedState)" for j
    using that by (simp add: zero_SharedState_def zero_UserSession_def)
  show "sessions_inv sample_table" unfolding sample_table_def
    using sessions_inv_init(2) len no new_session_ok [of 2]
    by (intro sessions_inv_update) (auto simp: INT32_MAX_def)
  show "slot_of 0 sample_table = new_session ''W'' Operator 0 2 9"
    using len by (simp add: slot_of_def sample_table_def)
  then show "session_index_ok 0 sample_table"
    by (simp add: session_index_ok_def slot_of_def shared_consts) (simp add: new_session_def)
qed

theorem quota_refines_counter_witness:
  "\<exists>s'. quota_run 0 [Spawn, Spawn, Spawn, Finish, Spawn] sample_table = Some ([True, True, False, True], s')
     \<and> current_processes (slot_of 0 s') = 2"
  using quota_refines_counter [OF sample_table_ok(1,2), of "[Spawn, Spawn, Spawn, Finish, Spawn]"]
  by (simp add: sample_table_ok(3)) (auto simp: new_session_def)

end
