(* ===== verification/Belt_Concurrency.thy ===== *)
theory Belt_Concurrency
  imports Belt Sessions
begin

text \<open>
  The belt under concurrency.

  Any number of processes call the belt methods at the same time.  A process is at a control point of
  the method it is in; a step of the system is one semaphore operation or one critical section of one
  process, in any order, or anything that the rest of the system does outside the belt.  The sections are the functions of the sequential theories.  The sections of
  the session manager run under the same mutex and change the session table only; they are covered by
  \<open>SessionCall\<close>.

  Two ghost lists record the packages in the order in which they were accepted and taken.
\<close>

section \<open>Calls and control points\<close>

datatype belt_call =
    PushCall Package
  | PopCall
  | RegisterCall
  | UnregisterCall
  | SessionCall "UserSession list \<Rightarrow> UserSession list"

datatype pc =
    Idle
  | WaitSem belt_call
  | WaitLock belt_call
  | Inside belt_call
  | Unlocking "SemIndex option"
  | Posting SemIndex

text \<open>The semaphore a method waits for first, and the one it posts last.\<close>

fun wait_sem :: "belt_call \<Rightarrow> SemIndex option" where
  "wait_sem (PushCall p) = Some SEM_EMPTY_SLOTS"
| "wait_sem PopCall = Some SEM_FULL_SLOTS"
| "wait_sem _ = None"

fun post_sem :: "belt_call \<Rightarrow> bool \<Rightarrow> SemIndex option" where
  "post_sem (PushCall p) ok = Some (if ok then SEM_FULL_SLOTS else SEM_EMPTY_SLOTS)"
| "post_sem PopCall ok = Some (if ok then SEM_EMPTY_SLOTS else SEM_FULL_SLOTS)"
| "post_sem _ ok = None"

text \<open>The critical section: whether it took its normal branch, and the package it dealt with.\<close>

fun run_body :: "belt_call \<Rightarrow> SharedState \<Rightarrow> ((bool \<times> Package) \<times> SharedState) option" where
  "run_body (PushCall p) s = push_body p s"
| "run_body PopCall s = pop_body s"
| "run_body RegisterCall s = map_option (\<lambda>(b, s'). ((b, zero_Package), s')) (registerWorker_body s)"
| "run_body UnregisterCall s = map_option (\<lambda>(_, s'). ((True, zero_Package), s')) (unregisterWorker_body s)"
| "run_body (SessionCall g) s = Some ((True, zero_Package), s\<lparr>users := g (users s)\<rparr>)"

record conc =
  procs :: "pc list"
  cw :: world
  accepted :: "Package list"
  taken :: "Package list"

definition log_accepted :: "belt_call \<Rightarrow> bool \<Rightarrow> Package \<Rightarrow> Package list" where
  "log_accepted c ok p = (case c of PushCall _ \<Rightarrow> if ok then [p] else [] | _ \<Rightarrow> [])"

definition log_taken :: "belt_call \<Rightarrow> bool \<Rightarrow> Package \<Rightarrow> Package list" where
  "log_taken c ok p = (case c of PopCall \<Rightarrow> if ok then [p] else [] | _ \<Rightarrow> [])"

text \<open>What the processes at the dock and the console leave alone: all that the belt mutex protects.\<close>

definition same_belt_fields :: "SharedState \<Rightarrow> SharedState \<Rightarrow> bool" where
  "same_belt_fields s s' \<longleftrightarrow> belt s' = belt s \<and> head s' = head s \<and> tail s' = tail s
     \<and> current_items_count s' = current_items_count s \<and> current_belt_weight s' = current_belt_weight s
     \<and> total_packages_created s' = total_packages_created s
     \<and> current_workers_count s' = current_workers_count s \<and> users s' = users s"

definition same_belt :: "world \<Rightarrow> world \<Rightarrow> bool" where
  "same_belt w w' \<longleftrightarrow> same_belt_fields (shm w) (shm w')
     \<and> (\<forall>k. k \<noteq> SEM_DOCK_MUTEX \<longrightarrow> sems w' k = sems w k) \<and> 0 \<le> sems w' SEM_DOCK_MUTEX
     \<and> attached w' = attached w \<and> kernel w' = kernel w"

inductive conc_step :: "conc \<Rightarrow> conc \<Rightarrow> bool" where
  call: "i < length (procs st) \<Longrightarrow> procs st ! i = Idle \<Longrightarrow>
    conc_step st (st\<lparr>procs := (procs st)[i := (if wait_sem c = None then WaitLock c else WaitSem c)]\<rparr>)"
| wait: "i < length (procs st) \<Longrightarrow> procs st ! i = WaitSem c \<Longrightarrow> wait_sem c = Some k \<Longrightarrow>
    semOperation k (-1) (cw st) = Done () w' \<Longrightarrow>
    conc_step st (st\<lparr>procs := (procs st)[i := WaitLock c], cw := w'\<rparr>)"
| lock: "i < length (procs st) \<Longrightarrow> procs st ! i = WaitLock c \<Longrightarrow> lockBelt (cw st) = Done () w' \<Longrightarrow>
    conc_step st (st\<lparr>procs := (procs st)[i := Inside c], cw := w'\<rparr>)"
| body: "i < length (procs st) \<Longrightarrow> procs st ! i = Inside c \<Longrightarrow>
    run_body c (shm (cw st)) = Some ((ok, p), s') \<Longrightarrow>
    conc_step st (st\<lparr>procs := (procs st)[i := Unlocking (post_sem c ok)], cw := (cw st)\<lparr>shm := s'\<rparr>,
      accepted := accepted st @ log_accepted c ok p, taken := taken st @ log_taken c ok p\<rparr>)"
| unlock: "i < length (procs st) \<Longrightarrow> procs st ! i = Unlocking k \<Longrightarrow> unlockBelt (cw st) = Done () w' \<Longrightarrow>
    conc_step st (st\<lparr>procs := (procs st)[i := (case k of None \<Rightarrow> Idle | Some j \<Rightarrow> Posting j)], cw := w'\<rparr>)"
| post: "i < length (procs st) \<Longrightarrow> procs st ! i = Posting k \<Longrightarrow> semOperation k 1 (cw st) = Done () w' \<Longrightarrow>
    conc_step st (st\<lparr>procs := (procs st)[i := Idle], cw := w'\<rparr>)"
| others: "same_belt (cw st) w' \<Longrightarrow> conc_step st (st\<lparr>cw := w'\<rparr>)"

definition conc_init :: "conc \<Rightarrow> bool" where
  "conc_init st \<longleftrightarrow> (\<forall>x \<in> set (procs st). x = Idle) \<and> cw st = boot_world
     \<and> accepted st = [] \<and> taken st = []"

abbreviation conc_reachable :: "conc \<Rightarrow> bool" where
  "conc_reachable \<equiv> reachable conc_init conc_step"

section \<open>The invariant\<close>

text \<open>Who holds the mutex, who has claimed a free slot, who has claimed a package.\<close>

fun holds :: "pc \<Rightarrow> int" where
  "holds (Inside c) = 1"
| "holds (Unlocking k) = 1"
| "holds _ = 0"

fun claims :: "SemIndex \<Rightarrow> pc \<Rightarrow> int" where
  "claims k (WaitLock c) = (if wait_sem c = Some k then 1 else 0)"
| "claims k (Inside c) = (if wait_sem c = Some k then 1 else 0)"
| "claims k (Unlocking j) = (if j = Some k then 1 else 0)"
| "claims k (Posting j) = (if j = k then 1 else 0)"
| "claims k _ = 0"

definition tally :: "(pc \<Rightarrow> int) \<Rightarrow> conc \<Rightarrow> int" where
  "tally f st = sum_list (map f (procs st))"

text \<open>Only methods that wait for a semaphore are at such a point, and only the two counting semaphores are posted.\<close>

fun pc_ok :: "pc \<Rightarrow> bool" where
  "pc_ok (WaitSem c) = (wait_sem c \<noteq> None)"
| "pc_ok (Unlocking (Some k)) = (k = SEM_EMPTY_SLOTS \<or> k = SEM_FULL_SLOTS)"
| "pc_ok (Posting k) = (k = SEM_EMPTY_SLOTS \<or> k = SEM_FULL_SLOTS)"
| "pc_ok _ = True"

definition sem_inv :: "conc \<Rightarrow> bool" where
  "sem_inv st \<longleftrightarrow> attached (cw st) \<and> kernel (cw st) = [] \<and> (\<forall>k. 0 \<le> sems (cw st) k)
     \<and> sems (cw st) SEM_MUTEX_BELT + tally holds st = 1
     \<and> sems (cw st) SEM_EMPTY_SLOTS + tally (claims SEM_EMPTY_SLOTS) st
         = MAX_BELT_CAPACITY_K - current_items_count (shm (cw st))
     \<and> sems (cw st) SEM_FULL_SLOTS + tally (claims SEM_FULL_SLOTS) st = current_items_count (shm (cw st))
     \<and> (\<forall>x \<in> set (procs st). pc_ok x)"

lemma sem_invD:
  assumes "sem_inv st"
  shows "attached (cw st)" "kernel (cw st) = []" "0 \<le> sems (cw st) k"
    "sems (cw st) SEM_MUTEX_BELT = 1 - tally holds st"
    "sems (cw st) SEM_EMPTY_SLOTS = MAX_BELT_CAPACITY_K - current_items_count (shm (cw st)) - tally (claims SEM_EMPTY_SLOTS) st"
    "sems (cw st) SEM_FULL_SLOTS = current_items_count (shm (cw st)) - tally (claims SEM_FULL_SLOTS) st"
    "\<And>i. i < length (procs st) \<Longrightarrow> pc_ok (procs st ! i)"
  using assms by (auto simp: sem_inv_def)

text \<open>
  The same with two amounts by which the counting semaphores may be too high; they stay zero unless a
  wait is interrupted.
\<close>

definition drift_inv :: "int \<Rightarrow> int \<Rightarrow> conc \<Rightarrow> bool" where
  "drift_inv e f st \<longleftrightarrow> attached (cw st) \<and> kernel (cw st) = [] \<and> (\<forall>k. 0 \<le> sems (cw st) k)
     \<and> sems (cw st) SEM_MUTEX_BELT + tally holds st = 1
     \<and> sems (cw st) SEM_EMPTY_SLOTS + tally (claims SEM_EMPTY_SLOTS) st
         = MAX_BELT_CAPACITY_K - current_items_count (shm (cw st)) + e
     \<and> sems (cw st) SEM_FULL_SLOTS + tally (claims SEM_FULL_SLOTS) st = current_items_count (shm (cw st)) + f
     \<and> (\<forall>x \<in> set (procs st). pc_ok x)"

lemma sem_inv_drift: "sem_inv st = drift_inv 0 0 st"
  by (simp add: sem_inv_def drift_inv_def)

lemma drift_invD:
  assumes "drift_inv e f st"
  shows "attached (cw st)" "kernel (cw st) = []" "0 \<le> sems (cw st) k"
    "sems (cw st) SEM_MUTEX_BELT = 1 - tally holds st"
    "sems (cw st) SEM_EMPTY_SLOTS = MAX_BELT_CAPACITY_K - current_items_count (shm (cw st)) + e - tally (claims SEM_EMPTY_SLOTS) st"
    "sems (cw st) SEM_FULL_SLOTS = current_items_count (shm (cw st)) + f - tally (claims SEM_FULL_SLOTS) st"
    "\<And>i. i < length (procs st) \<Longrightarrow> pc_ok (procs st ! i)"
  using assms by (auto simp: drift_inv_def)

definition numbered :: "Package list \<Rightarrow> bool" where
  "numbered ps \<longleftrightarrow> map pkg_id ps = map (\<lambda>k. int k + 1) [0..<length ps]"

lemma numbered_Nil [simp]: "numbered []"
  by (simp add: numbered_def)

lemma numbered_snoc: "numbered (ps @ qs) \<Longrightarrow> pkg_id p = int (length (ps @ qs)) + 1 \<Longrightarrow> numbered (ps @ qs @ [p])"
  by (simp add: numbered_def)

definition queue_inv :: "conc \<Rightarrow> bool" where
  "queue_inv st \<longleftrightarrow> belt_inv (shm (cw st))
     \<and> accepted st = taken st @ belt_contents (shm (cw st))
     \<and> total_packages_created (shm (cw st)) = int (length (accepted st))
     \<and> numbered (accepted st)"

lemma queue_belt: "queue_inv st \<Longrightarrow> belt_inv (shm (cw st))"
  by (simp add: queue_inv_def)

lemma claims_nonneg: "0 \<le> claims k x" "0 \<le> holds x"
  by (cases x; simp)+

lemma tally_update:
  "i < length (procs st) \<Longrightarrow> tally f (st\<lparr>procs := (procs st)[i := x], cw := w\<rparr>) = tally f st - f (procs st ! i) + f x"
  "i < length (procs st) \<Longrightarrow> tally f (st\<lparr>procs := (procs st)[i := x]\<rparr>) = tally f st - f (procs st ! i) + f x"
  "i < length (procs st) \<Longrightarrow> tally f (st\<lparr>procs := (procs st)[i := x], cw := w, accepted := a, taken := b\<rparr>)
     = tally f st - f (procs st ! i) + f x"
  by (simp_all add: tally_def sum_list_map_update)

text \<open>The mutex is held by one process at most.\<close>

lemma holders_unique:
  assumes "drift_inv e f st" "i < length (procs st)" "j < length (procs st)"
    "holds (procs st ! i) = 1" "holds (procs st ! j) = 1"
  shows "i = j"
proof (rule ccontr)
  assume "i \<noteq> j"
  then have "2 \<le> tally holds st"
    using sum_list_map_ge_two [of holds i "procs st" j] claims_nonneg(2) assms(2-5) by (simp add: tally_def)
  then show False using drift_invD(4) [OF assms(1)] drift_invD(3) [OF assms(1), of SEM_MUTEX_BELT] by simp
qed

lemma semOperation_DoneD:
  assumes "semOperation k v w = Done () w'" "kernel w = []"
  shows "0 \<le> sems w k + v" "w' = w\<lparr>sems := (sems w)(k := sems w k + v)\<rparr>"
  using assms by (auto simp: semOperation_def split: if_splits)

lemma set_update_cases: "x \<in> set (xs[i := v]) \<Longrightarrow> x = v \<or> x \<in> set xs"
  using set_update_subset_insert [of xs i v] by auto

text \<open>A process inside the belt section can rely on what it has claimed.\<close>

lemma inside_push_room:
  assumes "sem_inv st" "i < length (procs st)" "procs st ! i = Inside (PushCall p)"
  shows "current_items_count (shm (cw st)) < MAX_BELT_CAPACITY_K"
proof -
  have "1 \<le> tally (claims SEM_EMPTY_SLOTS) st"
    using sum_list_map_ge_member [of "claims SEM_EMPTY_SLOTS" i "procs st"] assms(2,3)
    by (simp add: tally_def claims_nonneg)
  then show ?thesis using sem_invD(5) [OF assms(1)] sem_invD(3) [OF assms(1), of SEM_EMPTY_SLOTS] by simp
qed

lemma inside_pop_some:
  assumes "sem_inv st" "i < length (procs st)" "procs st ! i = Inside PopCall"
  shows "0 < current_items_count (shm (cw st))"
proof -
  have "1 \<le> tally (claims SEM_FULL_SLOTS) st"
    using sum_list_map_ge_member [of "claims SEM_FULL_SLOTS" i "procs st"] assms(2,3)
    by (simp add: tally_def claims_nonneg)
  then show ?thesis using sem_invD(6) [OF assms(1)] sem_invD(3) [OF assms(1), of SEM_FULL_SLOTS] by simp
qed

text \<open>What the sections do to the belt.\<close>

lemma section_effect:
  assumes inv: "belt_inv s" and run: "run_body c s = Some ((ok, p), s')"
  shows "belt_inv s' \<and> (case c of
       PushCall x \<Rightarrow> if ok then p = stamp s x \<and> belt_contents s' = belt_contents s @ [p]
           \<and> total_packages_created s' = total_packages_created s + 1 else s' = s
     | PopCall \<Rightarrow> if ok then belt_contents s = p # belt_contents s'
           \<and> total_packages_created s' = total_packages_created s else s' = s
     | _ \<Rightarrow> belt_contents s' = belt_contents s \<and> total_packages_created s' = total_packages_created s)"
proof -
  have w: "0 \<le> current_workers_count s" "current_workers_count s \<le> MAX_WORKERS_PER_BELT"
    using inv by (simp_all add: belt_inv_def)
  show ?thesis
  proof (cases c)
    case (PushCall x)
    show ?thesis
    proof (cases "current_items_count s < MAX_BELT_CAPACITY_K")
      case True
      then have "0 < id_budget s"
        using run PushCall by (auto simp: push_body_def bind_eq_Some_conv cadd_eq_Some_iff id_budget_def in_int32_def)
      then show ?thesis using push_body_accepts [OF inv True, of x] run PushCall by auto
    qed (use run inv PushCall push_body_rejects [of s x] in auto)
  next
    case PopCall
    show ?thesis
    proof (cases "0 < current_items_count s")
      case True
      then show ?thesis using pop_body_takes [OF inv] run PopCall by auto
    qed (use run inv PopCall in \<open>auto simp: pop_body_def\<close>)
  next
    case RegisterCall
    then show ?thesis using run inv w by (auto simp: registerWorker_body_spec belt_inv_workers split: if_splits)
  next
    case UnregisterCall
    then show ?thesis using run inv w by (auto simp: unregisterWorker_body_spec belt_inv_workers shared_consts)
  next
    case (SessionCall g)
    then show ?thesis using run inv by (auto simp: belt_inv_def belt_contents_def)
  qed
qed

text \<open>Without drift the sections of push and pop take their normal branch.\<close>

lemma body_effect:
  assumes "sem_inv st" "queue_inv st" "i < length (procs st)" "procs st ! i = Inside c"
    and "run_body c (shm (cw st)) = Some ((ok, p), s')"
  shows "belt_inv s' \<and> (case c of
       PushCall x \<Rightarrow> ok \<and> p = stamp (shm (cw st)) x \<and> belt_contents s' = belt_contents (shm (cw st)) @ [p]
         \<and> total_packages_created s' = total_packages_created (shm (cw st)) + 1
     | PopCall \<Rightarrow> ok \<and> belt_contents (shm (cw st)) = p # belt_contents s'
         \<and> total_packages_created s' = total_packages_created (shm (cw st))
     | _ \<Rightarrow> belt_contents s' = belt_contents (shm (cw st))
         \<and> total_packages_created s' = total_packages_created (shm (cw st)))"
proof -
  have inv: "belt_inv (shm (cw st))" using assms(2) by (simp add: queue_inv_def)
  have "ok" if "c = PushCall x" for x
    using inside_push_room [OF assms(1,3)] assms(4,5) that by (auto simp: push_body_def bind_eq_Some_conv Let_def)
  moreover have "ok" if "c = PopCall"
    using inside_pop_some [OF assms(1,3)] assms(4,5) that by (auto simp: pop_body_def bind_eq_Some_conv Let_def)
  ultimately show ?thesis using section_effect [OF inv assms(5)] by (cases c) auto
qed

lemma body_count:
  assumes inv: "belt_inv s" and run: "run_body c s = Some ((ok, p), s')"
  shows "current_items_count s' = current_items_count s
      + claims SEM_FULL_SLOTS (Unlocking (post_sem c ok)) - claims SEM_FULL_SLOTS (Inside c)"
    "claims SEM_EMPTY_SLOTS (Unlocking (post_sem c ok)) - claims SEM_EMPTY_SLOTS (Inside c)
      = - (claims SEM_FULL_SLOTS (Unlocking (post_sem c ok)) - claims SEM_FULL_SLOTS (Inside c))"
proof -
  note e = section_effect [OF assms]
  have inv': "belt_inv s'" using e by blast
  show "current_items_count s' = current_items_count s
      + claims SEM_FULL_SLOTS (Unlocking (post_sem c ok)) - claims SEM_FULL_SLOTS (Inside c)"
    unfolding belt_count [OF inv] belt_count [OF inv'] using e by (cases c; cases ok) simp_all
  show "claims SEM_EMPTY_SLOTS (Unlocking (post_sem c ok)) - claims SEM_EMPTY_SLOTS (Inside c)
      = - (claims SEM_FULL_SLOTS (Unlocking (post_sem c ok)) - claims SEM_FULL_SLOTS (Inside c))"
    by (cases c; cases ok) simp_all
qed

lemma pc_ok_update:
  "\<forall>x \<in> set xs. pc_ok x \<Longrightarrow> pc_ok v \<Longrightarrow> \<forall>x \<in> set (xs[i := v]). pc_ok x"
  using set_update_cases [of _ xs i v] by blast

text \<open>A semaphore operation of one process moves one unit between the semaphore and the claims.\<close>

lemma drift_inv_semop:
  assumes inv: "drift_inv e f st" and i: "i < length (procs st)"
    and op: "semOperation k v (cw st) = Done () w'" and ok: "pc_ok x" "k \<noteq> SEM_DOCK_MUTEX"
    and bal: "\<And>j. j \<in> {SEM_EMPTY_SLOTS, SEM_FULL_SLOTS} \<Longrightarrow>
        claims j x = claims j (procs st ! i) - (if j = k then v else 0)"
      "holds x = holds (procs st ! i) - (if k = SEM_MUTEX_BELT then v else 0)"
  shows "drift_inv e f (st\<lparr>procs := (procs st)[i := x], cw := w'\<rparr>)"
proof -
  note d = drift_invD [OF inv]
  have w': "0 \<le> sems (cw st) k + v" "w' = (cw st)\<lparr>sems := (sems (cw st))(k := sems (cw st) k + v)\<rparr>"
    using semOperation_DoneD [OF op d(2)] by auto
  have "\<forall>y \<in> set ((procs st)[i := x]). pc_ok y"
    by (rule pc_ok_update) (use inv ok in \<open>simp_all add: drift_inv_def\<close>)
  then show ?thesis
    using d(1-6) w' bal(1) [of SEM_EMPTY_SLOTS] bal(1) [of SEM_FULL_SLOTS] bal(2)
    unfolding drift_inv_def tally_update(1) [OF i] by auto
qed

lemma drift_inv_step:
  assumes step: "conc_step st st'" and inv: "drift_inv e f st" and q: "queue_inv st"
  shows "drift_inv e f st'"
  using step
proof cases
  case (call i c)
  define x where "x = (if wait_sem c = None then WaitLock c else WaitSem c)"
  have "pc_ok x" "holds x = 0" "claims k x = 0" for k by (auto simp: x_def)
  moreover have "\<forall>y \<in> set ((procs st)[i := x]). pc_ok y"
    by (rule pc_ok_update) (use inv calculation(1) in \<open>simp_all add: drift_inv_def\<close>)
  ultimately show ?thesis using inv call
    unfolding call(1) x_def [symmetric] drift_inv_def tally_update(2) [OF call(2)] by simp
next
  case (wait i c k w')
  then have "k = SEM_EMPTY_SLOTS \<or> k = SEM_FULL_SLOTS" by (cases c) auto
  then show ?thesis using wait unfolding wait(1)
    by (intro drift_inv_semop [OF inv wait(2,5)]) auto
next
  case (lock i c w')
  then show ?thesis unfolding lock(1)
    by (intro drift_inv_semop [OF inv lock(2) lock(4) [unfolded lockBelt_def]]) auto
next
  case (body i c ok p s')
  note b = body_count [OF queue_belt [OF q] body(4)] and d = drift_invD [OF inv]
  define x where "x = Unlocking (post_sem c ok)"
  have "pc_ok x" by (cases c) (auto simp: x_def)
  then have "\<forall>y \<in> set ((procs st)[i := x]). pc_ok y"
    by (rule pc_ok_update [rotated]) (use inv in \<open>simp add: drift_inv_def\<close>)
  moreover have "holds x = holds (procs st ! i)" using body(3) by (simp add: x_def)
  moreover have "sems (cw st) SEM_EMPTY_SLOTS
      + (tally (claims SEM_EMPTY_SLOTS) st - claims SEM_EMPTY_SLOTS (procs st ! i) + claims SEM_EMPTY_SLOTS x)
      = MAX_BELT_CAPACITY_K - current_items_count s' + e"
    using d(5) b unfolding body(3) x_def by linarith
  moreover have "sems (cw st) SEM_FULL_SLOTS
      + (tally (claims SEM_FULL_SLOTS) st - claims SEM_FULL_SLOTS (procs st ! i) + claims SEM_FULL_SLOTS x)
      = current_items_count s' + f"
    using d(6) b(1) unfolding body(3) x_def by linarith
  ultimately show ?thesis
    using d(1-4) unfolding body(1) x_def [symmetric] drift_inv_def tally_update(3) [OF body(2)] by simp
next
  case (unlock i k w')
  define x where "x = (case k of None \<Rightarrow> Idle | Some j \<Rightarrow> Posting j)"
  have "pc_ok (procs st ! i)" using drift_invD(7) [OF inv unlock(2)] .
  then have "pc_ok x" using unlock(3) by (auto simp: x_def split: option.splits)
  moreover have "claims j x = claims j (Unlocking k)" "holds x = 0" for j by (auto simp: x_def split: option.splits)
  ultimately show ?thesis using unlock unfolding unlock(1) x_def [symmetric]
    by (intro drift_inv_semop [OF inv unlock(2) unlock(4) [unfolded unlockBelt_def]]) auto
next
  case (post i k w')
  have "pc_ok (procs st ! i)" using drift_invD(7) [OF inv post(2)] .
  then have "k = SEM_EMPTY_SLOTS \<or> k = SEM_FULL_SLOTS" using post(3) by simp
  then show ?thesis using post unfolding post(1)
    by (intro drift_inv_semop [OF inv post(2,4)]) auto
next
  case (others w')
  then have "0 \<le> sems w' k" for k
    using drift_invD(3) [OF inv, of k] by (cases "k = SEM_DOCK_MUTEX") (auto simp: same_belt_def)
  then show ?thesis using inv others by (auto simp: drift_inv_def same_belt_def same_belt_fields_def tally_def)
qed

lemma queue_inv_world:
  assumes "queue_inv st" "shm w' = shm (cw st)"
  shows "queue_inv (st\<lparr>procs := ps, cw := w'\<rparr>)"
  using assms by (auto simp: queue_inv_def)

lemma queue_inv_step:
  assumes step: "conc_step st st'" and inv: "drift_inv e f st" and q: "queue_inv st"
  shows "queue_inv st'"
proof -
  have sem: "shm w' = shm (cw st)" if "semOperation k v (cw st) = Done () w'" for k v w'
    using semOperation_DoneD [OF that drift_invD(2) [OF inv]] by simp
  from step show ?thesis
  proof cases
    case (call i c)
    then show ?thesis using q by (auto simp: queue_inv_def)
  next
    case (body i c ok p s')
    then show ?thesis using q section_effect [OF queue_belt [OF q] body(4)] unfolding body(1)
      by (cases c) (auto simp: queue_inv_def log_accepted_def log_taken_def stamp_def intro: numbered_snoc split: if_splits)
  next
    case (others w')
    then show ?thesis using q by (auto simp: queue_inv_def same_belt_def same_belt_fields_def belt_inv_def belt_contents_def)
  qed (use q sem in \<open>auto simp: lockBelt_def unlockBelt_def intro!: queue_inv_world\<close>)
qed

definition conc_inv :: "conc \<Rightarrow> bool" where
  "conc_inv st \<longleftrightarrow> sem_inv st \<and> queue_inv st"

lemma conc_init_inv: "conc_init st \<Longrightarrow> conc_inv st"
proof -
  assume init: "conc_init st"
  then have z: "procs st = replicate (length (procs st)) Idle"
    by (simp add: conc_init_def replicate_length_same)
  have "tally holds st = 0" "tally (claims k) st = 0" for k
    unfolding tally_def by (subst z, simp add: sum_list_replicate)+
  moreover have "0 \<le> sems boot_world k" for k by (simp add: init_sems_def shared_consts)
  ultimately have "sem_inv st" using init
    by (auto simp: sem_inv_def conc_init_def init_sems_def init_shm_def zero_SharedState_def)
  moreover have "queue_inv st" using init belt_inv_init [of zero_SharedState]
    by (simp add: queue_inv_def conc_init_def) (simp add: init_shm_def zero_SharedState_def)
  ultimately show "conc_inv st" by (simp add: conc_inv_def)
qed

interpretation belt_system: inductive_invariant conc_init conc_step conc_inv
  using conc_init_inv by unfold_locales (auto simp: conc_inv_def sem_inv_drift intro: drift_inv_step queue_inv_step)

lemma conc_reachable_inv: "conc_reachable st \<Longrightarrow> sem_inv st \<and> queue_inv st"
  using belt_system.inv_reachable by (simp add: conc_inv_def)

section \<open>Session sections\<close>

text \<open>The sections of the session manager are covered: they compute a new session table from the old one.\<close>

lemma session_bodies_are_session_calls:
  "login_body n r org mp p c s = Some (x, s') \<Longrightarrow> \<exists>g. s' = s\<lparr>users := g (users s)\<rparr>"
  "logout_body c s = Some (y, s') \<Longrightarrow> \<exists>g. s' = s\<lparr>users := g (users s)\<rparr>"
  "trySpawnProcess_body c s = Some (b, s') \<Longrightarrow> \<exists>g. s' = s\<lparr>users := g (users s)\<rparr>"
  "reportProcessFinished_body c s = Some (z, s') \<Longrightarrow> \<exists>g. s' = s\<lparr>users := g (users s)\<rparr>"
proof -
  have g: "\<exists>g. s' = s\<lparr>users := g (users s)\<rparr>" if "s' = s\<lparr>users := users s'\<rparr>" for s' :: SharedState
    using that by (intro exI [of _ "\<lambda>_. users s'"])
  show "login_body n r org mp p c s = Some (x, s') \<Longrightarrow> \<exists>g. s' = s\<lparr>users := g (users s)\<rparr>"
    by (rule g) (auto simp: login_body_def Let_def bind_eq_Some_conv split: if_splits)
  show "logout_body c s = Some (y, s') \<Longrightarrow> \<exists>g. s' = s\<lparr>users := g (users s)\<rparr>"
    by (rule g) (auto simp: logout_body_def bind_eq_Some_conv)
  show "trySpawnProcess_body c s = Some (b, s') \<Longrightarrow> \<exists>g. s' = s\<lparr>users := g (users s)\<rparr>"
    by (rule g) (auto simp: trySpawnProcess_body_def bind_eq_Some_conv split: if_splits)
  show "reportProcessFinished_body c s = Some (z, s') \<Longrightarrow> \<exists>g. s' = s\<lparr>users := g (users s)\<rparr>"
    by (rule g) (auto simp: reportProcessFinished_body_def bind_eq_Some_conv split: if_splits)
qed

section \<open>Progress\<close>

definition can_step :: "conc \<Rightarrow> nat \<Rightarrow> bool" where
  "can_step st i \<longleftrightarrow> (\<exists>st'. conc_step st st' \<and> procs st' ! i \<noteq> procs st ! i)"

text \<open>No process is stuck inside the belt methods once it has got past its first semaphore.\<close>

lemma body_defined:
  assumes "sem_inv st" "queue_inv st" "i < length (procs st)" "procs st ! i = Inside c"
    and "0 < id_budget (shm (cw st))"
  shows "\<exists>ok p s'. run_body c (shm (cw st)) = Some ((ok, p), s')"
proof -
  have inv: "belt_inv (shm (cw st))" using assms(2) by (simp add: queue_inv_def)
  show ?thesis
  proof (cases c)
    case (PushCall x)
    have "current_items_count (shm (cw st)) < MAX_BELT_CAPACITY_K"
      using inside_push_room assms(1,3,4) PushCall by blast
    then show ?thesis using push_body_accepts [OF inv _ assms(5), of x] PushCall by auto
  next
    case PopCall
    then show ?thesis using pop_body_takes [OF inv inside_pop_some [OF assms(1,3)]] assms(4) by auto
  qed (use inv in \<open>auto simp: registerWorker_body_spec unregisterWorker_body_spec\<close>)
qed

lemma holder_can_step:
  assumes "sem_inv st" "queue_inv st" "i < length (procs st)" "0 < id_budget (shm (cw st))"
    and "(\<exists>c. procs st ! i = Inside c) \<or> (\<exists>k. procs st ! i = Unlocking k) \<or> (\<exists>k. procs st ! i = Posting k)"
  shows "can_step st i"
proof -
  note d = sem_invD [OF assms(1)]
  have up: "\<exists>w'. semOperation k 1 (cw st) = Done () w'" for k
    using d(2) d(3) [of k] by (simp add: semOperation_ok)
  from assms(5) show ?thesis
  proof (elim disjE exE)
    fix c assume c: "procs st ! i = Inside c"
    then obtain ok p s' where "run_body c (shm (cw st)) = Some ((ok, p), s')"
      using body_defined assms by blast
    from conc_step.body [OF assms(3) c this] c assms(3) show ?thesis
      by (auto simp: can_step_def intro!: exI)
  next
    fix k assume k: "procs st ! i = Unlocking k"
    obtain w' where "unlockBelt (cw st) = Done () w'" using up unlockBelt_def by metis
    from conc_step.unlock [OF assms(3) k this] k assms(3) show ?thesis
      by (auto simp: can_step_def split: option.splits intro!: exI)
  next
    fix k assume k: "procs st ! i = Posting k"
    obtain w' where "semOperation k 1 (cw st) = Done () w'" using up by blast
    from conc_step.post [OF assms(3) k this] k assms(3) show ?thesis
      by (auto simp: can_step_def intro!: exI)
  qed
qed

lemma tally_zero:
  assumes "\<And>i. i < length (procs st) \<Longrightarrow> f (procs st ! i) = 0"
  shows "tally f st = 0"
proof -
  have "(\<forall>x \<in> set xs. f x = 0) \<Longrightarrow> sum_list (map f xs) = 0" for xs by (induction xs) auto
  moreover have "\<forall>x \<in> set (procs st). f x = 0" using assms by (auto simp: in_set_conv_nth)
  ultimately show ?thesis by (simp add: tally_def)
qed

lemma waiter_can_step:
  assumes "sem_inv st" "i < length (procs st)" "procs st ! i = WaitSem c" "wait_sem c = Some k" "0 < sems (cw st) k"
  shows "can_step st i"
proof -
  obtain w' where "semOperation k (-1) (cw st) = Done () w'"
    using sem_invD(2) [OF assms(1)] assms(5) by (simp add: semOperation_ok)
  from conc_step.wait [OF assms(2-4) this] assms(2,3) show ?thesis
    by (auto simp: can_step_def intro!: exI)
qed

lemma locker_can_step:
  assumes "sem_inv st" "i < length (procs st)" "procs st ! i = WaitLock c" "tally holds st = 0"
  shows "can_step st i"
proof -
  obtain w' where "lockBelt (cw st) = Done () w'"
    using sem_invD(2,4) [OF assms(1)] assms(4) by (simp add: lockBelt_def semOperation_ok)
  from conc_step.lock [OF assms(2,3) this] assms(2,3) show ?thesis
    by (auto simp: can_step_def intro!: exI)
qed

section \<open>Properties\<close>

text \<open>Three processes that have not called anything yet.\<close>

definition idle_system :: conc where
  "idle_system = \<lparr>procs = [Idle, Idle, Idle], cw = boot_world, accepted = [], taken = []\<rparr>"

lemma idle_system_reachable: "conc_reachable idle_system"
  by (rule reachable.start) (simp add: conc_init_def idle_system_def)

text \<open>A process that has entered the section of \<open>push\<close>.\<close>

definition pushing_system :: conc where
  "pushing_system = idle_system\<lparr>procs := [Inside (PushCall zero_Package), Idle, Idle],
     cw := boot_world\<lparr>sems := (sems boot_world)(SEM_EMPTY_SLOTS := 9, SEM_MUTEX_BELT := 0)\<rparr>\<rparr>"

lemma pushing_system_reachable: "conc_reachable pushing_system"
proof -
  define w1 where "w1 = boot_world\<lparr>sems := (sems boot_world)(SEM_EMPTY_SLOTS := 9)\<rparr>"
  have r1: "conc_reachable (idle_system\<lparr>procs := [WaitSem (PushCall zero_Package), Idle, Idle]\<rparr>)"
    using reachable.further [OF idle_system_reachable conc_step.call [of 0 idle_system "PushCall zero_Package"]]
    by (simp add: idle_system_def)
  have s1: "semOperation SEM_EMPTY_SLOTS (-1) boot_world = Done () w1"
    by (simp add: semOperation_def w1_def init_sems_def shared_consts)
  have r2: "conc_reachable (idle_system\<lparr>procs := [WaitLock (PushCall zero_Package), Idle, Idle], cw := w1\<rparr>)"
    using reachable.further [OF r1 conc_step.wait [of 0 _ "PushCall zero_Package" SEM_EMPTY_SLOTS w1]] s1
    by (simp add: idle_system_def)
  have "lockBelt w1 = Done () (w1\<lparr>sems := (sems w1)(SEM_MUTEX_BELT := 0)\<rparr>)"
    by (simp add: lockBelt_def semOperation_def w1_def init_sems_def)
  then show ?thesis
    using reachable.further [OF r2 conc_step.lock [of 0 _ "PushCall zero_Package"]]
    by (simp add: idle_system_def pushing_system_def w1_def)
qed

text \<open>
  C12: the belt is a bounded FIFO queue under concurrency.  In every reachable state, under every
  interleaving, the packages accepted so far are the packages taken so far followed by what is on the
  belt, in order; nothing is lost, duplicated or reordered, the accepted packages are numbered
  1, 2, 3, \<dots>, and the capacity is not exceeded.
\<close>

theorem belt_concurrent_fifo:
  assumes "conc_reachable st"
  shows "accepted st = taken st @ belt_contents (shm (cw st))
     \<and> map pkg_id (accepted st) = map (\<lambda>k. int k + 1) [0..<length (accepted st)]
     \<and> length (belt_contents (shm (cw st))) \<le> nat MAX_BELT_CAPACITY_K \<and> belt_inv (shm (cw st))"
  using conc_reachable_inv [OF assms] belt_queue.bounded unfolding queue_inv_def numbered_def by blast

theorem belt_concurrent_fifo_witness:
  "\<exists>st. conc_reachable st \<and> map pkg_id (accepted st) = [1] \<and> accepted st = taken st @ belt_contents (shm (cw st))"
proof -
  obtain s' where "push_body zero_Package (shm boot_world) = Some ((True, zero_Package\<lparr>pkg_id := 1\<rparr>), s')"
    by (auto simp: push_body_def init_shm_def zero_SharedState_def shared_consts cadd_def in_int32_iff aset_def Let_def)
  then have step: "conc_step pushing_system (pushing_system\<lparr>procs := (procs pushing_system)[0 := Unlocking (Some SEM_FULL_SLOTS)],
     cw := (cw pushing_system)\<lparr>shm := s'\<rparr>, accepted := [zero_Package\<lparr>pkg_id := 1\<rparr>], taken := []\<rparr>)"
    (is "conc_step _ ?st")
    using conc_step.body [of 0 pushing_system "PushCall zero_Package" True "zero_Package\<lparr>pkg_id := 1\<rparr>" s']
    by (simp add: pushing_system_def idle_system_def log_accepted_def log_taken_def)
  have r: "conc_reachable ?st" using reachable.further [OF pushing_system_reachable step] .
  have "map pkg_id (accepted ?st) = [1]" by simp
  with r belt_concurrent_fifo [OF r] show ?thesis by (intro exI [of _ ?st] conjI) (assumption | erule conjE)+
qed

text \<open>
  The counting semaphores make the rejecting branches of \<open>push\<close> and \<open>pop\<close> dead code: under every
  interleaving a process that is inside the section of \<open>push\<close> finds a free slot and places its package,
  and one inside the section of \<open>pop\<close> finds a package.
\<close>

theorem belt_never_rejects:
  assumes "conc_reachable st" "i < length (procs st)" "procs st ! i = Inside c" "0 < id_budget (shm (cw st))"
  shows "\<exists>p s'. case c of
      PushCall x \<Rightarrow> push_body x (shm (cw st)) = Some ((True, p), s') \<and> p = stamp (shm (cw st)) x
    | PopCall \<Rightarrow> pop_body (shm (cw st)) = Some ((True, p), s')
    | _ \<Rightarrow> run_body c (shm (cw st)) \<noteq> None"
proof -
  have inv: "sem_inv st" "queue_inv st" using conc_reachable_inv [OF assms(1)] by auto
  obtain ok p s' where r: "run_body c (shm (cw st)) = Some ((ok, p), s')"
    using body_defined [OF inv assms(2-4)] by blast
  show ?thesis using body_effect [OF inv assms(2,3) r] r
    by (intro exI [of _ p] exI [of _ s']) (cases c; auto)
qed

theorem belt_never_rejects_witness:
  "\<exists>s'. push_body zero_Package (shm boot_world) = Some ((True, zero_Package\<lparr>pkg_id := 1\<rparr>), s')"
proof -
  have "0 < id_budget (shm (cw pushing_system))"
    by (simp add: pushing_system_def id_budget_def init_shm_def zero_SharedState_def INT32_MAX_def)
  from belt_never_rejects [OF pushing_system_reachable _ _ this, of 0 "PushCall zero_Package"] show ?thesis
    by (auto simp: pushing_system_def idle_system_def stamp_def init_shm_def zero_SharedState_def)
qed

text \<open>
  C24: freedom from deadlock.  In every reachable state in which the package counter has not reached the
  largest \<open>int\<close>, either some process that is inside a method can take its next step, or all such
  processes wait in the first operation of their methods: producers because the belt is full, or
  consumers because it is empty, and never both kinds.
\<close>

theorem belt_deadlock_free:
  assumes "conc_reachable st" "0 < id_budget (shm (cw st))"
  shows "(\<exists>i < length (procs st). procs st ! i \<noteq> Idle \<and> can_step st i)
     \<or> (\<forall>i < length (procs st). procs st ! i = Idle
          \<or> (\<exists>p. procs st ! i = WaitSem (PushCall p)) \<and> current_items_count (shm (cw st)) = MAX_BELT_CAPACITY_K
          \<or> procs st ! i = WaitSem PopCall \<and> current_items_count (shm (cw st)) = 0)"
proof (cases "\<exists>i < length (procs st). procs st ! i \<noteq> Idle \<and> can_step st i")
  case True
  then show ?thesis by (rule disjI1)
next
  case stuck: False
  have inv: "sem_inv st" "queue_inv st" using conc_reachable_inv [OF assms(1)] by auto
  note d = sem_invD [OF inv(1)]
  have busy: "procs st ! i \<noteq> Inside c" "procs st ! i \<noteq> Unlocking k" "procs st ! i \<noteq> Posting m"
    if "i < length (procs st)" for i c k m
    using holder_can_step [OF inv that assms(2)] stuck that by fastforce+
  have h: "tally holds st = 0"
  proof (rule tally_zero)
    show "holds (procs st ! i) = 0" if "i < length (procs st)" for i
      using busy [OF that] by (cases "procs st ! i") auto
  qed
  have lockers: "procs st ! i \<noteq> WaitLock c" if "i < length (procs st)" for i c
    using locker_can_step [OF inv(1) that _ h] stuck that by fastforce
  have cl: "tally (claims k) st = 0" for k
  proof (rule tally_zero)
    show "claims k (procs st ! i) = 0" if "i < length (procs st)" for i
      using busy [OF that] lockers [OF that] by (cases "procs st ! i") auto
  qed
  show ?thesis
  proof (rule disjI2, intro allI impI)
    fix i assume i: "i < length (procs st)"
    show "procs st ! i = Idle
          \<or> (\<exists>p. procs st ! i = WaitSem (PushCall p)) \<and> current_items_count (shm (cw st)) = MAX_BELT_CAPACITY_K
          \<or> procs st ! i = WaitSem PopCall \<and> current_items_count (shm (cw st)) = 0"
    proof (cases "procs st ! i")
      case (WaitSem c)
      have z: "sems (cw st) k = 0" if "wait_sem c = Some k" for k
        using waiter_can_step [OF inv(1) i WaitSem that] stuck i WaitSem d(3) [of k] by fastforce
      show ?thesis using z d(5,6) cl WaitSem d(7) [OF i] by (cases c) auto
    qed (use busy lockers i in auto)
  qed
qed

text \<open>A producer is inside its section while a consumer waits for a package.\<close>

theorem belt_deadlock_free_witness:
  "\<exists>st. conc_reachable st \<and> 0 < id_budget (shm (cw st))
     \<and> procs st = [Inside (PushCall zero_Package), WaitSem PopCall, Idle]
     \<and> (\<exists>i < 3. procs st ! i \<noteq> Idle \<and> can_step st i)"
proof -
  define st where "st = pushing_system\<lparr>procs := [Inside (PushCall zero_Package), WaitSem PopCall, Idle]\<rparr>"
  have r: "conc_reachable st"
    using reachable.further [OF pushing_system_reachable conc_step.call [of 1 pushing_system PopCall]]
    by (simp add: st_def pushing_system_def)
  have b: "0 < id_budget (shm (cw st))"
    by (simp add: st_def pushing_system_def id_budget_def init_shm_def zero_SharedState_def INT32_MAX_def)
  have p: "procs st = [Inside (PushCall zero_Package), WaitSem PopCall, Idle]" by (simp add: st_def)
  have "\<not> (\<forall>i < length (procs st). procs st ! i = Idle
          \<or> (\<exists>p. procs st ! i = WaitSem (PushCall p)) \<and> current_items_count (shm (cw st)) = MAX_BELT_CAPACITY_K
          \<or> procs st ! i = WaitSem PopCall \<and> current_items_count (shm (cw st)) = 0)"
    by (auto simp: p intro!: exI [of _ 0])
  with belt_deadlock_free [OF r b] have "\<exists>i < length (procs st). procs st ! i \<noteq> Idle \<and> can_step st i" by (elim disjE) auto
  then show ?thesis using r b p by (intro exI [of _ st]) (simp add: numeral_3_eq_3)
qed

end
