(* ===== verification/Dock.thy ===== *)
theory Dock
  imports Manager
begin

text \<open>
  The loading dock: the capacity test that the dispatcher and the express worker share, the
  capacity invariant of the docked truck, and the contract of an operation that loads one item.
\<close>

definition fits_weight :: "TruckState \<Rightarrow> double \<Rightarrow> bool" where
  "fits_weight t wt \<longleftrightarrow> dle (dadd (current_weight t) wt) (max_weight t)"

definition fits_volume :: "TruckState \<Rightarrow> double \<Rightarrow> bool" where
  "fits_volume t vol \<longleftrightarrow> dle (dadd (current_volume t) vol) (max_volume t)"

abbreviation fits :: "TruckState \<Rightarrow> double \<Rightarrow> double \<Rightarrow> bool" where
  "fits t wt vol \<equiv> fits_weight t wt \<and> fits_volume t vol"

text \<open>A docked truck carries no more than its two limits allow.\<close>

definition truck_ok :: "TruckState \<Rightarrow> bool" where
  "truck_ok t \<longleftrightarrow> (is_present t \<longrightarrow>
      dle (current_weight t) (max_weight t) \<and> dle (current_volume t) (max_volume t))"

text \<open>The loads are proper non-negative doubles.\<close>

definition truck_loads_ok :: "TruckState \<Rightarrow> bool" where
  "truck_loads_ok t \<longleftrightarrow> is_double (current_weight t) \<and> is_double (current_volume t)
     \<and> dle (Fin 0) (current_weight t) \<and> dle (Fin 0) (current_volume t)"

text \<open>Loading a list of items until one does not fit; the result says whether all were loaded.\<close>

fun load_all :: "('i \<Rightarrow> TruckState \<Rightarrow> TruckState) \<Rightarrow> ('i \<Rightarrow> double) \<Rightarrow> ('i \<Rightarrow> double) \<Rightarrow>
  'i list \<Rightarrow> TruckState \<Rightarrow> bool \<times> TruckState" where
  "load_all put wt vol [] t = (True, t)"
| "load_all put wt vol (i # is) t =
     (if fits t (wt i) (vol i) then load_all put wt vol is (put i t) else (False, t))"

text \<open>
  The contract of a loading operation: it adds the item's weight and volume and leaves the identity
  and the limits of the truck alone.  The client lemmas hold for every loader that keeps it.
\<close>

locale loader =
  fixes put :: "'i \<Rightarrow> TruckState \<Rightarrow> TruckState" and wt vol :: "'i \<Rightarrow> double"
  assumes put_weight: "current_weight (put i t) = dadd (current_weight t) (wt i)"
    and put_volume: "current_volume (put i t) = dadd (current_volume t) (vol i)"
    and put_frame: "is_present (put i t) = is_present t" "truck_id (put i t) = truck_id t"
      "max_weight (put i t) = max_weight t" "max_volume (put i t) = max_volume t"
      "max_load (put i t) = max_load t"
begin

lemma put_ok: "fits t (wt i) (vol i) \<Longrightarrow> truck_ok (put i t)"
  by (simp add: truck_ok_def put_weight put_volume put_frame fits_weight_def fits_volume_def)

lemma put_grows:
  assumes "truck_loads_ok t" "is_double (wt i)" "is_double (vol i)" "dle (Fin 0) (wt i)" "dle (Fin 0) (vol i)"
  shows "truck_loads_ok (put i t) \<and> dle (current_weight t) (current_weight (put i t))
     \<and> dle (current_volume t) (current_volume (put i t))"
  using assms by (simp add: truck_loads_ok_def put_weight put_volume is_double_dadd dadd_nonneg dadd_ge)

lemma load_all_ok:
  "truck_ok t \<Longrightarrow> truck_ok (snd (load_all put wt vol is t))"
  by (induction "is" arbitrary: t) (auto intro: put_ok)

lemma load_all_frame:
  "truck_id (snd (load_all put wt vol is t)) = truck_id t"
  "is_present (snd (load_all put wt vol is t)) = is_present t"
  "max_weight (snd (load_all put wt vol is t)) = max_weight t"
  "max_volume (snd (load_all put wt vol is t)) = max_volume t"
  by (induction "is" arbitrary: t) (simp_all add: put_frame)

lemma load_all_grows:
  assumes "truck_loads_ok t"
    and "\<forall>i \<in> set is. is_double (wt i) \<and> is_double (vol i) \<and> dle (Fin 0) (wt i) \<and> dle (Fin 0) (vol i)"
  shows "truck_loads_ok (snd (load_all put wt vol is t))
     \<and> dle (current_weight t) (current_weight (snd (load_all put wt vol is t)))
     \<and> dle (current_volume t) (current_volume (snd (load_all put wt vol is t)))"
  using assms
proof (induction "is" arbitrary: t)
  case Nil
  then show ?case
    by (auto simp: truck_loads_ok_def intro!: dle_refl dest: dle_not_NaN)
next
  case (Cons i "is")
  show ?case
  proof (cases "fits t (wt i) (vol i)")
    case True
    have g: "truck_loads_ok (put i t)" "dle (current_weight t) (current_weight (put i t))"
      "dle (current_volume t) (current_volume (put i t))"
      using put_grows [OF Cons.prems(1), of i] Cons.prems(2) by auto
    from Cons.IH [OF g(1)] Cons.prems(2) g True show ?thesis by (auto intro: dle_trans)
  next
    case False
    then show ?thesis using Cons.prems(1)
      by (auto simp: truck_loads_ok_def intro!: dle_refl dest: dle_not_NaN)
  qed
qed

end

text \<open>Constants of the package classes are positive doubles.\<close>

lemma vol_values:
  "VOL_A = Fin (700976274800963 / 36028797018963968)"
  "VOL_B = Fin (1664818652652287 / 36028797018963968)"
  "VOL_C = Fin (3592503408354935 / 36028797018963968)"
  using to_double_by [of "-6" "19456 / 1000000" 5607810198407704]
    to_double_by [of "-5" "46208 / 1000000" 6659274610609148]
    to_double_by [of "-4" "99712 / 1000000" 7185006816709870]
  by (simp_all add: VOL_A_def VOL_B_def VOL_C_def pow2_def)

lemma vol_ok:
  "is_double VOL_A" "is_double VOL_B" "is_double VOL_C"
  "dle (Fin 0) VOL_A" "dle (Fin 0) VOL_B" "dle (Fin 0) VOL_C"
proof -
  show "is_double VOL_A" "is_double VOL_B" "is_double VOL_C"
    by (simp_all only: VOL_A_def VOL_B_def VOL_C_def is_double_to_double)
  show "dle (Fin 0) VOL_A" "dle (Fin 0) VOL_B" "dle (Fin 0) VOL_C"
    by (simp_all add: vol_values)
qed

section \<open>The dock section\<close>

text \<open>The conditions under which the dock section runs without interference.\<close>

definition dock_ready :: "world \<Rightarrow> bool" where
  "dock_ready w \<longleftrightarrow> kernel w = [] \<and> 0 < sems w SEM_DOCK_MUTEX \<and> msg_room w
     \<and> (is_present (dock_truck (shm w)) \<longrightarrow>
          0 < truck_id (dock_truck (shm w)) \<and> in_int32 (current_load (dock_truck (shm w)) + 1))"

definition depart_sent :: "world \<Rightarrow> world" where
  "depart_sent w = w\<lparr>msgq := msg_send (truck_id (dock_truck (shm w))) SIGNAL_DEPARTURE (msgq w)\<rparr>"

definition with_truck :: "TruckState \<Rightarrow> world \<Rightarrow> world" where
  "with_truck t w = w\<lparr>shm := (shm w)\<lparr>dock_truck := t\<rparr>\<rparr>"

lemma sendSignal_shm: "sendSignal p t w = Done a w' \<Longrightarrow> shm w' = shm w"
  by (auto simp: sendSignal_def Let_def split: list.splits option.splits if_splits)

lemma semOperation_shm: "semOperation i v w = Done a w' \<Longrightarrow> shm w' = shm w"
  by (auto simp: semOperation_def Let_def split: list.splits option.splits if_splits)

text \<open>Whatever the kernel reports, a bracketed section keeps a predicate of the shared state its body keeps.\<close>

lemma with_lock_sem_preserves:
  assumes "with_lock (semOperation i k) (semOperation j l) body w = Done a w'" "P (shm w)"
    and "\<And>w1 b w2. P (shm w1) \<Longrightarrow> body w1 = Done b w2 \<Longrightarrow> P (shm w2)"
  shows "P (shm w')"
proof -
  from assms(1) obtain w1 w2 where "semOperation i k w = Done () w1" "body w1 = Done a w2"
    "semOperation j l w2 = Done () w'"
    by (auto simp: with_lock_def obind_eq_Done_iff)
  then show ?thesis using assms(2,3) by (metis semOperation_shm)
qed

lemmas with_lock_dock_preserves = with_lock_sem_preserves
  [of SEM_DOCK_MUTEX "- 1" SEM_DOCK_MUTEX 1, folded lockDock_def unlockDock_def]

lemmas with_lock_belt_preserves = with_lock_sem_preserves
  [of SEM_MUTEX_BELT "- 1" SEM_MUTEX_BELT 1, folded lockBelt_def unlockBelt_def]

end
