(* ===== verification/Truck.thy ===== *)
theory Truck
  imports Dock
begin

text \<open>
  \<open>include/Truck.h\<close>: the life cycle of a truck.

  \<open>Truck::run\<close> is a loop with four sections under the dock mutex, one blocking receive and the test of
  \<open>running\<close> at its head.  Other processes act between them, so the loop is a machine with one step for
  each: \<open>truck_step\<close> gives the next control point.  A step gets what the random generators return during it: the two
  capacities and the value of \<open>rand()\<close>.  \<open>truck_run\<close> is the whole method, with the list of what other
  processes do before each step; the method has returned when the control point is \<open>Ended\<close>.
\<close>

definition randomizeTruckSpecs :: "pid_t \<Rightarrow> double \<Rightarrow> double \<Rightarrow> TruckState \<Rightarrow> TruckState" where
  "randomizeTruckSpecs my_pid wcap vcap t =
     t\<lparr>truck_id := my_pid, current_load := 0, current_weight := lit 0, current_volume := lit 0,
       max_load := 100, max_weight := wcap, max_volume := vcap, is_present := True\<rparr>"

datatype truck_pc = Arriving | Docking | Waiting | ShuttingDown | Departing | Leaving | Ended

record rolls =
  roll_weight :: double
  roll_volume :: double
  roll_rand :: int

definition dock_body :: "pid_t \<Rightarrow> rolls \<Rightarrow> SharedState \<Rightarrow> (bool \<times> SharedState) option" where
  "dock_body my_pid r s =
     (if is_present (dock_truck s) then Some (False, s)
      else Some (True, s\<lparr>dock_truck := randomizeTruckSpecs my_pid (roll_weight r) (roll_volume r) (dock_truck s)\<rparr>))"

text \<open>The section after \<open>SIGNAL_END_WORK\<close>; the result says whether a last load is delivered.\<close>

definition shutdown_body :: "pid_t \<Rightarrow> SharedState \<Rightarrow> (bool \<times> SharedState) option" where
  "shutdown_body my_pid s =
     (if truck_id (dock_truck s) = my_pid \<and> dgt (current_weight (dock_truck s)) (lit (1 / 10))
      then do {
        n \<leftarrow> cadd (trucks_completed s) 1;
        Some (True, s\<lparr>trucks_completed := n, dock_truck := (dock_truck s)\<lparr>is_present := False\<rparr>\<rparr>)
      }
      else if truck_id (dock_truck s) = my_pid
      then Some (False, s\<lparr>dock_truck := (dock_truck s)\<lparr>is_present := False\<rparr>\<rparr>)
      else Some (False, s))"

definition depart_body :: "pid_t \<Rightarrow> SharedState \<Rightarrow> (bool \<times> SharedState) option" where
  "depart_body my_pid s =
     (if truck_id (dock_truck s) = my_pid then do {
        n \<leftarrow> cadd (trucks_completed s) 1;
        Some (True, s\<lparr>trucks_completed := n, dock_truck := (dock_truck s)\<lparr>is_present := False\<rparr>\<rparr>)
      }
      else Some (False, s))"

definition leave_body :: "pid_t \<Rightarrow> SharedState \<Rightarrow> (unit \<times> SharedState) option" where
  "leave_body my_pid s =
     (if is_present (dock_truck s) \<and> truck_id (dock_truck s) = my_pid
      then Some ((), s\<lparr>dock_truck := (dock_truck s)\<lparr>is_present := False\<rparr>\<rparr>)
      else Some ((), s))"

text \<open>\<open>rand()\<close> is not negative, so the remainder of C and of HOL agree.\<close>

definition route_time :: "rolls \<Rightarrow> int" where
  "route_time r = 3000 + roll_rand r mod 5000"

fun truck_step :: "pid_t \<Rightarrow> rolls \<Rightarrow> truck_pc \<Rightarrow> world \<Rightarrow> truck_pc outcome" where
  "truck_step my_pid r Arriving w =
     (if attached w \<and> running (shm w) then Done Docking w else Done Leaving w)"
| "truck_step my_pid r Docking w =
     obind (with_lock lockDock unlockDock (on_shm (dock_body my_pid r)) w) (\<lambda>docked w1.
       if docked then Done Waiting w1 else Done Arriving (sleep_ms 1000 w1))"
| "truck_step my_pid r Waiting w =
     obind (receiveSignalBlocking my_pid w) (\<lambda>sig w1.
       if sig = SIGNAL_END_WORK \<or> \<not> running (shm w1) then Done ShuttingDown w1 else Done Departing w1)"
| "truck_step my_pid r ShuttingDown w =
     obind (with_lock lockDock unlockDock (on_shm (shutdown_body my_pid)) w) (\<lambda>cargo w1.
       Done Leaving (if cargo then sleep_ms 3000 w1 else w1))"
| "truck_step my_pid r Departing w =
     obind (with_lock lockDock unlockDock (on_shm (depart_body my_pid)) w) (\<lambda>_ w1.
       Done Arriving (sleep_ms (route_time r) w1))"
| "truck_step my_pid r Leaving w =
     obind (with_lock lockDock unlockDock
        (\<lambda>w1. if \<not> attached w1 then UB else on_shm (leave_body my_pid) w1) w) (\<lambda>_ w1. Done Ended w1)"
| "truck_step my_pid r Ended w = Done Ended w"

fun truck_run :: "pid_t \<Rightarrow> ((world \<Rightarrow> world) \<times> rolls) list \<Rightarrow> truck_pc \<Rightarrow> world \<Rightarrow> truck_pc outcome" where
  "truck_run my_pid [] pc w = Done pc w"
| "truck_run my_pid ((e, r) # rest) pc w =
     obind (truck_step my_pid r pc (e w)) (\<lambda>pc' w1. truck_run my_pid rest pc' w1)"

section \<open>The sections of the loop\<close>

text \<open>The dock mutex is free and the kernel reports no errors.\<close>

definition dock_free :: "world \<Rightarrow> bool" where
  "dock_free w \<longleftrightarrow> attached w \<and> kernel w = [] \<and> 0 < sems w SEM_DOCK_MUTEX"

lemma dock_bracket:
  "dock_free w \<Longrightarrow> with_lock lockDock unlockDock (on_shm g) w =
     (case g (shm w) of None \<Rightarrow> UB | Some (a, s) \<Rightarrow> Done a (w\<lparr>shm := s\<rparr>))"
  by (simp add: dock_free_def dock_mutex.bracket_shm)

lemma dock_bracket_leave:
  assumes "dock_free w"
  shows "with_lock lockDock unlockDock (\<lambda>w1. if \<not> attached w1 then UB else on_shm g w1) w =
     (case g (shm w) of None \<Rightarrow> UB | Some (a, s) \<Rightarrow> Done a (w\<lparr>shm := s\<rparr>))"
  using assms by (simp add: dock_free_def with_lock_def dock_mutex.lock_free on_shm_def
      dock_mutex.unlock_gives split: option.split)

lemma dock_free_update [simp]:
  "dock_free (w\<lparr>shm := s\<rparr>) = dock_free w" "dock_free (w\<lparr>msgq := q\<rparr>) = dock_free w"
  "dock_free (sleep_ms d w) = dock_free w" "shm (sleep_ms d w) = shm w" "msgq (sleep_ms d w) = msgq w"
  "sems (sleep_ms d w) = sems w"
  by (simp_all add: dock_free_def sleep_ms_def)

lemma step_arriving:
  assumes "dock_free w"
  shows "truck_step p r Arriving w = (if running (shm w) then Done Docking w else Done Leaving w)"
  using assms by (simp add: dock_free_def)

lemma step_docking:
  assumes "dock_free w"
  shows "truck_step p r Docking w =
    (if is_present (dock_truck (shm w)) then Done Arriving (sleep_ms 1000 w)
     else Done Waiting (w\<lparr>shm := (shm w)\<lparr>dock_truck :=
        randomizeTruckSpecs p (roll_weight r) (roll_volume r) (dock_truck (shm w))\<rparr>\<rparr>))"
  using assms by (simp add: dock_bracket dock_body_def)

lemma step_arriving_stopped:
  "\<not> running (shm w) \<Longrightarrow> truck_step p r Arriving w = Done Leaving w"
  by simp

lemma step_waiting:
  assumes "dock_free w" "0 < p" "mailbox p (msgq w) = sig # rest"
  shows "\<exists>q. truck_step p r Waiting w =
       Done (if sig = SIGNAL_END_WORK \<or> \<not> running (shm w) then ShuttingDown else Departing) (w\<lparr>msgq := q\<rparr>)
     \<and> mailbox p q = rest \<and> (\<forall>p'. p' \<noteq> p \<longrightarrow> mailbox p' q = mailbox p' (msgq w))"
proof -
  obtain s q where sq: "msg_recv p (msgq w) = Some (s, q)"
    using queue_channel.recv_None [OF assms(2)] assms(3) by (cases "msg_recv p (msgq w)") auto
  have "s = sig" "mailbox p q = rest" "\<forall>p'. p' \<noteq> p \<longrightarrow> mailbox p' q = mailbox p' (msgq w)"
    using queue_channel.recv_Some [OF assms(2) sq] assms(3) by auto
  then show ?thesis using assms(1) sq
    by (intro exI [of _ q]) (simp add: receiveSignalBlocking_alt dock_free_def)
qed

lemma step_waiting_blocks:
  assumes "dock_free w" "0 < p" "mailbox p (msgq w) = []"
  shows "truck_step p r Waiting w = Blocked (OnMsg p) w"
  using assms queue_channel.recv_None [OF assms(2), of "msgq w"] by (simp add: receiveSignalBlocking_alt dock_free_def)

lemma step_departing:
  assumes "dock_free w" "in_int32 (trucks_completed (shm w) + 1)"
  shows "truck_step p r Departing w = Done Arriving (sleep_ms (route_time r)
     (if truck_id (dock_truck (shm w)) = p
      then w\<lparr>shm := (shm w)\<lparr>trucks_completed := trucks_completed (shm w) + 1,
                dock_truck := (dock_truck (shm w))\<lparr>is_present := False\<rparr>\<rparr>\<rparr>
      else w))"
  using assms by (simp add: dock_bracket depart_body_def cadd_def)

lemma step_shutting:
  assumes "dock_free w" "in_int32 (trucks_completed (shm w) + 1)"
  shows "truck_step p r ShuttingDown w = Done Leaving
     (if truck_id (dock_truck (shm w)) \<noteq> p then w
      else if dgt (current_weight (dock_truck (shm w))) (lit (1 / 10))
      then sleep_ms 3000 (w\<lparr>shm := (shm w)\<lparr>trucks_completed := trucks_completed (shm w) + 1,
                dock_truck := (dock_truck (shm w))\<lparr>is_present := False\<rparr>\<rparr>\<rparr>)
      else w\<lparr>shm := (shm w)\<lparr>dock_truck := (dock_truck (shm w))\<lparr>is_present := False\<rparr>\<rparr>\<rparr>)"
  using assms by (simp add: dock_bracket shutdown_body_def cadd_def)

lemma step_leaving:
  assumes "dock_free w"
  shows "truck_step p r Leaving w = Done Ended
     (if is_present (dock_truck (shm w)) \<and> truck_id (dock_truck (shm w)) = p
      then w\<lparr>shm := (shm w)\<lparr>dock_truck := (dock_truck (shm w))\<lparr>is_present := False\<rparr>\<rparr>\<rparr> else w)"
  using assms by (simp add: dock_bracket_leave leave_body_def)

lemma step_departing_frame:
  assumes "dock_free w" "in_int32 (trucks_completed (shm w) + 1)"
  shows "\<exists>w'. truck_step p r Departing w = Done Arriving w' \<and> dock_free w' \<and> sems w' = sems w
     \<and> running (shm w') = running (shm w)"
  unfolding step_departing [OF assms] using assms(1)
  by (intro exI conjI) (rule refl, simp_all add: sleep_ms_def dock_free_def)

lemma step_shutting_frame:
  assumes "dock_free w" "in_int32 (trucks_completed (shm w) + 1)"
  shows "\<exists>w'. truck_step p r ShuttingDown w = Done Leaving w' \<and> dock_free w' \<and> sems w' = sems w"
  unfolding step_shutting [OF assms] using assms(1)
  by (intro exI conjI) (rule refl, simp_all add: sleep_ms_def dock_free_def)

lemmas truck_steps = step_arriving step_docking step_arriving_stopped step_departing step_shutting step_leaving

declare truck_step.simps [simp del]

section \<open>Properties\<close>

text \<open>A sample world for the instances: running, with nobody at the dock.\<close>

definition plain_rolls :: rolls where
  "plain_rolls = \<lparr>roll_weight = Fin 300, roll_volume = Fin 2, roll_rand = 12345\<rparr>"

lemma boot_dock:
  "dock_free boot_world" "running (shm boot_world)" "\<not> is_present (dock_truck (shm boot_world))"
  "in_int32 (trucks_completed (shm boot_world) + 1)" "trucks_completed (shm boot_world) = 0"
  by (simp_all add: dock_free_def init_sems_def init_shm_def zero_SharedState_def zero_TruckState_def in_int32_iff)

text \<open>
  C27: one round trip.  A truck that finds the dock free docks under its pid, empty, with the item limit
  of 100 and the capacities it rolled.  Whatever the loaders do while it waits, if they keep its identity
  and send it one departure signal, it counts one completed delivery, frees the dock and is away for
  three to eight seconds.
\<close>

theorem truck_round_trip:
  assumes "dock_free w" "running (shm w)" "\<not> is_present (dock_truck (shm w))" "0 < p" "0 \<le> roll_rand r2"
    and "in_int32 (trucks_completed (shm w) + 1)"
  shows "\<exists>v t. truck_run p [(id, r), (id, r0)] Arriving w = Done Waiting v \<and> v = w\<lparr>shm := (shm w)\<lparr>dock_truck := t\<rparr>\<rparr>
     \<and> truck_id t = p \<and> is_present t \<and> current_load t = 0 \<and> current_weight t = Fin 0 \<and> current_volume t = Fin 0
     \<and> max_load t = 100 \<and> max_weight t = roll_weight r0 \<and> max_volume t = roll_volume r0
     \<and> (\<forall>e. dock_free (e v) \<and> running (shm (e v)) \<and> truck_id (dock_truck (shm (e v))) = p
           \<and> trucks_completed (shm (e v)) = trucks_completed (shm w) \<and> mailbox p (msgq (e v)) = [SIGNAL_DEPARTURE] \<longrightarrow>
         (\<exists>w'. truck_run p [(e, r1), (id, r2)] Waiting v = Done Arriving w'
            \<and> trucks_completed (shm w') = trucks_completed (shm w) + 1
            \<and> \<not> is_present (dock_truck (shm w')) \<and> dock_free w' \<and> mailbox p (msgq w') = []
            \<and> clock_ms (e v) + 3000 \<le> clock_ms w' \<and> clock_ms w' < clock_ms (e v) + 8000))"
proof -
  define t where "t = randomizeTruckSpecs p (roll_weight r0) (roll_volume r0) (dock_truck (shm w))"
  define v where "v = w\<lparr>shm := (shm w)\<lparr>dock_truck := t\<rparr>\<rparr>"
  have "truck_run p [(id, r), (id, r0)] Arriving w = Done Waiting v"
    using step_arriving [OF assms(1)] step_docking [OF assms(1)] assms(2,3) by (simp add: v_def t_def)
  moreover have "truck_id t = p \<and> is_present t \<and> current_load t = 0 \<and> current_weight t = Fin 0 \<and> current_volume t = Fin 0
      \<and> max_load t = 100 \<and> max_weight t = roll_weight r0 \<and> max_volume t = roll_volume r0"
    by (simp add: t_def randomizeTruckSpecs_def)
  moreover have "\<exists>w'. truck_run p [(e, r1), (id, r2)] Waiting v = Done Arriving w'
      \<and> trucks_completed (shm w') = trucks_completed (shm w) + 1
      \<and> \<not> is_present (dock_truck (shm w')) \<and> dock_free w' \<and> mailbox p (msgq w') = []
      \<and> clock_ms (e v) + 3000 \<le> clock_ms w' \<and> clock_ms w' < clock_ms (e v) + 8000"
    if e: "dock_free (e v)" "running (shm (e v))" "truck_id (dock_truck (shm (e v))) = p"
      "trucks_completed (shm (e v)) = trucks_completed (shm w)" "mailbox p (msgq (e v)) = [SIGNAL_DEPARTURE]" for e
  proof -
    obtain q where q: "truck_step p r1 Waiting (e v) = Done Departing ((e v)\<lparr>msgq := q\<rparr>)" "mailbox p q = []"
      using step_waiting [OF e(1) assms(4) e(5), of r1] e(2) by auto
    have "0 \<le> roll_rand r2 mod 5000" "roll_rand r2 mod 5000 < 5000" by simp_all
    then show ?thesis
      using q step_departing [of "(e v)\<lparr>msgq := q\<rparr>" p r2] e(1,3,4) assms(6)
      by (auto simp: sleep_ms_def route_time_def dock_free_def)
  qed
  ultimately show ?thesis unfolding v_def by (intro exI [of _ v] exI [of _ t]) (auto simp: v_def)
qed

theorem truck_round_trip_witness:
  "\<exists>v w'. truck_run 77 [(id, plain_rolls), (id, plain_rolls)] Arriving boot_world = Done Waiting v
     \<and> current_load (dock_truck (shm v)) = 0 \<and> max_weight (dock_truck (shm v)) = Fin 300
     \<and> truck_run 77 [(\<lambda>v. v\<lparr>msgq := msg_send 77 SIGNAL_DEPARTURE []\<rparr>, plain_rolls), (id, plain_rolls)] Waiting v = Done Arriving w'
     \<and> trucks_completed (shm w') = 1 \<and> \<not> is_present (dock_truck (shm w'))"
proof -
  define e where "e = (\<lambda>v. v\<lparr>msgq := msg_send 77 SIGNAL_DEPARTURE []\<rparr> :: world)"
  have m: "mailbox 77 (msg_send 77 SIGNAL_DEPARTURE []) = [SIGNAL_DEPARTURE]"
    by (simp add: queue_channel.box_send)
  have r: "0 \<le> roll_rand plain_rolls" "0 < (77 :: int)" by (simp_all add: plain_rolls_def)
  from truck_round_trip [OF boot_dock(1-3) r(2,1) boot_dock(4), of plain_rolls plain_rolls plain_rolls]
  obtain v t where v: "truck_run 77 [(id, plain_rolls), (id, plain_rolls)] Arriving boot_world = Done Waiting v"
    "v = boot_world\<lparr>shm := (shm boot_world)\<lparr>dock_truck := t\<rparr>\<rparr>" "truck_id t = 77" "current_load t = 0"
    "max_weight t = roll_weight plain_rolls"
    "dock_free (e v) \<and> running (shm (e v)) \<and> truck_id (dock_truck (shm (e v))) = 77
       \<and> trucks_completed (shm (e v)) = trucks_completed (shm boot_world) \<and> mailbox 77 (msgq (e v)) = [SIGNAL_DEPARTURE] \<longrightarrow>
     (\<exists>w'. truck_run 77 [(e, plain_rolls), (id, plain_rolls)] Waiting v = Done Arriving w'
        \<and> trucks_completed (shm w') = trucks_completed (shm boot_world) + 1 \<and> \<not> is_present (dock_truck (shm w')))"
    by (elim exE conjE, elim allE [of _ e]) (rule that; blast)
  have "dock_free (e v)" "running (shm (e v))" "truck_id (dock_truck (shm (e v))) = 77"
    "trucks_completed (shm (e v)) = trucks_completed (shm boot_world)" "mailbox 77 (msgq (e v)) = [SIGNAL_DEPARTURE]"
    using boot_dock(1,2) m v(3) unfolding v(2) e_def by simp_all
  with v(6) obtain w' where "truck_run 77 [(e, plain_rolls), (id, plain_rolls)] Waiting v = Done Arriving w'"
    "trucks_completed (shm w') = trucks_completed (shm boot_world) + 1" "\<not> is_present (dock_truck (shm w'))" by blast
  then show ?thesis using v(1,4,5) boot_dock(5) unfolding e_def v(2)
    by (intro exI conjI) (assumption | simp add: plain_rolls_def)+
qed

text \<open>The last steps of a truck once the system has stopped.\<close>

lemma run_ended: "truck_run p (map (Pair id) xs) Ended u = Done Ended u"
  by (induction xs) (simp_all add: truck_step.simps)

lemma run_leaving:
  assumes "dock_free u"
  shows "\<exists>w'. truck_run p (map (Pair id) (x # xs)) Leaving u = Done Ended w'
     \<and> \<not> (is_present (dock_truck (shm w')) \<and> truck_id (dock_truck (shm w')) = p) \<and> sems w' = sems u"
  using step_leaving [OF assms, of p x] by (simp add: run_ended)

lemma run_arriving_stopped:
  assumes "dock_free u" "\<not> running (shm u)"
  shows "\<exists>w'. truck_run p (map (Pair id) (x # y # xs)) Arriving u = Done Ended w'
     \<and> \<not> (is_present (dock_truck (shm w')) \<and> truck_id (dock_truck (shm w')) = p) \<and> sems w' = sems u"
  using step_arriving_stopped [OF assms(2), of p x] run_leaving [OF assms(1), of p y xs] by simp

lemma run_shutting:
  assumes "dock_free u" "in_int32 (trucks_completed (shm u) + 1)"
  shows "\<exists>w'. truck_run p (map (Pair id) (x # y # xs)) ShuttingDown u = Done Ended w'
     \<and> \<not> (is_present (dock_truck (shm w')) \<and> truck_id (dock_truck (shm w')) = p) \<and> sems w' = sems u"
proof -
  obtain u' where "truck_step p x ShuttingDown u = Done Leaving u'" "dock_free u'" "sems u' = sems u"
    using step_shutting_frame [OF assms] by blast
  then show ?thesis using run_leaving [of u' p y xs] by auto
qed

lemma truck_run_stopped:
  assumes "dock_free w" "\<not> running (shm w)" "0 < p" "in_int32 (trucks_completed (shm w) + 1)"
    and "pc = Waiting \<or> pc = Docking \<longrightarrow> mailbox p (msgq w) \<noteq> []" "4 \<le> length rs"
  shows "\<exists>w'. truck_run p (map (Pair id) rs) pc w = Done Ended w'
     \<and> \<not> (pc \<noteq> Ended \<and> is_present (dock_truck (shm w')) \<and> truck_id (dock_truck (shm w')) = p)
     \<and> sems w' = sems w"
proof -
  obtain r1 r2 r3 r4 rest where rs: "rs = r1 # r2 # r3 # r4 # rest"
    using assms(6) by (auto simp: numeral_eq_Suc Suc_le_length_iff)
  show ?thesis
  proof (cases pc)
    case Departing
    obtain u where "truck_step p r1 Departing w = Done Arriving u" "dock_free u" "\<not> running (shm u)" "sems u = sems w"
      using step_departing_frame [OF assms(1,4), of p r1] assms(2) by auto
    then show ?thesis using run_arriving_stopped [of u p r2 r3 "r4 # rest"] Departing by (auto simp: rs)
  next
    case Docking
    then obtain sig t where mb: "mailbox p (msgq w) = sig # t" using assms(5) by (cases "mailbox p (msgq w)") auto
    show ?thesis
    proof (cases "is_present (dock_truck (shm w))")
      case True
      then show ?thesis using run_arriving_stopped [of "sleep_ms 1000 w" p r2 r3 "r4 # rest"] assms(1,2) Docking
          step_docking [OF assms(1), of p r1] by (auto simp: rs)
    next
      case False
      define v where "v = w\<lparr>shm := (shm w)\<lparr>dock_truck :=
        randomizeTruckSpecs p (roll_weight r1) (roll_volume r1) (dock_truck (shm w))\<rparr>\<rparr>"
      have v: "truck_step p r1 Docking w = Done Waiting v" "dock_free v" "\<not> running (shm v)" "sems v = sems w"
        "in_int32 (trucks_completed (shm v) + 1)" "msgq v = msgq w"
        using step_docking [OF assms(1), of p r1] False assms(1,2,4) by (simp_all add: v_def)
      obtain q where "truck_step p r2 Waiting v = Done ShuttingDown (v\<lparr>msgq := q\<rparr>)"
        using step_waiting [OF v(2) assms(3), of sig t r2] v(3,6) mb by auto
      then show ?thesis using run_shutting [of "v\<lparr>msgq := q\<rparr>" p r3 r4 rest] v Docking by (simp add: rs)
    qed
  next
    case Waiting
    then obtain sig t where "mailbox p (msgq w) = sig # t" using assms(5) by (cases "mailbox p (msgq w)") auto
    then obtain q where "truck_step p r1 Waiting w = Done ShuttingDown (w\<lparr>msgq := q\<rparr>)"
      using step_waiting [OF assms(1,3), of sig t r1] assms(2) by auto
    then show ?thesis using run_shutting [of "w\<lparr>msgq := q\<rparr>" p r2 r3 "r4 # rest"] assms(1,4) Waiting by (simp add: rs)
  next
    case Arriving
    then show ?thesis using run_arriving_stopped [OF assms(1,2), of p r1 r2 "r3 # r4 # rest"] by (simp add: rs)
  next
    case ShuttingDown
    then show ?thesis using run_shutting [OF assms(1,4), of p r1 r2 "r3 # r4 # rest"] by (simp add: rs)
  next
    case Leaving
    then show ?thesis using run_leaving [OF assms(1), of p r1 "r2 # r3 # r4 # rest"] by (simp add: rs)
  next
    case Ended
    then show ?thesis using run_ended [of p rs w] by simp
  qed
qed

text \<open>
  A stopped system lets every truck end.  Once \<open>running\<close> is false, a truck at any point of its loop
  returns from \<open>run\<close> within four steps and leaves the dock, except that one that waits for a
  signal, or is about to dock, needs a message to wake it up.
\<close>

theorem truck_terminates:
  assumes "dock_free w" "\<not> running (shm w)" "0 < p" "in_int32 (trucks_completed (shm w) + 1)"
    and "pc = Waiting \<or> pc = Docking \<longrightarrow> mailbox p (msgq w) \<noteq> []" "4 \<le> length rs"
  shows "\<exists>w'. truck_run p (map (Pair id) rs) pc w = Done Ended w'
     \<and> \<not> (pc \<noteq> Ended \<and> is_present (dock_truck (shm w')) \<and> truck_id (dock_truck (shm w')) = p)
     \<and> sems w' = sems w"
  using truck_run_stopped [OF assms] .

theorem truck_terminates_witness:
  "\<exists>w'. truck_run 77 (map (Pair id) (replicate 4 plain_rolls)) Departing
       (boot_world\<lparr>shm := (shm boot_world)\<lparr>running := False\<rparr>\<rparr>) = Done Ended w'"
proof -
  have "dock_free (boot_world\<lparr>shm := (shm boot_world)\<lparr>running := False\<rparr>\<rparr>)"
    "in_int32 (trucks_completed (shm (boot_world\<lparr>shm := (shm boot_world)\<lparr>running := False\<rparr>\<rparr>)) + 1)"
    using boot_dock by simp_all
  from truck_terminates [OF this(1) _ _ this(2), of 77 Departing "replicate 4 plain_rolls"]
  show ?thesis by auto
qed

text \<open>
  How a waiting truck reacts to the end-of-work signal.  A load of more than 0.1 kg is delivered:
  it is counted, the dock is freed and the trip takes three seconds.  A lighter load is not counted,
  even when packages are on board, although the documentation promises a last delivery for any
  positive weight.
\<close>

theorem truck_end_of_work:
  assumes "dock_free w" "running (shm w)" "0 < p" "truck_id (dock_truck (shm w)) = p"
    and "mailbox p (msgq w) = [SIGNAL_END_WORK]" "in_int32 (trucks_completed (shm w) + 1)"
  shows "\<exists>w'. truck_run p [(id, r1), (id, r2), (id, r3)] Waiting w = Done Ended w'
     \<and> \<not> is_present (dock_truck (shm w'))
     \<and> (if dlt (lit (1 / 10)) (current_weight (dock_truck (shm w)))
        then trucks_completed (shm w') = trucks_completed (shm w) + 1 \<and> clock_ms w' = clock_ms w + 3000
        else trucks_completed (shm w') = trucks_completed (shm w) \<and> clock_ms w' = clock_ms w)"
proof -
  obtain q where q: "truck_step p r1 Waiting w = Done ShuttingDown (w\<lparr>msgq := q\<rparr>)"
    using step_waiting [OF assms(1,3,5), of r1] by auto
  define u where "u = w\<lparr>msgq := q\<rparr>"
  have u: "dock_free u" "in_int32 (trucks_completed (shm u) + 1)" "shm u = shm w" "clock_ms u = clock_ms w"
    using assms by (simp_all add: u_def)
  show ?thesis
    using q step_shutting [OF u(1,2), of p r2] step_leaving [of _ p r3] assms(4) u
    by (auto simp: u_def [symmetric] sleep_ms_def dock_free_def)
qed

text \<open>A docked truck with one package of exactly 0.1 kg, the lightest that the workers produce.\<close>

definition light_load :: world where
  "light_load = boot_world\<lparr>shm := (shm boot_world)\<lparr>dock_truck :=
     (randomizeTruckSpecs 77 (Fin 300) (Fin 2) zero_TruckState)\<lparr>current_load := 1, current_weight := lit (1 / 10)\<rparr>\<rparr>,
     msgq := msg_send 77 SIGNAL_END_WORK []\<rparr>"

theorem truck_end_of_work_witness:
  "\<exists>w'. truck_run 77 [(id, plain_rolls), (id, plain_rolls), (id, plain_rolls)] Waiting light_load = Done Ended w'
     \<and> current_load (dock_truck (shm light_load)) = 1 \<and> trucks_completed (shm w') = trucks_completed (shm light_load)"
proof -
  have l: "dock_free light_load" "running (shm light_load)" "truck_id (dock_truck (shm light_load)) = 77"
    "mailbox 77 (msgq light_load) = [SIGNAL_END_WORK]" "in_int32 (trucks_completed (shm light_load) + 1)"
    "current_weight (dock_truck (shm light_load)) = lit (1 / 10)" "current_load (dock_truck (shm light_load)) = 1"
    using boot_dock by (simp_all add: light_load_def queue_channel.box_send randomizeTruckSpecs_def)
  have "\<not> dlt (lit (1 / 10)) (lit (1 / 10))" by (simp add: dlt_iff)
  then show ?thesis
    using truck_end_of_work [OF l(1,2) _ l(3-5), of plain_rolls plain_rolls plain_rolls] l(6,7) by auto
qed

text \<open>
  A truck that waits for its signal leaves the dock on every return of \<open>msgrcv\<close> other than the
  end-of-work message while the system runs.  In particular an interrupted system call counts as a
  departure order: the truck leaves with whatever it has on board, and the delivery is counted.
\<close>

theorem interrupted_truck_departs:
  assumes "attached w" "kernel w = [Some e]" "0 < sems w SEM_DOCK_MUTEX" "running (shm w)"
    and "truck_id (dock_truck (shm w)) = p" "in_int32 (trucks_completed (shm w) + 1)"
  shows "\<exists>w'. truck_run p [(id, r1), (id, r2)] Waiting w = Done Arriving w'
     \<and> trucks_completed (shm w') = trucks_completed (shm w) + 1
     \<and> \<not> is_present (dock_truck (shm w')) \<and> msgq w' = msgq w"
proof -
  have "truck_step p r1 Waiting w = Done Departing (w\<lparr>kernel := []\<rparr>)"
    using assms(2,4) by (simp add: truck_step.simps receiveSignalBlocking_def)
  moreover have "dock_free (w\<lparr>kernel := []\<rparr>)" using assms by (simp add: dock_free_def)
  ultimately show ?thesis using step_departing [of "w\<lparr>kernel := []\<rparr>" p r2] assms(5,6)
    by (auto simp: sleep_ms_def)
qed

theorem interrupted_truck_departs_witness:
  "\<exists>w'. truck_run 77 [(id, plain_rolls), (id, plain_rolls)] Waiting (light_load\<lparr>msgq := [], kernel := [Some EINTR]\<rparr>)
        = Done Arriving w' \<and> trucks_completed (shm w') = 1"
proof -
  have "\<exists>w'. truck_run 77 [(id, plain_rolls), (id, plain_rolls)] Waiting (light_load\<lparr>msgq := [], kernel := [Some EINTR]\<rparr>)
        = Done Arriving w' \<and> trucks_completed (shm w') = trucks_completed (shm boot_world) + 1"
    using interrupted_truck_departs [of "light_load\<lparr>msgq := [], kernel := [Some EINTR]\<rparr>" EINTR 77 plain_rolls plain_rolls]
      boot_dock
    by (auto simp: light_load_def dock_free_def randomizeTruckSpecs_def)
  then show ?thesis unfolding boot_dock(5) by simp
qed

text \<open>
  A departure signal that is left over from an earlier stop is obeyed at the next one.  The
  dispatcher repeats the signal every 200 ms until the truck is gone; a truck with such a signal in
  its mailbox docks, departs at once without a single package and counts the empty trip as a
  completed delivery.
\<close>

theorem stale_departure_leaves_empty:
  assumes "dock_free w" "running (shm w)" "\<not> is_present (dock_truck (shm w))" "0 < p"
    and "mailbox p (msgq w) = SIGNAL_DEPARTURE # rest" "in_int32 (trucks_completed (shm w) + 1)"
  shows "\<exists>w'. truck_run p [(id, r), (id, r0), (id, r1), (id, r2)] Arriving w = Done Arriving w'
     \<and> trucks_completed (shm w') = trucks_completed (shm w) + 1
     \<and> current_load (dock_truck (shm w')) = 0 \<and> current_weight (dock_truck (shm w')) = Fin 0
     \<and> mailbox p (msgq w') = rest"
proof -
  define v where "v = w\<lparr>shm := (shm w)\<lparr>dock_truck := randomizeTruckSpecs p (roll_weight r0) (roll_volume r0) (dock_truck (shm w))\<rparr>\<rparr>"
  have v: "truck_step p r Arriving w = Done Docking w" "truck_step p r0 Docking w = Done Waiting v"
    "dock_free v" "running (shm v)" "msgq v = msgq w"
    using step_arriving [OF assms(1)] step_docking [OF assms(1)] assms by (simp_all add: v_def)
  obtain q where q: "truck_step p r1 Waiting v = Done Departing (v\<lparr>msgq := q\<rparr>)" "mailbox p q = rest"
    using step_waiting [OF v(3) assms(4), of SIGNAL_DEPARTURE rest r1] assms(5) v(4,5) by auto
  show ?thesis using v(1,2) q step_departing [of "v\<lparr>msgq := q\<rparr>" p r2] v(3) assms(6)
    by (auto simp: sleep_ms_def v_def randomizeTruckSpecs_def)
qed

theorem stale_departure_leaves_empty_witness:
  "\<exists>w'. truck_run 77 [(id, plain_rolls), (id, plain_rolls), (id, plain_rolls), (id, plain_rolls)] Arriving
        (boot_world\<lparr>msgq := msg_send 77 SIGNAL_DEPARTURE []\<rparr>) = Done Arriving w'
     \<and> current_load (dock_truck (shm w')) = 0 \<and> mailbox 77 (msgq w') = []"
proof -
  have "mailbox 77 (msg_send 77 SIGNAL_DEPARTURE []) = [SIGNAL_DEPARTURE]"
    by (simp add: queue_channel.box_send)
  then show ?thesis
    using stale_departure_leaves_empty [of "boot_world\<lparr>msgq := msg_send 77 SIGNAL_DEPARTURE []\<rparr>" 77 "[]"] boot_dock
    by fastforce
qed

end
