(* ===== verification/Dispatcher.thy ===== *)
theory Dispatcher
  imports Belt Truck
begin

text \<open>
  \<open>include/Dispatcher.h\<close>: moving packages from the belt to the docked truck.

  \<open>load_attempt\<close> is the body of the retry loop between \<open>lock_dock_fn\<close> and \<open>unlock_dock_fn\<close>.  The loop
  itself waits for other processes: during each pause of 200 ms they may change the world, and the
  loop is given the list of these changes.  \<open>None\<close> means that the list was used up while the loop
  was still retrying, so that a claim that the loop ends names a list that is long enough.
\<close>

definition put_package :: "Package \<Rightarrow> TruckState \<Rightarrow> TruckState" where
  "put_package pkg t = t\<lparr>current_weight := dadd (current_weight t) (weight pkg),
     current_volume := dadd (current_volume t) (volume pkg), current_load := current_load t + 1\<rparr>"

definition limit_reached :: "TruckState \<Rightarrow> bool" where
  "limit_reached t \<longleftrightarrow> max_load t \<le> current_load t
     \<or> dge (current_weight t) (dmul (max_weight t) (lit (99 / 100)))
     \<or> dge (current_volume t) (dmul (max_volume t) (lit (99 / 100)))"

definition load_attempt :: "Package \<Rightarrow> world \<Rightarrow> bool outcome" where
  "load_attempt pkg w =
     (let t = dock_truck (shm w) in
      if is_present t then
        (if fits_weight t (weight pkg) \<and> fits_volume t (volume pkg) then
           (case cadd (current_load t) 1 of None \<Rightarrow> UB | Some n \<Rightarrow>
             (let t' = put_package pkg t; w' = w\<lparr>shm := (shm w)\<lparr>dock_truck := t'\<rparr>\<rparr> in
              if limit_reached t'
              then obind (sendSignal (truck_id t') SIGNAL_DEPARTURE w') (\<lambda>_ w2. Done True w2)
              else Done True w'))
         else obind (sendSignal (truck_id t) SIGNAL_DEPARTURE w) (\<lambda>_ w2. Done False w2))
      else Done False w)"

fun load_loop :: "(world \<Rightarrow> world) list \<Rightarrow> Package \<Rightarrow> world \<Rightarrow> bool outcome option" where
  "load_loop envs pkg w =
     (if \<not> running (shm w) then Some (Done False w)
      else (case with_lock lockDock unlockDock (load_attempt pkg) w of
              Done loaded w1 \<Rightarrow>
                (if loaded then Some (Done True w1)
                 else (case envs of [] \<Rightarrow> None | e # es \<Rightarrow> load_loop es pkg (e (sleep_ms 200 w1))))
            | res \<Rightarrow> Some res))"

text \<open>
  One call.  The result is the final value of the local variable \<open>loaded\<close>, with the package that was
  taken from the belt.
\<close>

definition processNextPackage :: "(world \<Rightarrow> world) list \<Rightarrow> world \<Rightarrow> (Package \<times> bool) outcome option" where
  "processNextPackage envs w =
     (case pop w of
        Done pkg w1 \<Rightarrow>
          (if pkg_id pkg = 0
           then (if \<not> attached w1 then Some UB
                 else Some (Done (pkg, False) (if running (shm w1) then sleep_ms 100 w1 else w1)))
           else map_option (\<lambda>r. obind r (\<lambda>loaded w2. Done (pkg, loaded) w2)) (load_loop envs pkg w1))
      | Blocked p w1 \<Rightarrow> Some (Blocked p w1)
      | Exited e w1 \<Rightarrow> Some (Exited e w1)
      | UB \<Rightarrow> Some UB)"

text \<open>The service loop; each round gets its own list of changes by other processes.\<close>

fun dispatcher_run :: "(world \<Rightarrow> world) list list \<Rightarrow> world \<Rightarrow> unit outcome option" where
  "dispatcher_run rounds w =
     (if \<not> (attached w \<and> running (shm w)) then Some (Done () w)
      else (case rounds of [] \<Rightarrow> None | envs # rest \<Rightarrow>
        (case processNextPackage envs w of
           None \<Rightarrow> None
         | Some (Done _ w1) \<Rightarrow> dispatcher_run rest w1
         | Some (Blocked p w1) \<Rightarrow> Some (Blocked p w1)
         | Some (Exited e w1) \<Rightarrow> Some (Exited e w1)
         | Some UB \<Rightarrow> Some UB)))"

declare load_loop.simps [simp del] dispatcher_run.simps [simp del]

section \<open>One attempt\<close>

interpretation package_loader: loader put_package weight volume
  by unfold_locales (simp_all add: put_package_def)

lemma load_attempt_locked:
  assumes "dock_ready w"
  shows "with_lock lockDock unlockDock (load_attempt pkg) w =
     (let t = dock_truck (shm w) in
      if \<not> is_present t then Done False w
      else if fits t (weight pkg) (volume pkg) then
        (let w' = with_truck (put_package pkg t) w
         in Done True (if limit_reached (put_package pkg t) then depart_sent w' else w'))
      else Done False (depart_sent w))"
proof -
  define wl where "wl = w\<lparr>sems := (sems w)(SEM_DOCK_MUTEX := sems w SEM_DOCK_MUTEX - 1)\<rparr>"
  have r: "kernel w = []" "0 < sems w SEM_DOCK_MUTEX" using assms by (auto simp: dock_ready_def)
  have wl: "kernel wl = []" "msg_room wl" "shm wl = shm w" "msgq wl = msgq w"
    "is_present (dock_truck (shm w)) \<Longrightarrow> 0 < truck_id (dock_truck (shm w)) \<and> in_int32 (current_load (dock_truck (shm w)) + 1)"
    using assms by (auto simp: wl_def dock_ready_def msg_room_def)
  have room: "msg_room (wl\<lparr>shm := s\<rparr>)" for s using wl(2) by (simp add: msg_room_def)
  have un: "unlockDock w2 = Done () (w2\<lparr>sems := sems w\<rparr>)" if "kernel w2 = []" "sems w2 = sems wl" for w2
    using dock_mutex.unlock_gives [of w2] that r by (simp add: wl_def)
  have wl_back: "wl\<lparr>sems := sems w\<rparr> = w" "wl\<lparr>shm := s, sems := sems w\<rparr> = w\<lparr>shm := s\<rparr>"
    "wl\<lparr>msgq := q, sems := sems w\<rparr> = w\<lparr>msgq := q\<rparr>"
    "wl\<lparr>shm := s, msgq := q, sems := sems w\<rparr> = w\<lparr>shm := s, msgq := q\<rparr>" for s q
    by (simp_all add: wl_def)
  show ?thesis
    unfolding with_lock_def dock_mutex.lock_free [OF r] wl_def [symmetric]
    using wl room
    by (simp add: load_attempt_def Let_def cadd_def sendSignal_ok package_loader.put_frame
        un wl_back depart_sent_def with_truck_def)
qed

lemma load_loop_done:
  assumes "running (shm w)" "dock_ready w" "is_present (dock_truck (shm w))"
    "fits (dock_truck (shm w)) (weight pkg) (volume pkg)"
  shows "\<exists>w'. load_loop envs pkg w = Some (Done True w')
     \<and> dock_truck (shm w') = put_package pkg (dock_truck (shm w)) \<and> sems w' = sems w
     \<and> shm w' = (shm w)\<lparr>dock_truck := put_package pkg (dock_truck (shm w))\<rparr>
     \<and> msgq w' = (if limit_reached (put_package pkg (dock_truck (shm w)))
          then msg_send (truck_id (dock_truck (shm w))) SIGNAL_DEPARTURE (msgq w) else msgq w)"
  using assms load_attempt_locked [OF assms(2), of pkg]
  by (subst load_loop.simps) (auto simp: Let_def depart_sent_def with_truck_def package_loader.put_frame)

lemma load_loop_retry:
  assumes "running (shm w)" "dock_ready w"
    "\<not> (is_present (dock_truck (shm w)) \<and> fits (dock_truck (shm w)) (weight pkg) (volume pkg))"
  shows "load_loop (e # es) pkg w =
     load_loop es pkg (e (sleep_ms 200 (if is_present (dock_truck (shm w)) then depart_sent w else w)))"
  using assms load_attempt_locked [OF assms(2), of pkg]
  by (subst load_loop.simps) (auto simp: Let_def)

section \<open>From the belt to the truck\<close>

lemma pop_for_dispatch:
  assumes "belt_quiet w" "belt_inv (shm w)" "belt_contents (shm w) = p # ps" "dock_ready w"
  shows "\<exists>w1. pop w = Done p w1 \<and> belt_quiet w1 \<and> belt_inv (shm w1) \<and> belt_contents (shm w1) = ps
     \<and> dock_ready w1 \<and> same_elsewhere (shm w) (shm w1) \<and> msgq w1 = msgq w
     \<and> total_packages_created (shm w1) = total_packages_created (shm w)"
proof -
  have "0 < current_items_count (shm w)" using belt_count [OF assms(2)] assms(3) by simp
  then obtain w1 where "pop w = Done p w1" "belt_quiet w1" "belt_inv (shm w1)" "p # ps = p # belt_contents (shm w1)"
    "same_elsewhere (shm w) (shm w1)" "msgq w1 = msgq w" "msg_qbytes w1 = msg_qbytes w"
    "total_packages_created (shm w1) = total_packages_created (shm w)"
    "sems w1 SEM_DOCK_MUTEX = sems w SEM_DOCK_MUTEX"
    using pop_quiet [OF assms(1,2)] assms(3) by auto
  then show ?thesis using assms(4)
    by (auto simp: dock_ready_def belt_quiet_def same_elsewhere_def msg_room_def)
qed

lemma same_elsewhere_running:
  "same_elsewhere s s' \<Longrightarrow> running s' = running s \<and> dock_truck s' = dock_truck s \<and> users s' = users s"
  by (simp add: same_elsewhere_def)

section \<open>Trucks that come and go while the dispatcher waits\<close>

text \<open>
  What the trucks do during one pause, made of the steps of \<open>Truck::run\<close>: the docked truck tries to
  receive a signal and leaves if there is one (without a signal it stays); then the truck with pid \<open>p\<close>,
  which rolls \<open>r\<close>, tries to dock.
\<close>

definition truck_comes :: "pid_t \<times> rolls \<Rightarrow> world \<Rightarrow> world" where
  "truck_comes x v = (case x of (p, r) \<Rightarrow>
     let t = dock_truck (shm v);
         v1 = (if is_present t
               then (case truck_run (truck_id t) [(id, r), (id, r)] Waiting v of Done pc u \<Rightarrow> u | _ \<Rightarrow> v)
               else v)
     in case truck_step p r Docking v1 of Done pc u \<Rightarrow> u | _ \<Rightarrow> v1)"

text \<open>The truck as it is when it has docked.\<close>

definition arrived :: "pid_t \<times> rolls \<Rightarrow> TruckState" where
  "arrived x = randomizeTruckSpecs (fst x) (roll_weight (snd x)) (roll_volume (snd x)) zero_TruckState"

lemma randomize_any: "randomizeTruckSpecs p (roll_weight r) (roll_volume r) t = arrived (p, r)"
  by (cases t) (simp add: arrived_def randomizeTruckSpecs_def zero_TruckState_def)

lemma arrived_simps [simp]:
  "is_present (arrived x)" "truck_id (arrived x) = fst x" "current_load (arrived x) = 0"
  by (simp_all add: arrived_def randomizeTruckSpecs_def)

text \<open>The world before an attempt: nobody holds the dock, and no truck has been told to end its work.\<close>

definition retry_ready :: "nat \<Rightarrow> world \<Rightarrow> bool" where
  "retry_ready n w \<longleftrightarrow> dock_free w \<and> dock_ready w \<and> running (shm w)
     \<and> (\<forall>q. SIGNAL_END_WORK \<notin> set (mailbox q (msgq w)))
     \<and> 0 \<le> trucks_completed (shm w) \<and> trucks_completed (shm w) + int n \<le> INT32_MAX"

lemma msg_recv_length:
  assumes "0 < p" "msg_recv p q = Some (s, q')"
  shows "length q = Suc (length q')"
  using msg_take_pos [OF assms(1), of q] assms(2) by (auto simp: msg_recv_def)

text \<open>The docked truck takes the signal it has been sent and leaves.\<close>

lemma docked_truck_leaves:
  assumes rr: "retry_ready (Suc n) w" and t: "is_present (dock_truck (shm w))"
  shows "\<exists>v. truck_run (truck_id (dock_truck (shm w))) [(id, r), (id, r)] Waiting (sleep_ms 200 (depart_sent w)) = Done Arriving v
     \<and> retry_ready n v \<and> shm v = (shm w)\<lparr>trucks_completed := trucks_completed (shm v), dock_truck := dock_truck (shm v)\<rparr>
     \<and> \<not> is_present (dock_truck (shm v)) \<and> sems v = sems w"
proof -
  define p where "p = truck_id (dock_truck (shm w))"
  define u where "u = sleep_ms 200 (depart_sent w)"
  have p: "0 < p" using rr t by (simp add: p_def retry_ready_def dock_ready_def)
  obtain s q where sq: "msg_recv p (msg_send p SIGNAL_DEPARTURE (msgq w)) = Some (s, q)"
    using queue_channel.recv_None [OF p, of "msg_send p SIGNAL_DEPARTURE (msgq w)"]
    by (cases "msg_recv p (msg_send p SIGNAL_DEPARTURE (msgq w))") (auto simp: queue_channel.box_send)
  have u: "dock_free u" "shm u = shm w" "msgq u = msg_send p SIGNAL_DEPARTURE (msgq w)" "sems u = sems w"
    using rr by (simp_all add: u_def depart_sent_def p_def retry_ready_def dock_free_def sleep_ms_def)
  have box: "SIGNAL_END_WORK \<notin> set (mailbox p' (msgq u))" for p'
    using rr by (simp add: u(3) queue_channel.box_send retry_ready_def)
  have s: "s \<noteq> SIGNAL_END_WORK" "\<forall>p'. SIGNAL_END_WORK \<notin> set (mailbox p' q)"
    using queue_channel.recv_Some [OF p sq] box unfolding u(3) by (metis list.set_intros)+
  have len: "length q = length (msgq w)" using msg_recv_length [OF p sq] by (simp add: msg_send_def)
  have "truck_step p r Waiting u = Done Departing (u\<lparr>msgq := q\<rparr>)"
    using u sq s(1) rr by (simp add: truck_step.simps receiveSignalBlocking_alt dock_free_def retry_ready_def)
  moreover have "in_int32 (trucks_completed (shm w) + 1)" using rr by (simp add: retry_ready_def in_int32_iff INT32_MAX_def)
  ultimately have "truck_run p [(id, r), (id, r)] Waiting u = Done Arriving (sleep_ms (route_time r)
      (u\<lparr>msgq := q, shm := (shm w)\<lparr>trucks_completed := trucks_completed (shm w) + 1,
         dock_truck := (dock_truck (shm w))\<lparr>is_present := False\<rparr>\<rparr>\<rparr>))"
    using step_departing [of "u\<lparr>msgq := q\<rparr>" p r] u by (simp add: p_def)
  then show ?thesis using rr s(2) len u
    by (simp add: p_def [symmetric] u_def [symmetric] retry_ready_def dock_ready_def dock_free_def msg_room_def sleep_ms_def)
      (simp add: u_def depart_sent_def sleep_ms_def)
qed

lemma truck_comes_docks:
  assumes rr: "retry_ready (Suc n) w" and p: "0 < fst x"
  defines "v \<equiv> truck_comes x (sleep_ms 200 (if is_present (dock_truck (shm w)) then depart_sent w else w))"
  shows "retry_ready n v \<and> dock_truck (shm v) = arrived x \<and> sems v = sems w
     \<and> shm v = (shm w)\<lparr>trucks_completed := trucks_completed (shm v), dock_truck := arrived x\<rparr>"
proof -
  obtain q r where x: "x = (q, r)" by (cases x)
  have docks: "truck_step q r Docking v1 = Done Waiting (v1\<lparr>shm := (shm v1)\<lparr>dock_truck := arrived x\<rparr>\<rparr>)
      \<and> retry_ready n (v1\<lparr>shm := (shm v1)\<lparr>dock_truck := arrived x\<rparr>\<rparr>)"
    if "retry_ready n v1" "\<not> is_present (dock_truck (shm v1))" for v1
    using that p step_docking [of v1 q r] by (simp add: retry_ready_def dock_ready_def randomize_any x in_int32_iff msg_room_def)
  show ?thesis
  proof (cases "is_present (dock_truck (shm w))")
    case True
    obtain v1 where "truck_run (truck_id (dock_truck (shm w))) [(id, r), (id, r)] Waiting (sleep_ms 200 (depart_sent w)) = Done Arriving v1"
      "retry_ready n v1" "\<not> is_present (dock_truck (shm v1))" "sems v1 = sems w"
      "shm v1 = (shm w)\<lparr>trucks_completed := trucks_completed (shm v1), dock_truck := dock_truck (shm v1)\<rparr>"
      using docked_truck_leaves [OF rr True, of r] by blast
    note v1 = this
    have "dock_truck (shm (sleep_ms 200 (depart_sent w))) = dock_truck (shm w)" by (simp add: depart_sent_def)
    then have "v = v1\<lparr>shm := (shm v1)\<lparr>dock_truck := arrived x\<rparr>\<rparr>"
      using v1(1) True docks [OF v1(2,3)] unfolding v_def x truck_comes_def Let_def by simp
    moreover have "(shm v1)\<lparr>dock_truck := arrived x\<rparr> = (shm w)\<lparr>trucks_completed := trucks_completed (shm v1), dock_truck := arrived x\<rparr>"
      by (subst v1(5)) simp
    ultimately show ?thesis using docks [OF v1(2,3)] v1(4) by simp
  next
    case False
    have "retry_ready n (sleep_ms 200 w)"
      using rr by (simp add: retry_ready_def dock_ready_def msg_room_def) (simp add: sleep_ms_def)
    from docks [OF this] False show ?thesis
      by (simp add: v_def x truck_comes_def)
  qed
qed

lemma load_loop_trucks:
  assumes "retry_ready (Suc (length xs)) w" "\<forall>x \<in> set (xs @ [good]). 0 < fst x"
    and "\<forall>t \<in> set (dock_truck (shm w) # map arrived xs). \<not> (is_present t \<and> fits t (weight pkg) (volume pkg))"
    and "fits (arrived good) (weight pkg) (volume pkg)"
  shows "\<exists>w' c. load_loop (map truck_comes (xs @ [good])) pkg w = Some (Done True w')
     \<and> shm w' = (shm w)\<lparr>trucks_completed := c, dock_truck := put_package pkg (arrived good)\<rparr>
     \<and> sems w' SEM_DOCK_MUTEX = sems w SEM_DOCK_MUTEX"
  using assms
proof (induction xs arbitrary: w)
  case Nil
  define v where "v = truck_comes good (sleep_ms 200 (if is_present (dock_truck (shm w)) then depart_sent w else w))"
  have v: "retry_ready 0 v" "dock_truck (shm v) = arrived good" "sems v = sems w"
    "shm v = (shm w)\<lparr>trucks_completed := trucks_completed (shm v), dock_truck := arrived good\<rparr>"
    using truck_comes_docks [of 0 w good] Nil.prems(1,2) by (auto simp: v_def)
  have r: "running (shm w)" "dock_ready w" "running (shm v)" "dock_ready v" using Nil.prems(1) v(1) by (simp_all add: retry_ready_def)
  have "load_loop (map truck_comes ([] @ [good])) pkg w = load_loop [] pkg v"
    using load_loop_retry [OF r(1,2)] Nil.prems(3) by (simp add: v_def)
  then obtain w' where "load_loop (map truck_comes ([] @ [good])) pkg w = Some (Done True w')" "sems w' = sems v"
    "shm w' = (shm v)\<lparr>dock_truck := put_package pkg (arrived good)\<rparr>"
    using load_loop_done [OF r(3,4), of pkg "[]"] v(2) Nil.prems(4) by auto
  moreover have "(shm v)\<lparr>dock_truck := put_package pkg (arrived good)\<rparr> =
      (shm w)\<lparr>trucks_completed := trucks_completed (shm v), dock_truck := put_package pkg (arrived good)\<rparr>"
    by (subst v(4)) simp
  ultimately show ?case using v(3) by metis
next
  case (Cons x xs)
  define v where "v = truck_comes x (sleep_ms 200 (if is_present (dock_truck (shm w)) then depart_sent w else w))"
  have v: "retry_ready (Suc (length xs)) v" "dock_truck (shm v) = arrived x" "sems v = sems w"
    "shm v = (shm w)\<lparr>trucks_completed := trucks_completed (shm v), dock_truck := arrived x\<rparr>"
    using truck_comes_docks [of "Suc (length xs)" w x] Cons.prems(1,2) by (auto simp: v_def)
  have r: "running (shm w)" "dock_ready w" using Cons.prems(1) by (simp_all add: retry_ready_def)
  have "load_loop (map truck_comes ((x # xs) @ [good])) pkg w = load_loop (map truck_comes (xs @ [good])) pkg v"
    using load_loop_retry [OF r] Cons.prems(3) by (simp add: v_def)
  moreover obtain w' c where "load_loop (map truck_comes (xs @ [good])) pkg v = Some (Done True w')"
    "shm w' = (shm v)\<lparr>trucks_completed := c, dock_truck := put_package pkg (arrived good)\<rparr>"
    "sems w' SEM_DOCK_MUTEX = sems v SEM_DOCK_MUTEX"
    using Cons.IH [OF v(1)] Cons.prems(2-4) v(2) by auto
  moreover have "(shm v)\<lparr>trucks_completed := c, dock_truck := put_package pkg (arrived good)\<rparr> =
      (shm w)\<lparr>trucks_completed := c, dock_truck := put_package pkg (arrived good)\<rparr>"
    by (subst v(4)) simp
  ultimately show ?case using v(3) by metis
qed

section \<open>Properties\<close>

lemma processNextPackage_loads:
  assumes "belt_quiet w" "belt_inv (shm w)" "belt_contents (shm w) = p # ps" "pkg_id p \<noteq> 0"
    and "running (shm w)" "dock_ready w" "dock_truck (shm w) = t" "is_present t"
    and "fits t (weight p) (volume p)"
  shows "\<exists>w'. processNextPackage envs w = Some (Done (p, True) w') \<and> belt_inv (shm w')
     \<and> belt_contents (shm w') = ps \<and> dock_truck (shm w') = put_package p t
     \<and> msgq w' = (if limit_reached (put_package p t)
                  then msg_send (truck_id t) SIGNAL_DEPARTURE (msgq w) else msgq w)"
proof -
  obtain w1 where w1: "pop w = Done p w1" "belt_inv (shm w1)" "belt_contents (shm w1) = ps"
    "dock_ready w1" "same_elsewhere (shm w) (shm w1)" "msgq w1 = msgq w"
    using pop_for_dispatch [OF assms(1-3,6)] by blast
  have s1: "running (shm w1)" "dock_truck (shm w1) = t"
    using same_elsewhere_running [OF w1(5)] assms(5,7) by auto
  obtain w' where w': "load_loop envs p w1 = Some (Done True w')"
    "shm w' = (shm w1)\<lparr>dock_truck := put_package p t\<rparr>"
    "msgq w' = (if limit_reached (put_package p t)
                  then msg_send (truck_id t) SIGNAL_DEPARTURE (msgq w1) else msgq w1)"
    using load_loop_done [OF s1(1) w1(4)] s1(2) assms(8,9) by auto
  have "belt_inv (shm w') = belt_inv (shm w1)" "belt_contents (shm w') = belt_contents (shm w1)"
    by (simp_all add: w'(2) belt_inv_def belt_contents_def)
  then show ?thesis using w' w1 assms(4) by (simp add: processNextPackage_def)
qed

text \<open>
  C16: the dispatcher's fast path.  With a package \<open>p\<close> at the head of the belt and a truck at the dock
  whose weight and volume limits it keeps, one call of \<open>processNextPackage\<close> takes exactly that package
  off the belt, adds its weight, its volume and one item to the counters of the truck, leaves the rest of
  the truck alone, and signals the truck to depart exactly when the new item count has reached
  \<open>max_load\<close> or the new weight or volume 99 percent of its limit.
\<close>

theorem dispatch_loads_head:
  assumes "belt_quiet w" "belt_inv (shm w)" "belt_contents (shm w) = p # ps" "pkg_id p \<noteq> 0"
    and "running (shm w)" "dock_ready w" "dock_truck (shm w) = t" "is_present t"
    and "dle (dadd (current_weight t) (weight p)) (max_weight t)" "dle (dadd (current_volume t) (volume p)) (max_volume t)"
  shows "\<exists>w'. processNextPackage envs w = Some (Done (p, True) w') \<and> belt_inv (shm w')
     \<and> belt_contents (shm w') = ps
     \<and> dock_truck (shm w') = t\<lparr>current_weight := dadd (current_weight t) (weight p),
          current_volume := dadd (current_volume t) (volume p), current_load := current_load t + 1\<rparr>
     \<and> msgq w' = (if max_load t \<le> current_load t + 1
            \<or> dge (dadd (current_weight t) (weight p)) (dmul (max_weight t) (lit (99 / 100)))
            \<or> dge (dadd (current_volume t) (volume p)) (dmul (max_volume t) (lit (99 / 100)))
          then msgq w @ [\<lparr>mtype = truck_id t, command_id = signal_id SIGNAL_DEPARTURE\<rparr>] else msgq w)"
proof -
  have "fits t (weight p) (volume p)" using assms(9,10) by (simp add: fits_weight_def fits_volume_def)
  from processNextPackage_loads [OF assms(1-8) this, of envs] show ?thesis
    unfolding put_package_def limit_reached_def msg_send_def by (simp split del: if_split)
qed

text \<open>A belt with one package and a truck at the dock.\<close>

definition sample_package :: Package where
  "sample_package = zero_Package\<lparr>pkg_id := 1, pkg_type := TypeA, weight := Fin 3, volume := Fin (1 / 4)\<rparr>"

definition sample_truck :: TruckState where
  "sample_truck = zero_TruckState\<lparr>is_present := True, truck_id := 77, max_load := 100,
     max_weight := Fin 400, max_volume := Fin 2\<rparr>"

definition sample_dock :: "TruckState \<Rightarrow> world" where
  "sample_dock t = boot_world\<lparr>
     sems := (sems boot_world)(SEM_EMPTY_SLOTS := 9, SEM_FULL_SLOTS := 1),
     shm := (shm boot_world)\<lparr>belt := sample_package # replicate 9 zero_Package, tail := 1,
       current_items_count := 1, total_packages_created := 1, current_belt_weight := Fin 3,
       dock_truck := t\<rparr>\<rparr>"

lemma sample_dock_ok:
  "belt_quiet (sample_dock t)" "belt_inv (shm (sample_dock t))"
  "belt_contents (shm (sample_dock t)) = sample_package # []" "pkg_id sample_package \<noteq> 0"
  "running (shm (sample_dock t))" "dock_truck (shm (sample_dock t)) = t" "msgq (sample_dock t) = []"
  "0 < truck_id t \<Longrightarrow> in_int32 (current_load t + 1) \<Longrightarrow> dock_ready (sample_dock t)"
  by (simp_all add: sample_dock_def belt_quiet_def belt_inv_def belt_contents_def ring_def
      init_sems_def init_shm_def zero_SharedState_def shared_consts INT32_MAX_def sample_package_def
      dock_ready_def msg_room_def)

lemma sample_truck_fits:
  "is_present sample_truck" "0 < truck_id sample_truck" "in_int32 (current_load sample_truck + 1)"
  "fits sample_truck (weight sample_package) (volume sample_package)"
proof -
  have "to_double 3 = Fin 3" by (simp add: to_double_numeral)
  moreover have "to_double (1 / 4) = Fin (1 / 4)" using to_double_exact [of 1 "-2"] by (simp add: pow2_def)
  ultimately show "fits sample_truck (weight sample_package) (volume sample_package)"
    by (simp add: fits_weight_def fits_volume_def sample_truck_def sample_package_def zero_TruckState_def)
qed (simp_all add: sample_truck_def zero_TruckState_def in_int32_iff)

text \<open>The hundredth package on a truck: it is loaded and the truck is told to depart.\<close>

theorem dispatch_loads_head_witness:
  "\<exists>w'. processNextPackage [] (sample_dock (sample_truck\<lparr>current_load := 99\<rparr>)) = Some (Done (sample_package, True) w')
     \<and> belt_contents (shm w') = [] \<and> current_load (dock_truck (shm w')) = 100
     \<and> msgq w' = [\<lparr>mtype = 77, command_id = signal_id SIGNAL_DEPARTURE\<rparr>]"
proof -
  define t where "t = sample_truck\<lparr>current_load := 99\<rparr>"
  have t: "is_present t" "truck_id t = 77" "current_load t = 99" "max_load t = 100" "in_int32 (current_load t + 1)"
    by (simp_all add: t_def sample_truck_def zero_TruckState_def in_int32_iff)
  have f: "dle (dadd (current_weight t) (weight sample_package)) (max_weight t)"
    "dle (dadd (current_volume t) (volume sample_package)) (max_volume t)"
    using sample_truck_fits(4) by (simp_all add: t_def fits_weight_def fits_volume_def)
  have r: "dock_ready (sample_dock t)" by (rule sample_dock_ok(8)) (use t in simp_all)
  obtain w' where "processNextPackage [] (sample_dock t) = Some (Done (sample_package, True) w')"
    "belt_contents (shm w') = []" "dock_truck (shm w') = t\<lparr>current_weight := dadd (current_weight t) (weight sample_package),
        current_volume := dadd (current_volume t) (volume sample_package), current_load := current_load t + 1\<rparr>"
    "msgq w' = [\<lparr>mtype = 77, command_id = signal_id SIGNAL_DEPARTURE\<rparr>]"
    using dispatch_loads_head [OF sample_dock_ok(1-5) r sample_dock_ok(6) t(1) f, of "[]"] t sample_dock_ok(7)
    by auto
  then show ?thesis unfolding t_def [symmetric] using t(3) by (intro exI [of _ w']) simp
qed

text \<open>
  C17: the dispatcher's retry loop ends as soon as a truck comes that the package fits.  If the docked
  truck is too full or too small (or the dock is empty), the dispatcher tells it to depart; the truck
  takes that signal and leaves, and another one docks.  However many trucks come that the package does
  not fit, it is loaded on the first one it fits and on no other, as its only item, provided the system
  keeps running.  The trucks leave and dock by the steps of \<open>Truck::run\<close>: one that gets no signal stays.
\<close>

theorem dispatch_retries_until_fit:
  assumes "belt_quiet w" "belt_inv (shm w)" "belt_contents (shm w) = p # ps" "pkg_id p \<noteq> 0"
    and "retry_ready (Suc (length xs)) w" "\<forall>x \<in> set (xs @ [good]). 0 < fst x"
    and "\<forall>t \<in> set (dock_truck (shm w) # map arrived xs). \<not> (is_present t \<and> fits t (weight p) (volume p))"
    and "fits (arrived good) (weight p) (volume p)"
  shows "\<exists>w'. processNextPackage (map truck_comes (xs @ [good])) w = Some (Done (p, True) w')
     \<and> belt_contents (shm w') = ps \<and> truck_id (dock_truck (shm w')) = fst good \<and> is_present (dock_truck (shm w'))
     \<and> current_load (dock_truck (shm w')) = 1 \<and> current_weight (dock_truck (shm w')) = dadd (Fin 0) (weight p)
     \<and> current_volume (dock_truck (shm w')) = dadd (Fin 0) (volume p)"
proof -
  have rdy: "dock_ready w" using assms(5) by (simp add: retry_ready_def)
  obtain w1 where w1: "pop w = Done p w1" "belt_quiet w1" "belt_contents (shm w1) = ps"
    "dock_ready w1" "same_elsewhere (shm w) (shm w1)" "msgq w1 = msgq w"
    using pop_for_dispatch [OF assms(1-3) rdy] by blast
  have s1: "running (shm w1) = running (shm w)" "dock_truck (shm w1) = dock_truck (shm w)"
    "trucks_completed (shm w1) = trucks_completed (shm w)" using w1(5) by (simp_all add: same_elsewhere_def)
  have "retry_ready (Suc (length xs)) w1"
    using assms(5) s1 w1(2,4,6) by (auto simp: retry_ready_def dock_free_def belt_quiet_def dock_ready_def)
  from load_loop_trucks [OF this assms(6) _ assms(8)] assms(7) s1(2) obtain w' c where
    w': "load_loop (map truck_comes (xs @ [good])) p w1 = Some (Done True w')"
    "shm w' = (shm w1)\<lparr>trucks_completed := c, dock_truck := put_package p (arrived good)\<rparr>" by auto
  have "belt_contents (shm w') = belt_contents (shm w1)" by (simp add: w'(2) belt_contents_def)
  then show ?thesis using w' w1(1,3) assms(4)
    by (simp add: processNextPackage_def put_package_def arrived_def randomizeTruckSpecs_def)
qed

text \<open>A truck that is too small for the sample package, and one that is large enough.\<close>

definition small_rolls :: rolls where
  "small_rolls = \<lparr>roll_weight = Fin 2, roll_volume = Fin 2, roll_rand = 0\<rparr>"

lemma sample_misfits:
  "max_weight t = Fin 2 \<Longrightarrow> current_weight t = Fin 0 \<Longrightarrow> \<not> fits t (weight sample_package) (volume sample_package)"
proof -
  have "to_double 3 = Fin 3" by (simp add: to_double_numeral)
  then show "max_weight t = Fin 2 \<Longrightarrow> current_weight t = Fin 0 \<Longrightarrow> \<not> fits t (weight sample_package) (volume sample_package)"
    by (simp add: fits_weight_def sample_package_def)
qed

theorem dispatch_retries_until_fit_witness:
  "\<exists>w'. processNextPackage (map truck_comes [(78, small_rolls), (79, plain_rolls)])
        (sample_dock (sample_truck\<lparr>max_weight := Fin 2\<rparr>)) = Some (Done (sample_package, True) w')
     \<and> belt_contents (shm w') = [] \<and> truck_id (dock_truck (shm w')) = 79 \<and> current_load (dock_truck (shm w')) = 1"
proof -
  define w where "w = sample_dock (sample_truck\<lparr>max_weight := Fin 2\<rparr>)"
  have "dock_ready w" unfolding w_def by (rule sample_dock_ok(8)) (use sample_truck_fits in simp_all)
  moreover have "dock_free w" using boot_dock(1) by (simp add: w_def sample_dock_def dock_free_def)
  moreover have "trucks_completed (shm w) = 0" "msgq w = []" "running (shm w)"
    using boot_dock(5) sample_dock_ok(5,7) by (simp_all add: w_def sample_dock_def)
  ultimately have r: "retry_ready (Suc (length [(78, small_rolls)])) w" by (simp add: retry_ready_def INT32_MAX_def)
  have t: "dock_truck (shm w) = sample_truck\<lparr>max_weight := Fin 2\<rparr>" by (simp add: w_def sample_dock_ok(6))
  have m: "\<forall>t \<in> set (dock_truck (shm w) # map arrived [(78, small_rolls)]).
      \<not> (is_present t \<and> fits t (weight sample_package) (volume sample_package))"
    using sample_misfits by (simp add: t arrived_def randomizeTruckSpecs_def small_rolls_def sample_truck_def zero_TruckState_def)
  have "fits (arrived (79, plain_rolls)) (weight sample_package) (volume sample_package)"
    using sample_truck_fits(4)
    by (simp add: arrived_def randomizeTruckSpecs_def plain_rolls_def sample_truck_def zero_TruckState_def
        sample_package_def fits_weight_def fits_volume_def to_double_numeral)
  from dispatch_retries_until_fit [of w sample_package "[]" "[(78, small_rolls)]", OF _ _ _ _ r _ m this]
  show ?thesis using sample_dock_ok(1-4) by (auto simp: w_def)
qed

text \<open>
  C40: when the system is stopped, a package that the dispatcher has taken off the belt is dropped: it
  is no longer on the belt, the truck is unchanged, and the call returns without having loaded it.
\<close>

theorem dispatch_drops_at_shutdown:
  assumes "belt_quiet w" "belt_inv (shm w)" "belt_contents (shm w) = p # ps" "pkg_id p \<noteq> 0"
    and "\<not> running (shm w)" "dock_ready w"
  shows "\<exists>w'. processNextPackage envs w = Some (Done (p, False) w') \<and> belt_contents (shm w') = ps
     \<and> dock_truck (shm w') = dock_truck (shm w) \<and> msgq w' = msgq w"
proof -
  obtain w1 where w1: "pop w = Done p w1" "belt_contents (shm w1) = ps"
    "same_elsewhere (shm w) (shm w1)" "msgq w1 = msgq w"
    using pop_for_dispatch [OF assms(1-3,6)] by blast
  then show ?thesis using same_elsewhere_running [OF w1(3)] assms(4,5)
    by (simp add: processNextPackage_def load_loop.simps)
qed

theorem dispatch_drops_at_shutdown_witness:
  "\<exists>w'. processNextPackage [] ((sample_dock sample_truck)\<lparr>shm := (shm (sample_dock sample_truck))\<lparr>running := False\<rparr>\<rparr>)
        = Some (Done (sample_package, False) w')
     \<and> belt_contents (shm w') = [] \<and> dock_truck (shm w') = sample_truck"
proof -
  define w where "w = (sample_dock sample_truck)\<lparr>shm := (shm (sample_dock sample_truck))\<lparr>running := False\<rparr>\<rparr>"
  have "belt_quiet w" "belt_inv (shm w)" "belt_contents (shm w) = sample_package # []" "\<not> running (shm w)"
    "dock_ready w" "dock_truck (shm w) = sample_truck"
    using sample_dock_ok(1-3,6,8) [of sample_truck] sample_truck_fits
    by (simp_all add: w_def belt_quiet_def belt_inv_def belt_contents_def dock_ready_def msg_room_def)
  then show ?thesis
    using dispatch_drops_at_shutdown [of w sample_package "[]" "[]"] sample_dock_ok(4) by (auto simp: w_def)
qed

text \<open>
  The item limit of a truck is a trigger and not a bound.  The test before loading looks at weight
  and volume only, so a truck that has already reached \<open>max_load\<close> and has not left yet is loaded
  beyond it.
\<close>

theorem dispatch_exceeds_max_load:
  assumes "belt_quiet w" "belt_inv (shm w)" "belt_contents (shm w) = p # ps" "pkg_id p \<noteq> 0"
    and "running (shm w)" "dock_ready w" "is_present (dock_truck (shm w))"
    and "fits (dock_truck (shm w)) (weight p) (volume p)"
    and "max_load (dock_truck (shm w)) \<le> current_load (dock_truck (shm w))"
  shows "\<exists>w'. processNextPackage envs w = Some (Done (p, True) w')
     \<and> max_load (dock_truck (shm w')) < current_load (dock_truck (shm w'))"
proof -
  obtain w1 where w1: "pop w = Done p w1" "dock_ready w1" "same_elsewhere (shm w) (shm w1)"
    using pop_for_dispatch [OF assms(1-3,6)] by blast
  have s1: "running (shm w1)" "dock_truck (shm w1) = dock_truck (shm w)"
    using same_elsewhere_running [OF w1(3)] assms(5) by auto
  obtain w' where "load_loop envs p w1 = Some (Done True w')"
    "dock_truck (shm w') = put_package p (dock_truck (shm w))"
    using load_loop_done [OF s1(1) w1(2)] s1(2) assms(7,8) by auto
  then show ?thesis using w1 assms(4,9) by (simp add: processNextPackage_def put_package_def)
qed

theorem dispatch_exceeds_max_load_witness:
  "\<exists>w'. processNextPackage [] (sample_dock (sample_truck\<lparr>current_load := 100\<rparr>)) = Some (Done (sample_package, True) w')
     \<and> max_load (dock_truck (shm w')) < current_load (dock_truck (shm w'))"
proof (rule dispatch_exceeds_max_load [OF sample_dock_ok(1-5)])
  show "dock_ready (sample_dock (sample_truck\<lparr>current_load := 100\<rparr>))"
    by (rule sample_dock_ok(8)) (use sample_truck_fits in \<open>simp_all add: in_int32_iff\<close>)
  show "fits (dock_truck (shm (sample_dock (sample_truck\<lparr>current_load := 100\<rparr>))))
     (weight sample_package) (volume sample_package)"
    using sample_truck_fits(4) by (simp add: sample_dock_ok(6) fits_weight_def fits_volume_def)
qed (simp_all add: sample_dock_ok(6) sample_truck_def)

end
