(* ===== verification/Express.thy ===== *)
theory Express
  imports Dock
begin

text \<open>
  \<open>include/Express.h\<close>: the express worker loads a batch of three to five items straight onto the docked
  truck, past the belt.

  The random draws of a batch are an argument: a list with one pair (weight, type) per item, whose
  length is the batch size drawn first.  \<open>legal_draws\<close> says what the three distributions can return.
\<close>

type_synonym draw = "double \<times> int"

definition item_volume :: "int \<Rightarrow> double" where
  "item_volume t = (if t = 2 then VOL_C else if t = 1 then VOL_B else VOL_A)"

definition put_express :: "draw \<Rightarrow> TruckState \<Rightarrow> TruckState" where
  "put_express d t = t\<lparr>current_weight := dadd (current_weight t) (fst d),
                       current_volume := dadd (current_volume t) (item_volume (snd d))\<rparr>"

text \<open>The loop over the batch; an item that does not fit makes the truck depart and ends the loop.\<close>

fun express_loop :: "draw list \<Rightarrow> world \<Rightarrow> unit outcome" where
  "express_loop [] w = Done () w"
| "express_loop (d # ds) w =
     (let t = dock_truck (shm w) in
      if fits_weight t (fst d) \<and> fits_volume t (item_volume (snd d))
      then express_loop ds (w\<lparr>shm := (shm w)\<lparr>dock_truck := put_express d t\<rparr>\<rparr>)
      else sendSignal (truck_id t) SIGNAL_DEPARTURE w)"

definition deliverExpressBatch :: "draw list \<Rightarrow> world \<Rightarrow> unit outcome" where
  "deliverExpressBatch draws w =
     (if \<not> attached w then Done () w
      else with_lock lockDock unlockDock
        (\<lambda>w1. if \<not> is_present (dock_truck (shm w1)) then Done () w1 else express_loop draws w1) w)"

definition legal_draws :: "draw list \<Rightarrow> bool" where
  "legal_draws ds \<longleftrightarrow> 3 \<le> length ds \<and> length ds \<le> 5
     \<and> (\<forall>(wt, t) \<in> set ds. is_double wt \<and> dle (Fin 1) wt \<and> dlt wt (Fin 15) \<and> 0 \<le> t \<and> t \<le> 2)"

section \<open>The batch as a loader\<close>

interpretation express_loader: loader put_express fst "\<lambda>d. item_volume (snd d)"
  by unfold_locales (simp_all add: put_express_def)

abbreviation load_batch :: "draw list \<Rightarrow> TruckState \<Rightarrow> bool \<times> TruckState" where
  "load_batch \<equiv> load_all put_express fst (\<lambda>d. item_volume (snd d))"

lemma express_loop_load_all:
  assumes "kernel w = []" "msg_room w" "0 < truck_id (dock_truck (shm w))"
  shows "express_loop ds w =
     (let (complete, t) = load_batch ds (dock_truck (shm w)); w' = with_truck t w
      in Done () (if complete then w' else depart_sent w'))"
  using assms
proof (induction ds arbitrary: w)
  case Nil
  then show ?case by (simp add: with_truck_def)
next
  case (Cons d ds)
  define t where "t = dock_truck (shm w)"
  show ?case
  proof (cases "fits t (fst d) (item_volume (snd d))")
    case True
    have "with_truck u (w\<lparr>shm := (shm w)\<lparr>dock_truck := put_express d t\<rparr>\<rparr>) = with_truck u w" for u
      by (simp add: with_truck_def)
    then show ?thesis
      using Cons.IH [of "w\<lparr>shm := (shm w)\<lparr>dock_truck := put_express d t\<rparr>\<rparr>"] Cons.prems True
      by (simp add: t_def [symmetric] msg_room_def express_loader.put_frame)
  next
    case False
    have "with_truck t w = w" by (simp add: with_truck_def t_def)
    with False Cons.prems show ?thesis
      by (auto simp: t_def [symmetric] sendSignal_ok depart_sent_def)
  qed
qed

lemma load_all_prefix:
  "\<exists>n \<le> length ds. load_all put wt vol ds t =
      (n = length ds, foldl (\<lambda>u d. put d u) t (take n ds))
    \<and> (\<forall>i < n. fits (foldl (\<lambda>u d. put d u) t (take i ds)) (wt (ds ! i)) (vol (ds ! i)))
    \<and> (n < length ds \<longrightarrow> \<not> fits (foldl (\<lambda>u d. put d u) t (take n ds)) (wt (ds ! n)) (vol (ds ! n)))"
proof (induction ds arbitrary: t)
  case Nil
  then show ?case by simp
next
  case (Cons d ds)
  show ?case
  proof (cases "fits t (wt d) (vol d)")
    case True
    obtain n where n: "n \<le> length ds" "load_all put wt vol ds (put d t) =
        (n = length ds, foldl (\<lambda>u d. put d u) (put d t) (take n ds))"
      "\<forall>i < n. fits (foldl (\<lambda>u d. put d u) (put d t) (take i ds)) (wt (ds ! i)) (vol (ds ! i))"
      "n < length ds \<longrightarrow> \<not> fits (foldl (\<lambda>u d. put d u) (put d t) (take n ds)) (wt (ds ! n)) (vol (ds ! n))"
      using Cons.IH by blast
    show ?thesis
      by (rule exI [of _ "Suc n"]) (use n True in \<open>auto simp: less_Suc_eq_0_disj\<close>)
  next
    case False
    then show ?thesis by (intro exI [of _ 0]) auto
  qed
qed

lemma deliver_ready:
  assumes "dock_ready w" "attached w"
  shows "deliverExpressBatch ds w =
    (if is_present (dock_truck (shm w))
     then (let (complete, t) = load_batch ds (dock_truck (shm w)); w' = with_truck t w
           in Done () (if complete then w' else depart_sent w'))
     else Done () w)"
proof -
  define wl where "wl = w\<lparr>sems := (sems w)(SEM_DOCK_MUTEX := sems w SEM_DOCK_MUTEX - 1)\<rparr>"
  have r: "kernel w = []" "0 < sems w SEM_DOCK_MUTEX" "msg_room w"
    "is_present (dock_truck (shm w)) \<Longrightarrow> 0 < truck_id (dock_truck (shm w))"
    using assms by (auto simp: dock_ready_def)
  have wl: "kernel wl = []" "msg_room wl" "is_present (dock_truck (shm w)) \<Longrightarrow> 0 < truck_id (dock_truck (shm wl))" "shm wl = shm w"
    using r by (simp_all add: wl_def msg_room_def)
  have un: "unlockDock w2 = Done () (w2\<lparr>sems := sems w\<rparr>)" if "kernel w2 = []" "sems w2 = sems wl" for w2
    using dock_mutex.unlock_gives [of w2] that r by (simp add: wl_def)
  have fields: "kernel (with_truck t wl) = []" "sems (with_truck t wl) = sems wl"
    "kernel (depart_sent (with_truck t wl)) = []" "sems (depart_sent (with_truck t wl)) = sems wl"
    "(with_truck t wl)\<lparr>sems := sems w\<rparr> = with_truck t w"
    "(depart_sent (with_truck t wl))\<lparr>sems := sems w\<rparr> = depart_sent (with_truck t w)" "wl\<lparr>sems := sems w\<rparr> = w" for t
    using wl(1) by (simp_all add: with_truck_def depart_sent_def wl_def)
  show ?thesis
    unfolding deliverExpressBatch_def with_lock_def dock_mutex.lock_free [OF r(1,2)] wl_def [symmetric]
    using assms(2) wl express_loop_load_all [OF wl(1-3)]
    by (simp add: un fields Let_def split: prod.split)
qed

lemma deliver_total:
  assumes "dock_ready w" "attached w"
  shows "\<exists>w'. deliverExpressBatch ds w = Done () w'"
  unfolding deliver_ready [OF assms]
  by (cases "load_batch ds (dock_truck (shm w))") (simp add: Let_def)

section \<open>Capacity\<close>

lemma express_loop_ok:
  "truck_ok (dock_truck (shm w)) \<Longrightarrow> express_loop ds w = Done a w' \<Longrightarrow> truck_ok (dock_truck (shm w'))"
proof (induction ds arbitrary: w)
  case Nil
  then show ?case by simp
next
  case (Cons d ds)
  show ?case
  proof (cases "fits (dock_truck (shm w)) (fst d) (item_volume (snd d))")
    case True
    then show ?thesis
      using Cons.IH [of "w\<lparr>shm := (shm w)\<lparr>dock_truck := put_express d (dock_truck (shm w))\<rparr>\<rparr>"]
        Cons.prems(2) express_loader.put_ok by simp
  next
    case False
    then show ?thesis using Cons.prems by (auto dest!: sendSignal_shm)
  qed
qed

text \<open>Sums of few small items stay below their exact bound in spite of the rounding.\<close>

lemma dadd_le_dyadic:
  assumes "dle (Fin 0) x" "dle (Fin 0) y" "dle x (Fin (of_int m * pow2 k))" "dle y (Fin (of_int n * pow2 k))"
    and "m + n \<le> 2 ^ 53" "0 \<le> m" "0 \<le> n" "-1074 \<le> k" "k \<le> 900"
  shows "dle (dadd x y) (Fin (of_int (m + n) * pow2 k))"
proof -
  from assms(1-4) obtain a b where ab: "x = Fin a" "y = Fin b" by (cases x; cases y) auto
  have "a + b \<le> of_int (m + n) * pow2 k" using assms(3,4) by (simp add: ab distrib_right)
  then have "dle (to_double (a + b)) (to_double (of_int (m + n) * pow2 k))" by (rule to_double_mono)
  also have "to_double (of_int (m + n) * pow2 k) = Fin (of_int (m + n) * pow2 k)"
    using assms by (intro to_double_exact) auto
  finally show ?thesis by (simp add: ab)
qed

lemma item_volume_bounds: "is_double (item_volume t)" "dle (Fin 0) (item_volume t)" "dle (item_volume t) (Fin (1 / 8))"
  using vol_ok by (auto simp: item_volume_def vol_values)

lemma load_batch_fresh:
  assumes "\<forall>(wt, t) \<in> set ds. is_double wt \<and> dle (Fin 1) wt \<and> dlt wt (Fin 15)"
    and "truck_loads_ok u" "dle (current_weight u) (Fin (of_int (15 * int k)))"
    and "dle (current_volume u) (Fin (of_int (int k) * pow2 (-3)))"
    and "k + length ds \<le> 5" "dle (Fin 200) (max_weight u)" "dle (Fin 1) (max_volume u)"
  shows "fst (load_batch ds u)"
  using assms
proof (induction ds arbitrary: u k)
  case Nil
  then show ?case by simp
next
  case (Cons d ds)
  have d: "is_double (fst d)" "dle (Fin 1) (fst d)" "dlt (fst d) (Fin 15)"
    using Cons.prems(1) by (auto split: prod.splits)
  have d15: "dle (fst d) (Fin (of_int 15 * pow2 0))" "dle (Fin 0) (fst d)"
    using d dle_trans [of "Fin 0" "Fin 1" "fst d"] by (auto simp: pow2_def dlt_imp_dle)
  have nn: "dle (Fin 0) (current_weight u)" "dle (Fin 0) (current_volume u)"
    using Cons.prems(2) by (auto simp: truck_loads_ok_def)
  have k: "k < 5" using Cons.prems(5) by simp
  have "(2::int) ^ 53 = 9007199254740992" by simp
  then have w: "dle (dadd (current_weight u) (fst d)) (Fin (of_int (15 * int (Suc k))))"
    using dadd_le_dyadic [OF nn(1) d15(2), of "15 * int k" 0 15] Cons.prems(3) d15(1) k
    by (simp add: pow2_def algebra_simps)
  have v: "dle (dadd (current_volume u) (item_volume (snd d))) (Fin (of_int (int (Suc k)) * pow2 (-3)))"
    using dadd_le_dyadic [OF nn(2) item_volume_bounds(2), of "int k" "-3" "snd d" 1] Cons.prems(4)
      item_volume_bounds(3) [of "snd d"] k
    by (simp add: pow2_def algebra_simps)
  have "dle (Fin (of_int (15 * int (Suc k)))) (Fin 200)"
    using k of_nat_mono [of k 4, where 'a = rat] by simp
  moreover have "dle (Fin (of_int (int (Suc k)) * pow2 (-3))) (Fin 1)"
    using k of_nat_mono [of k 4, where 'a = rat] by (simp add: pow2_def)
  ultimately have fit: "fits u (fst d) (item_volume (snd d))"
    using w v Cons.prems(6,7) unfolding fits_weight_def fits_volume_def by (meson dle_trans)
  have "fst (load_batch ds (put_express d u))"
  proof (rule Cons.IH [of _ "Suc k"])
    show "truck_loads_ok (put_express d u)"
      using express_loader.put_grows [OF Cons.prems(2) d(1) item_volume_bounds(1) d15(2) item_volume_bounds(2)]
      by simp
    show "\<forall>(wt, t) \<in> set ds. is_double wt \<and> dle (Fin 1) wt \<and> dlt wt (Fin 15)" using Cons.prems(1) by simp
    show "Suc k + length ds \<le> 5" using Cons.prems(5) by simp
  qed (use w v Cons.prems(6,7) in \<open>simp_all add: put_express_def\<close>)
  with fit show ?case by simp
qed

lemma foldl_put_load: "current_load (foldl (\<lambda>u d. put_express d u) t ds) = current_load t"
  by (induction ds arbitrary: t) (simp_all add: put_express_def)

section \<open>Properties\<close>

text \<open>
  C28: what an express delivery does.  With a truck at the dock it loads the longest prefix of the batch
  in which every item fits when its turn comes, item by item; the truck is told to depart exactly
  when an item is left over.  The belt, the sessions, the semaphores and the item count of the truck
  are not changed.  Without a truck nothing happens.
\<close>

theorem express_loads_longest_prefix:
  assumes "dock_ready w" "attached w" "dock_truck (shm w) = t"
  shows "\<exists>w' n. deliverExpressBatch ds w = Done () w' \<and> n \<le> length ds
     \<and> shm w' = (shm w)\<lparr>dock_truck := foldl (\<lambda>u d. put_express d u) t (take n ds)\<rparr> \<and> sems w' = sems w
     \<and> current_load (dock_truck (shm w')) = current_load t
     \<and> (if \<not> is_present t then n = 0 \<and> msgq w' = msgq w
        else (\<forall>i < n. fits (foldl (\<lambda>u d. put_express d u) t (take i ds)) (fst (ds ! i)) (item_volume (snd (ds ! i))))
           \<and> (if n = length ds then msgq w' = msgq w
              else \<not> fits (foldl (\<lambda>u d. put_express d u) t (take n ds)) (fst (ds ! n)) (item_volume (snd (ds ! n)))
                 \<and> msgq w' = msg_send (truck_id t) SIGNAL_DEPARTURE (msgq w)))"
proof (cases "is_present t")
  case True
  obtain n where n: "n \<le> length ds"
    "load_batch ds t = (n = length ds, foldl (\<lambda>u d. put_express d u) t (take n ds))"
    "\<forall>i < n. fits (foldl (\<lambda>u d. put_express d u) t (take i ds)) (fst (ds ! i)) (item_volume (snd (ds ! i)))"
    "n < length ds \<longrightarrow> \<not> fits (foldl (\<lambda>u d. put_express d u) t (take n ds)) (fst (ds ! n)) (item_volume (snd (ds ! n)))"
    using load_all_prefix [of ds put_express fst "\<lambda>d. item_volume (snd d)" t] by blast
  define u where "u = foldl (\<lambda>u d. put_express d u) t (take n ds)"
  have u: "truck_id u = truck_id t" "current_load u = current_load t"
    using express_loader.load_all_frame(1) [of ds t] n(2) foldl_put_load [of t "take n ds"]
    by (simp_all add: u_def)
  define w' where "w' = (if n = length ds then with_truck u w else depart_sent (with_truck u w))"
  have "deliverExpressBatch ds w = Done () w'"
    using deliver_ready [OF assms(1,2), of ds] True n(2) by (simp add: assms(3) u_def w'_def Let_def)
  moreover have "shm w' = (shm w)\<lparr>dock_truck := u\<rparr>" "sems w' = sems w"
    "msgq w' = (if n = length ds then msgq w else msg_send (truck_id t) SIGNAL_DEPARTURE (msgq w))"
    by (simp_all add: w'_def with_truck_def depart_sent_def u(1))
  ultimately show ?thesis using n True u(2) unfolding u_def
    by (intro exI [of _ w'] exI [of _ n]) auto
next
  case False
  then show ?thesis using deliver_ready [OF assms(1,2), of ds] assms(3)
    by (intro exI [of _ w] exI [of _ 0]) auto
qed

text \<open>A docked truck in an otherwise fresh system.\<close>

definition express_dock :: "TruckState \<Rightarrow> world" where
  "express_dock t = with_truck t boot_world"

definition docked_truck :: TruckState where
  "docked_truck = \<lparr>is_present = True, truck_id = 50, current_load = 0, max_load = 100,
     current_volume = Fin 0, current_weight = Fin 0, max_weight = Fin 300, max_volume = Fin 2\<rparr>"

lemma docked_truck_fields [simp]:
  "is_present docked_truck" "truck_id docked_truck = 50" "current_load docked_truck = 0"
  "current_weight docked_truck = Fin 0" "current_volume docked_truck = Fin 0"
  "max_weight docked_truck = Fin 300" "max_volume docked_truck = Fin 2"
  by (simp_all add: docked_truck_def)

lemma express_dock_ready: "dock_ready (express_dock docked_truck)" "attached (express_dock docked_truck)"
  "dock_truck (shm (express_dock docked_truck)) = docked_truck" "is_present docked_truck"
  by (simp_all add: express_dock_def with_truck_def dock_ready_def init_sems_def msg_room_def in_int32_iff)

theorem express_loads_longest_prefix_witness:
  "\<exists>w' n. deliverExpressBatch [(Fin 2, 0), (Fin 500, 0), (Fin 2, 0)] (express_dock docked_truck) = Done () w'
     \<and> n \<le> (3::nat) \<and> current_load (dock_truck (shm w')) = 0"
proof -
  obtain w' n where "deliverExpressBatch [(Fin 2, 0), (Fin 500, 0), (Fin 2, 0)] (express_dock docked_truck) = Done () w'"
    "n \<le> length [(Fin 2, 0 :: int), (Fin 500, 0), (Fin 2, 0)]"
    "current_load (dock_truck (shm w')) = current_load docked_truck"
    using express_loads_longest_prefix [OF express_dock_ready(1-3), of "[(Fin 2, 0), (Fin 500, 0), (Fin 2, 0)]"]
    by blast
  then show ?thesis by (intro exI [of _ w'] exI [of _ n]) simp
qed

text \<open>
  An express delivery keeps the docked truck within its weight and volume limits, whatever is
  drawn and whatever errors the kernel reports.
\<close>

theorem express_within_capacity:
  assumes "truck_ok (dock_truck (shm w))" "deliverExpressBatch ds w = Done a w'"
  shows "truck_ok (dock_truck (shm w'))"
proof (cases "attached w")
  case True
  then have "with_lock lockDock unlockDock
     (\<lambda>w1. if \<not> is_present (dock_truck (shm w1)) then Done () w1 else express_loop ds w1) w = Done a w'"
    using assms(2) by (simp add: deliverExpressBatch_def)
  then show ?thesis
    by (rule with_lock_dock_preserves [where P = "\<lambda>s. truck_ok (dock_truck s)"])
      (use assms(1) express_loop_ok in \<open>auto split: if_splits\<close>)
next
  case False
  then show ?thesis using assms by (simp add: deliverExpressBatch_def)
qed

theorem express_within_capacity_witness:
  "\<exists>a w'. deliverExpressBatch [(Fin 2, 0)] (express_dock docked_truck) = Done a w' \<and> truck_ok (dock_truck (shm w'))"
proof -
  have "truck_ok (dock_truck (shm (express_dock docked_truck)))"
    by (simp add: express_dock_ready(3) truck_ok_def)
  moreover obtain w' where "deliverExpressBatch [(Fin 2, 0)] (express_dock docked_truck) = Done () w'"
    using deliver_total [OF express_dock_ready(1,2)] by blast
  ultimately show ?thesis using express_within_capacity by blast
qed

text \<open>
  C29: every batch the express worker can draw fits on an empty truck of the smallest size the fleet
  has (200 kg, one cubic metre), rounding included: the whole batch is loaded and no departure is
  signalled.
\<close>

theorem express_batch_fits_empty_truck:
  assumes "dock_ready w" "attached w" "dock_truck (shm w) = t" "is_present t" "legal_draws ds"
    and "current_weight t = Fin 0" "current_volume t = Fin 0"
    and "dle (Fin 200) (max_weight t)" "dle (Fin 1) (max_volume t)"
  shows "\<exists>w'. deliverExpressBatch ds w = Done () w' \<and> msgq w' = msgq w
     \<and> dock_truck (shm w') = foldl (\<lambda>u d. put_express d u) t ds"
proof -
  have "fst (load_batch ds t)"
    by (rule load_batch_fresh [of _ _ 0]) (use assms in \<open>auto simp: legal_draws_def truck_loads_ok_def pow2_def\<close>)
  then obtain u where u: "load_batch ds t = (True, u)" by (cases "load_batch ds t") auto
  with load_all_prefix [of ds put_express fst "\<lambda>d. item_volume (snd d)" t]
  have "u = foldl (\<lambda>u d. put_express d u) t ds" by auto
  moreover have "deliverExpressBatch ds w = Done () (with_truck u w)"
    using deliver_ready [OF assms(1,2), of ds] assms(3,4) u by (simp add: Let_def)
  ultimately show ?thesis by (auto simp: with_truck_def)
qed

theorem express_batch_fits_empty_truck_witness:
  "\<exists>w'. deliverExpressBatch [(Fin 14, 2), (Fin 1, 0), (Fin 8, 1)] (express_dock docked_truck) = Done () w'
     \<and> msgq w' = msgq (express_dock docked_truck)"
proof -
  have "legal_draws [(Fin 14, 2), (Fin 1, 0), (Fin 8, 1)]"
    by (simp add: legal_draws_def is_double_numeral is_double_1 del: is_double.simps)
  from express_batch_fits_empty_truck [OF express_dock_ready this] show ?thesis
    by auto
qed

end
