(* ===== verification/Fleet.thy ===== *)
theory Fleet
  imports Dispatcher Express Truck
begin

text \<open>
  The dock under concurrency: any number of trucks, the dispatcher, the express worker, the console
  and everybody else act in any order.

  A truck moves by \<open>truck_step\<close>, one section of its loop at a time; the loaders act by the sections of
  the dispatcher and the express worker.  Each section is executed under the dock mutex, so a section
  is one step.  A truck that waits for a signal may be interrupted by a Unix signal.  Anyone may send any signal, clear \<open>running\<close>, or change the parts of the world
  that do not belong to the dock.  \<open>Warehouse\<close> shows that the system with separate lock and unlock steps
  refines this one.
\<close>

record fleet =
  trucks :: "(pid_t \<times> truck_pc) list"
  fw :: world

definition legal_rolls :: "rolls \<Rightarrow> bool" where
  "legal_rolls r \<longleftrightarrow> dle (Fin 200) (roll_weight r) \<and> dle (roll_weight r) (Fin 600)
     \<and> dle (Fin 1) (roll_volume r) \<and> dle (roll_volume r) (Fin 3) \<and> 0 \<le> roll_rand r"

text \<open>What the processes outside the dock leave alone.\<close>

definition same_dock :: "world \<Rightarrow> world \<Rightarrow> bool" where
  "same_dock w w' \<longleftrightarrow> dock_truck (shm w') = dock_truck (shm w)
     \<and> trucks_completed (shm w') = trucks_completed (shm w)
     \<and> sems w' SEM_DOCK_MUTEX = sems w SEM_DOCK_MUTEX \<and> attached w' = attached w \<and> kernel w' = kernel w"

inductive fleet_step :: "fleet \<Rightarrow> fleet \<Rightarrow> bool" where
  truck: "i < length (trucks st) \<Longrightarrow> trucks st ! i = (p, pc) \<Longrightarrow> legal_rolls r \<Longrightarrow>
    truck_step p r pc (fw st) = Done pc' w' \<Longrightarrow>
    fleet_step st (st\<lparr>trucks := (trucks st)[i := (p, pc')], fw := w'\<rparr>)"
| interrupted: "i < length (trucks st) \<Longrightarrow> trucks st ! i = (p, Waiting) \<Longrightarrow>
    truck_step p r Waiting ((fw st)\<lparr>kernel := [Some EINTR]\<rparr>) = Done pc' w' \<Longrightarrow>
    fleet_step st (st\<lparr>trucks := (trucks st)[i := (p, pc')], fw := w'\<rparr>)"
| dispatch: "with_lock lockDock unlockDock (load_attempt pkg) (fw st) = Done b w' \<Longrightarrow>
    fleet_step st (st\<lparr>fw := w'\<rparr>)"
| express: "deliverExpressBatch ds (fw st) = Done u w' \<Longrightarrow> fleet_step st (st\<lparr>fw := w'\<rparr>)"
| signal: "sendSignal p sig (fw st) = Done u w' \<Longrightarrow> fleet_step st (st\<lparr>fw := w'\<rparr>)"
| others: "same_dock (fw st) w' \<Longrightarrow> fleet_step st (st\<lparr>fw := w'\<rparr>)"

definition fleet_init :: "fleet \<Rightarrow> bool" where
  "fleet_init st \<longleftrightarrow> distinct (map fst (trucks st)) \<and> (\<forall>(p, pc) \<in> set (trucks st). 0 < p \<and> pc = Arriving)
     \<and> fw st = boot_world"

abbreviation fleet_reachable :: "fleet \<Rightarrow> bool" where
  "fleet_reachable \<equiv> reachable fleet_init fleet_step"

fun at_dock :: "truck_pc \<Rightarrow> bool" where
  "at_dock Waiting = True"
| "at_dock ShuttingDown = True"
| "at_dock Departing = True"
| "at_dock _ = False"

section \<open>What the steps do to the dock\<close>

lemma randomize_simps [simp]:
  "is_present (randomizeTruckSpecs p a b t)" "truck_id (randomizeTruckSpecs p a b t) = p"
  "current_weight (randomizeTruckSpecs p a b t) = Fin 0" "current_volume (randomizeTruckSpecs p a b t) = Fin 0"
  "max_weight (randomizeTruckSpecs p a b t) = a" "max_volume (randomizeTruckSpecs p a b t) = b"
  "current_load (randomizeTruckSpecs p a b t) = 0"
  by (simp_all add: randomizeTruckSpecs_def)

lemma randomize_ok: "legal_rolls r \<Longrightarrow> truck_ok (randomizeTruckSpecs p (roll_weight r) (roll_volume r) t)"
  by (cases "roll_weight r"; cases "roll_volume r") (auto simp: truck_ok_def legal_rolls_def)

text \<open>The truck at the dock after a step of truck \<open>p\<close>, and where \<open>p\<close> goes.\<close>

lemma truck_step_dock:
  assumes "dock_free w" "truck_step p r pc w = Done pc' w'"
  shows "dock_free w' \<and> sems w' = sems w \<and>
    (case pc of
       Arriving \<Rightarrow> dock_truck (shm w') = dock_truck (shm w) \<and> (pc' = Leaving \<or> pc' = Docking)
     | Docking \<Rightarrow> dock_truck (shm w') = dock_truck (shm w) \<and> pc' = Arriving \<and> is_present (dock_truck (shm w))
         \<or> \<not> is_present (dock_truck (shm w)) \<and> pc' = Waiting
           \<and> dock_truck (shm w') = randomizeTruckSpecs p (roll_weight r) (roll_volume r) (dock_truck (shm w))
     | Waiting \<Rightarrow> dock_truck (shm w') = dock_truck (shm w) \<and> (pc' = ShuttingDown \<or> pc' = Departing)
     | Ended \<Rightarrow> dock_truck (shm w') = dock_truck (shm w) \<and> pc' = Ended
     | _ \<Rightarrow> \<not> at_dock pc' \<and> dock_truck (shm w') = (if truck_id (dock_truck (shm w)) = p
              then (dock_truck (shm w))\<lparr>is_present := False\<rparr> else dock_truck (shm w)))"
proof (cases pc)
  case Arriving
  then show ?thesis using assms step_arriving [OF assms(1), of p r] by (auto split: if_splits)
next
  case Docking
  then show ?thesis using assms step_docking [OF assms(1), of p r]
    by (auto split: if_splits simp: sleep_ms_def dock_free_def)
next
  case Waiting
  then show ?thesis using assms
    by (auto simp: truck_step.simps obind_eq_Done_iff receiveSignalBlocking_def dock_free_def
        split: option.splits if_splits)
next
  case ShuttingDown
  then show ?thesis using assms
    by (auto simp: truck_step.simps dock_bracket shutdown_body_def obind_eq_Done_iff bind_eq_Some_conv sleep_ms_def
        dock_free_def split: option.splits if_splits)
next
  case Departing
  then show ?thesis using assms
    by (auto simp: truck_step.simps dock_bracket depart_body_def obind_eq_Done_iff bind_eq_Some_conv sleep_ms_def
        dock_free_def split: option.splits if_splits)
next
  case Leaving
  have "t\<lparr>is_present := False\<rparr> = t" if "\<not> is_present t" for t :: TruckState using that by (cases t) simp
  then show ?thesis using Leaving assms step_leaving [OF assms(1), of p r] by (auto split: if_splits)
next
  case Ended
  then show ?thesis using assms by (simp add: truck_step.simps)
qed

text \<open>What a loader may do to the dock.\<close>

definition loader_rel :: "SharedState \<Rightarrow> SharedState \<Rightarrow> bool" where
  "loader_rel s s' \<longleftrightarrow> is_present (dock_truck s') = is_present (dock_truck s)
     \<and> truck_id (dock_truck s') = truck_id (dock_truck s) \<and> trucks_completed s' = trucks_completed s
     \<and> (truck_ok (dock_truck s) \<longrightarrow> truck_ok (dock_truck s'))"

lemma loader_rel_refl [simp]: "loader_rel s s" by (simp add: loader_rel_def)

lemma sendSignal_frame:
  assumes "sendSignal p sig w = Done u w'" "kernel w = []"
  shows "shm w' = shm w \<and> attached w' = attached w \<and> kernel w' = [] \<and> sems w' = sems w"
  using assms by (auto simp: sendSignal_def Let_def split: if_splits)

lemma with_lock_dock_frame:
  assumes "dock_free w" "with_lock lockDock unlockDock body w = Done a w'"
    and "\<And>v b v'. kernel v = [] \<Longrightarrow> body v = Done b v' \<Longrightarrow>
        kernel v' = [] \<and> attached v' = attached v \<and> sems v' = sems v \<and> loader_rel (shm v) (shm v')"
  shows "dock_free w' \<and> sems w' = sems w \<and> loader_rel (shm w) (shm w')"
proof -
  have d: "kernel w = []" "0 < sems w SEM_DOCK_MUTEX" "attached w" using assms(1) by (simp_all add: dock_free_def)
  define w1 where "w1 = w\<lparr>sems := (sems w)(SEM_DOCK_MUTEX := sems w SEM_DOCK_MUTEX - 1)\<rparr>"
  obtain w2 where b: "body w1 = Done a w2" "unlockDock w2 = Done () w'"
    using assms(2) by (auto simp: with_lock_def dock_mutex.lock_free [OF d(1,2)] w1_def obind_eq_Done_iff)
  have k: "kernel w2 = []" "attached w2" "sems w2 = sems w1" "loader_rel (shm w) (shm w2)"
    using assms(3) [OF _ b(1)] d by (simp_all add: w1_def)
  have "w' = w2\<lparr>sems := sems w\<rparr>"
    using b(2) dock_mutex.unlock_gives [OF k(1)] k(3) d(2) by (simp add: w1_def)
  then show ?thesis using k d by (simp add: dock_free_def)
qed

lemma load_attempt_frame:
  assumes "kernel v = []" "load_attempt pkg v = Done b v'"
  shows "kernel v' = [] \<and> attached v' = attached v \<and> sems v' = sems v \<and> loader_rel (shm v) (shm v')"
  using assms package_loader.put_ok [of "dock_truck (shm v)" pkg] package_loader.put_frame [of pkg "dock_truck (shm v)"]
  by (auto simp: load_attempt_def Let_def obind_eq_Done_iff loader_rel_def split: if_splits option.splits
      dest!: sendSignal_frame)

lemma express_loop_frame:
  assumes "kernel v = []" "express_loop ds v = Done b v'"
  shows "kernel v' = [] \<and> attached v' = attached v \<and> sems v' = sems v \<and> loader_rel (shm v) (shm v')"
  using assms
proof (induction ds arbitrary: v)
  case Nil
  then show ?case by simp
next
  case (Cons d ds)
  define t where "t = dock_truck (shm v)"
  show ?case
  proof (cases "fits t (fst d) (item_volume (snd d))")
    case True
    define v1 where "v1 = v\<lparr>shm := (shm v)\<lparr>dock_truck := put_express d t\<rparr>\<rparr>"
    have "kernel v' = [] \<and> attached v' = attached v1 \<and> sems v' = sems v1 \<and> loader_rel (shm v1) (shm v')"
      using Cons.IH [of v1] Cons.prems True by (simp add: v1_def t_def)
    then show ?thesis
      using express_loader.put_ok [OF True] express_loader.put_frame [of d t]
      by (simp add: v1_def loader_rel_def t_def)
  next
    case False
    then show ?thesis using Cons.prems by (auto simp: t_def dest!: sendSignal_frame)
  qed
qed

lemma deliver_frame:
  assumes "dock_free w" "deliverExpressBatch ds w = Done u w'"
  shows "dock_free w' \<and> sems w' = sems w \<and> loader_rel (shm w) (shm w')"
proof -
  have "with_lock lockDock unlockDock
      (\<lambda>w1. if \<not> is_present (dock_truck (shm w1)) then Done () w1 else express_loop ds w1) w = Done u w'"
    using assms by (simp add: deliverExpressBatch_def dock_free_def)
  then show ?thesis
    by (rule with_lock_dock_frame [OF assms(1)]) (use express_loop_frame in \<open>auto split: if_splits\<close>)
qed

section \<open>The invariant of the fleet\<close>

text \<open>
  A truck is at the dock exactly while it waits, shuts down or departs; then the dock shows its pid,
  so there is at most one.
\<close>

definition fleet_inv :: "fleet \<Rightarrow> bool" where
  "fleet_inv st \<longleftrightarrow> dock_free (fw st) \<and> distinct (map fst (trucks st))
     \<and> (\<forall>x \<in> set (trucks st). at_dock (snd x) \<longrightarrow>
          is_present (dock_truck (shm (fw st))) \<and> truck_id (dock_truck (shm (fw st))) = fst x)
     \<and> (is_present (dock_truck (shm (fw st))) \<longrightarrow>
          (\<exists>x \<in> set (trucks st). at_dock (snd x) \<and> fst x = truck_id (dock_truck (shm (fw st)))))
     \<and> truck_ok (dock_truck (shm (fw st)))"

lemma fleet_inv_loader:
  assumes "fleet_inv st" "dock_free w'" "loader_rel (shm (fw st)) (shm w')"
  shows "fleet_inv (st\<lparr>fw := w'\<rparr>)"
  using assms by (auto simp: fleet_inv_def loader_rel_def)

lemma pid_unique:
  assumes "distinct (map fst xs)" "x \<in> set xs" "y \<in> set xs" "fst x = fst y"
  shows "x = y"
  using assms by (metis eq_key_imp_eq_value prod.collapse)

lemma set_pcs_update:
  assumes "distinct (map fst xs)" "i < length xs" "xs ! i = (p, pc)"
  shows "set (xs[i := (p, pc')]) = {x \<in> set xs. fst x \<noteq> p} \<union> {(p, pc')}" "map fst (xs[i := (p, pc')]) = map fst xs"
proof -
  show m: "map fst (xs[i := (p, pc')]) = map fst xs"
    using assms(2,3) by (metis fst_conv list_update_id map_update)
  have other: "fst (xs ! j) \<noteq> p" if "j < length xs" "j \<noteq> i" for j
    using that assms nth_eq_iff_index_eq [OF assms(1), of i j] by auto
  show "set (xs[i := (p, pc')]) = {x \<in> set xs. fst x \<noteq> p} \<union> {(p, pc')}"
  proof (intro set_eqI iffI)
    fix x assume "x \<in> set (xs[i := (p, pc')])"
    then obtain j where "j < length xs" "x = xs[i := (p, pc')] ! j" by (auto simp: in_set_conv_nth)
    then show "x \<in> {x \<in> set xs. fst x \<noteq> p} \<union> {(p, pc')}" using other by (cases "j = i") auto
  next
    fix x assume "x \<in> {x \<in> set xs. fst x \<noteq> p} \<union> {(p, pc')}"
    then consider "x = (p, pc')" | j where "j < length xs" "x = xs ! j" "fst x \<noteq> p"
      by (auto simp: in_set_conv_nth)
    then show "x \<in> set (xs[i := (p, pc')])"
    proof cases
      case 1
      then show ?thesis using assms(2) by (simp add: set_update_memI)
    next
      case 2
      then have "j \<noteq> i" using assms(3) by auto
      then have "xs[i := (p, pc')] ! j = x" using 2 by simp
      then show ?thesis using 2(1) by (metis length_list_update nth_mem)
    qed
  qed
qed

lemma fleet_inv_truck:
  assumes inv: "fleet_inv st" and i: "i < length (trucks st)" "trucks st ! i = (p, pc)" and r: "legal_rolls r"
    and step: "truck_step p r pc (fw st) = Done pc' w'"
  shows "fleet_inv (st\<lparr>trucks := (trucks st)[i := (p, pc')], fw := w'\<rparr>)"
proof -
  define t t' where "t = dock_truck (shm (fw st))" and "t' = dock_truck (shm w')"
  have df: "dock_free (fw st)" and dist: "distinct (map fst (trucks st))" and ok: "truck_ok t"
    and fwd: "\<And>x. x \<in> set (trucks st) \<Longrightarrow> at_dock (snd x) \<Longrightarrow> is_present t \<and> truck_id t = fst x"
    and bwd: "is_present t \<Longrightarrow> \<exists>x \<in> set (trucks st). at_dock (snd x) \<and> fst x = truck_id t"
    using inv by (auto simp: fleet_inv_def t_def)
  note d = truck_step_dock [OF df step]
  have mem: "(p, pc) \<in> set (trucks st)" using i nth_mem by metis
  have own: "x = (p, pc)" if "x \<in> set (trucks st)" "fst x = p" for x
    using pid_unique [OF dist that(1) mem] that(2) by simp
  have mine: "at_dock pc" if "is_present t" "truck_id t = p"
    using bwd [OF that(1)] own that(2) by (metis snd_conv)
  note upd = set_pcs_update [OF dist i]
  have ok': "truck_ok t'"
    using d ok randomize_ok [OF r, of p t] by (cases pc) (auto simp: t_def t'_def truck_ok_def split: if_splits)
  have fwd': "is_present t' \<and> truck_id t' = fst x"
    if "x \<in> set ((trucks st)[i := (p, pc')])" "at_dock (snd x)" for x
  proof (cases "fst x = p")
    case True
    then have "x = (p, pc')" using that(1) upd(1) by auto
    then show ?thesis using that(2) d fwd [OF mem] by (cases pc) (auto simp: t_def t'_def)
  next
    case False
    then have "x \<in> set (trucks st)" using that(1) upd(1) by auto
    then have "is_present t \<and> truck_id t = fst x" using fwd that(2) by blast
    then show ?thesis using d False by (cases pc) (auto simp: t_def t'_def)
  qed
  have bwd': "\<exists>x \<in> set ((trucks st)[i := (p, pc')]). at_dock (snd x) \<and> fst x = truck_id t'" if pr: "is_present t'"
  proof (cases "truck_id t' = p")
    case True
    have "at_dock pc'"
      using d pr True mine by (cases pc) (auto simp: t_def t'_def split: if_splits)
    then show ?thesis using upd(1) True by auto
  next
    case False
    then have "t' = t" using d pr by (cases pc) (auto simp: t_def t'_def split: if_splits)
    then obtain x where "x \<in> set (trucks st)" "at_dock (snd x)" "fst x = truck_id t'" using bwd pr by blast
    moreover from this have "x \<in> set ((trucks st)[i := (p, pc')])" using upd(1) False by simp
    ultimately show ?thesis by blast
  qed
  show ?thesis using d ok' fwd' bwd' dist upd(2) by (auto simp: fleet_inv_def t'_def)
qed

lemma fleet_inv_interrupted:
  assumes inv: "fleet_inv st" and i: "i < length (trucks st)" "trucks st ! i = (p, Waiting)"
    and step: "truck_step p r Waiting ((fw st)\<lparr>kernel := [Some EINTR]\<rparr>) = Done pc' w'"
  shows "fleet_inv (st\<lparr>trucks := (trucks st)[i := (p, pc')], fw := w'\<rparr>)"
proof -
  have d: "dock_free (fw st)" "distinct (map fst (trucks st))" using inv by (simp_all add: fleet_inv_def)
  have "w' = fw st" "at_dock pc'"
    using step d(1) by (auto simp: truck_step.simps receiveSignalBlocking_def dock_free_def split: if_splits)
  moreover have "is_present (dock_truck (shm (fw st)))" "truck_id (dock_truck (shm (fw st))) = p"
    using inv i nth_mem [OF i(1)] by (auto simp: fleet_inv_def)
  ultimately show ?thesis using inv d set_pcs_update [OF d(2) i, of pc'] by (auto simp: fleet_inv_def)
qed

lemma fleet_inv_step:
  assumes "fleet_inv st" "fleet_step st st'"
  shows "fleet_inv st'"
  using assms(2)
proof cases
  case (truck i p pc r pc' w')
  then show ?thesis using fleet_inv_truck assms(1) by blast
next
  case (interrupted i p r pc' w')
  then show ?thesis using fleet_inv_interrupted assms(1) by blast
next
  case (dispatch pkg b w')
  have "dock_free (fw st)" using assms(1) by (simp add: fleet_inv_def)
  then have "dock_free w' \<and> sems w' = sems (fw st) \<and> loader_rel (shm (fw st)) (shm w')"
    by (rule with_lock_dock_frame [OF _ dispatch(2)]) (rule load_attempt_frame)
  then show ?thesis using fleet_inv_loader [OF assms(1)] dispatch(1) by blast
next
  case (express ds u w')
  have "dock_free (fw st)" using assms(1) by (simp add: fleet_inv_def)
  from deliver_frame [OF this express(2)] express show ?thesis using fleet_inv_loader [OF assms(1)] by blast
next
  case (signal p sig u w')
  have "dock_free (fw st)" using assms(1) by (simp add: fleet_inv_def)
  then have "dock_free w'" "shm w' = shm (fw st)"
    using sendSignal_frame [OF signal(2)] by (auto simp: dock_free_def)
  then show ?thesis using fleet_inv_loader [OF assms(1), of w'] signal(1) by simp
next
  case (others w')
  then show ?thesis using assms(1) by (auto simp: fleet_inv_def same_dock_def dock_free_def)
qed

lemma fleet_init_inv: "fleet_init st \<Longrightarrow> fleet_inv st"
  using boot_dock(1,3) by (fastforce simp: fleet_init_def fleet_inv_def truck_ok_def)

interpretation fleet_system: inductive_invariant fleet_init fleet_step fleet_inv
  by unfold_locales (auto intro: fleet_init_inv fleet_inv_step)

section \<open>Properties\<close>

text \<open>
  The dock is used by one truck at a time.  Under every interleaving of any number of trucks with
  the loaders and the console, two different trucks are never between docking and departing at the
  same time; the dock is marked as occupied exactly while one is, under that truck's pid.  So the
  branch that reports an identity theft at the dock is dead code.
\<close>

theorem dock_exclusive:
  assumes "fleet_reachable st"
  shows "(is_present (dock_truck (shm (fw st))) \<longleftrightarrow> (\<exists>x \<in> set (trucks st). at_dock (snd x)))
     \<and> (\<forall>x \<in> set (trucks st). at_dock (snd x) \<longrightarrow> truck_id (dock_truck (shm (fw st))) = fst x)
     \<and> (\<forall>x \<in> set (trucks st). \<forall>y \<in> set (trucks st). at_dock (snd x) \<and> at_dock (snd y) \<longrightarrow> x = y)"
proof -
  have inv: "fleet_inv st" using fleet_system.inv_reachable assms .
  then have "x = y" if "x \<in> set (trucks st)" "y \<in> set (trucks st)" "at_dock (snd x)" "at_dock (snd y)" for x y
    using that pid_unique [of "trucks st" x y] unfolding fleet_inv_def by metis
  then show ?thesis using inv by (auto simp: fleet_inv_def)
qed

text \<open>Two trucks, one of which has docked.\<close>

definition two_trucks :: fleet where
  "two_trucks = \<lparr>trucks = [(77, Arriving), (78, Arriving)], fw = boot_world\<rparr>"

lemma two_trucks_reachable: "fleet_reachable two_trucks"
  by (rule reachable.start) (simp add: fleet_init_def two_trucks_def)

lemma docked_reachable:
  "\<exists>st. fleet_reachable st \<and> trucks st = [(77, Waiting), (78, Arriving)]"
proof -
  define r where "r = \<lparr>roll_weight = Fin 300, roll_volume = Fin 2, roll_rand = 0\<rparr>"
  have "legal_rolls r" by (simp add: legal_rolls_def r_def)
  moreover have "truck_step 77 r Arriving boot_world = Done Docking boot_world"
    using step_arriving [OF boot_dock(1)] boot_dock(2) by auto
  ultimately have s1: "fleet_step two_trucks (two_trucks\<lparr>trucks := (trucks two_trucks)[0 := (77, Docking)], fw := boot_world\<rparr>)"
    (is "fleet_step _ ?st") by (intro fleet_step.truck) (simp_all add: two_trucks_def)
  obtain w' where "truck_step 77 r Docking boot_world = Done Waiting w'"
    using step_docking [OF boot_dock(1)] boot_dock(3) by auto
  with \<open>legal_rolls r\<close> have "fleet_step ?st (?st\<lparr>trucks := (trucks ?st)[0 := (77, Waiting)], fw := w'\<rparr>)"
    by (intro fleet_step.truck) (simp_all add: two_trucks_def)
  from reachable.further [OF reachable.further [OF two_trucks_reachable s1] this] show ?thesis
    by (intro exI conjI) (assumption, simp add: two_trucks_def)
qed

theorem dock_exclusive_witness:
  "\<exists>st. fleet_reachable st \<and> trucks st = [(77, Waiting), (78, Arriving)]
     \<and> is_present (dock_truck (shm (fw st))) \<and> truck_id (dock_truck (shm (fw st))) = 77"
proof -
  obtain st where st: "fleet_reachable st" "trucks st = [(77, Waiting), (78, Arriving)]"
    using docked_reachable by blast
  from dock_exclusive [OF st(1)] st show ?thesis by auto
qed

text \<open>
  System-wide capacity.  In every reachable state of the fleet, whatever the dispatcher and the
  express worker load and in whichever order the processes act, the docked truck is within the weight
  and volume limits it announced, and every departure of a truck is counted.
\<close>

theorem fleet_capacity:
  assumes "fleet_reachable st"
  shows "truck_ok (dock_truck (shm (fw st)))
     \<and> (\<forall>p r w'. (p, Departing) \<in> set (trucks st) \<and> truck_step p r Departing (fw st) = Done Arriving w'
          \<longrightarrow> trucks_completed (shm w') = trucks_completed (shm (fw st)) + 1 \<and> \<not> is_present (dock_truck (shm w')))"
proof -
  have inv: "fleet_inv st" using fleet_system.inv_reachable assms .
  have "trucks_completed (shm w') = trucks_completed (shm (fw st)) + 1 \<and> \<not> is_present (dock_truck (shm w'))"
    if "(p, Departing) \<in> set (trucks st)" "truck_step p r Departing (fw st) = Done Arriving w'" for p r w'
  proof -
    have "truck_id (dock_truck (shm (fw st))) = p" "dock_free (fw st)" using inv that(1) by (auto simp: fleet_inv_def)
    then show ?thesis using that(2)
      by (auto simp: truck_step.simps dock_bracket depart_body_def obind_eq_Done_iff bind_eq_Some_conv sleep_ms_def
          cadd_eq_Some_iff split: option.splits)
  qed
  then show ?thesis using inv by (auto simp: fleet_inv_def)
qed

theorem fleet_capacity_witness:
  "\<exists>st. fleet_reachable st \<and> trucks st = [(77, Waiting), (78, Arriving)] \<and> truck_ok (dock_truck (shm (fw st)))"
  using docked_reachable fleet_capacity by blast

end
