(* ===== verification/Worker.thy ===== *)
theory Worker
  imports Belt Sessions
begin

text \<open>
  \<open>include/Worker.h\<close>: a producer that generates packages and puts them on the belt.

  What the random generators return in one round is a \<open>worker_draw\<close>, together with the indeterminate
  contents of the local variable \<open>Package p\<close>, which the code does not initialise.  Before each test of
  the loop other processes may change the world and the signal handler may call \<open>stop()\<close>; \<open>worker_loop\<close>
  is given the list of these, and \<open>None\<close> means that the list was used up while the loop went on.
\<close>

record worker_draw =
  wd_junk :: Package
  wd_type :: int
  wd_weight :: double

definition make_package :: "pid_t \<Rightarrow> worker_draw \<Rightarrow> Package" where
  "make_package pid d =
     (let p = (wd_junk d)\<lparr>creator_pid := pid, status := Status_Normal\<rparr> in
      if wd_type d = 0 then p\<lparr>pkg_type := TypeA, volume := VOL_A, weight := wd_weight d\<rparr>
      else if wd_type d = 1 then p\<lparr>pkg_type := TypeB, volume := VOL_B, weight := wd_weight d\<rparr>
      else if wd_type d = 2 then p\<lparr>pkg_type := TypeC, volume := VOL_C, weight := wd_weight d\<rparr>
      else p)"

definition worker_round :: "int \<Rightarrow> pid_t \<Rightarrow> worker_draw \<Rightarrow> world \<Rightarrow> unit outcome" where
  "worker_round session pid d w =
     obind (trySpawnProcess session w) (\<lambda>ok w1.
       if ok then obind (push (make_package pid d) w1) (\<lambda>_ w2. reportProcessFinished session w2)
       else Done () (sleep_ms 500 w1))"

fun worker_loop ::
  "int \<Rightarrow> pid_t \<Rightarrow> ((world \<Rightarrow> world) \<times> bool \<times> worker_draw) list \<Rightarrow> bool \<Rightarrow> world \<Rightarrow> unit outcome option"
where
  "worker_loop session pid [] act w = None"
| "worker_loop session pid ((e, stop, d) # rest) act w =
     (let w1 = e w; act' = (act \<and> \<not> stop) in
      if \<not> (act' \<and> running (shm w1)) then Some (Done () w1)
      else (case worker_round session pid d w1 of
              Done _ w2 \<Rightarrow> worker_loop session pid rest act' w2
            | res \<Rightarrow> Some res))"

text \<open>The result says whether the worker was admitted to the belt.\<close>

definition worker_run ::
  "int \<Rightarrow> pid_t \<Rightarrow> ((world \<Rightarrow> world) \<times> bool \<times> worker_draw) list \<Rightarrow> world \<Rightarrow> bool outcome option"
where
  "worker_run session pid ins w =
     (case registerWorker w of
        Done ok w1 \<Rightarrow>
          (if \<not> ok then Some (Done False w1)
           else map_option (\<lambda>r. obind r (\<lambda>_ w2. obind (unregisterWorker w2) (\<lambda>_ w3. Done True w3)))
                  (worker_loop session pid ins True w1))
      | Blocked p w1 \<Rightarrow> Some (Blocked p w1)
      | Exited e w1 \<Rightarrow> Some (Exited e w1)
      | UB \<Rightarrow> Some UB)"

section \<open>What a worker can produce\<close>

definition legal_draw :: "worker_draw \<Rightarrow> bool" where
  "legal_draw d \<longleftrightarrow> is_double (wd_weight d) \<and>
     (wd_type d = 0 \<and> dle (lit (1 / 10)) (wd_weight d) \<and> dle (wd_weight d) (Fin 8)
    \<or> wd_type d = 1 \<and> dle (Fin 8) (wd_weight d) \<and> dle (wd_weight d) (Fin 16)
    \<or> wd_type d = 2 \<and> dle (Fin 16) (wd_weight d) \<and> dle (wd_weight d) (Fin 25))"

definition legal_package :: "Package \<Rightarrow> bool" where
  "legal_package p \<longleftrightarrow> is_double (weight p) \<and> status p = Status_Normal \<and>
     (pkg_type p = TypeA \<and> volume p = VOL_A \<and> dle (lit (1 / 10)) (weight p) \<and> dle (weight p) (Fin 8)
    \<or> pkg_type p = TypeB \<and> volume p = VOL_B \<and> dle (Fin 8) (weight p) \<and> dle (weight p) (Fin 16)
    \<or> pkg_type p = TypeC \<and> volume p = VOL_C \<and> dle (Fin 16) (weight p) \<and> dle (weight p) (Fin 25))"

lemma make_package_legal: "legal_draw d \<Longrightarrow> legal_package (make_package pid d)"
  by (auto simp: legal_draw_def legal_package_def make_package_def Let_def)

lemma legal_package_stamp [simp]: "legal_package (stamp s p) = legal_package p"
  "legal_package (p\<lparr>pkg_id := n\<rparr>) = legal_package p"
  by (simp_all add: legal_package_def stamp_def)

lemma make_package_keeps_junk: "history_count (make_package pid d) = history_count (wd_junk d)"
  by (simp add: make_package_def Let_def)

text \<open>
  The history counter of a worker's package is indeterminate: with an unlucky value the first audit
  entry would be written outside the array.
\<close>

lemma worker_package_history_unsafe:
  "\<exists>junk. pushAction t1 t2 PlacedOnBelt 5 (make_package pid \<lparr>wd_junk = junk, wd_type = 0, wd_weight = Fin 1\<rparr>) = None"
  by (rule exI [of _ "zero_Package\<lparr>history_count := -1\<rparr>"])
    (simp add: pushAction_def make_package_def shared_consts aset_def)

section \<open>One round\<close>

text \<open>The session facts depend on the session table only.\<close>

lemma sessions_cong:
  assumes "users s' = users s"
  shows "sessions_inv s' = sessions_inv s" "session_index_ok c s' = session_index_ok c s"
    "slot_of c s' = slot_of c s"
  using assms by (simp_all add: sessions_inv_def session_index_ok_def slot_of_def)

lemma set_processes_frame [simp]:
  "belt_inv (set_processes c n s) = belt_inv s" "belt_contents (set_processes c n s) = belt_contents s"
  "current_items_count (set_processes c n s) = current_items_count s"
  "total_packages_created (set_processes c n s) = total_packages_created s"
  "current_workers_count (set_processes c n s) = current_workers_count s"
  "running (set_processes c n s) = running s" "dock_truck (set_processes c n s) = dock_truck s"
  by (simp_all add: set_processes_def belt_inv_def belt_contents_def)

lemma belt_quiet_users [simp]: "belt_quiet (w\<lparr>shm := set_processes c n (shm w)\<rparr>) = belt_quiet w"
  by (simp add: belt_quiet_def)

lemma trySpawn_quiet:
  assumes "belt_quiet w" "sessions_inv (shm w)" "session_index_ok c (shm w)" "c \<noteq> -1"
  shows "trySpawnProcess c w =
    (if current_processes (slot_of c (shm w)) < max_processes (slot_of c (shm w))
     then Done True (w\<lparr>shm := set_processes c (current_processes (slot_of c (shm w)) + 1) (shm w)\<rparr>)
     else Done False w)"
  using assms by (simp add: trySpawnProcess_def belt_quiet_def belt_mutex.bracket_shm trySpawnProcess_body_spec)

lemma reportFinished_quiet:
  assumes "belt_quiet w" "sessions_inv (shm w)" "session_index_ok c (shm w)" "c \<noteq> -1"
    "0 < current_processes (slot_of c (shm w))"
  shows "reportProcessFinished c w =
    Done () (w\<lparr>shm := set_processes c (current_processes (slot_of c (shm w)) - 1) (shm w)\<rparr>)"
  using assms by (simp add: reportProcessFinished_def belt_quiet_def belt_mutex.bracket_shm
      reportProcessFinished_body_spec)

text \<open>The situation in which a worker can work: a quiet belt and a valid session with free quota.\<close>

definition worker_ready :: "int \<Rightarrow> world \<Rightarrow> bool" where
  "worker_ready c w \<longleftrightarrow> belt_quiet w \<and> belt_inv (shm w) \<and> sessions_inv (shm w)
     \<and> session_index_ok c (shm w) \<and> c \<noteq> -1
     \<and> current_processes (slot_of c (shm w)) < max_processes (slot_of c (shm w))"

lemma worker_ready_count:
  assumes "worker_ready c w" "0 \<le> n" "n \<le> MAX_WORKERS_PER_BELT"
  shows "worker_ready c (w\<lparr>shm := (shm w)\<lparr>current_workers_count := n\<rparr>\<rparr>)"
  using assms sessions_cong [of "(shm w)\<lparr>current_workers_count := n\<rparr>" "shm w"]
  by (simp add: worker_ready_def belt_quiet_def belt_inv_workers)

lemma worker_round_pushes:
  assumes rdy: "worker_ready c w" and room: "current_items_count (shm w) < MAX_BELT_CAPACITY_K"
    and ids: "0 < id_budget (shm w)"
  shows "\<exists>w'. worker_round c pid d w = Done () w' \<and> worker_ready c w'
     \<and> belt_contents (shm w') = belt_contents (shm w) @ [stamp (shm w) (make_package pid d)]
     \<and> total_packages_created (shm w') = total_packages_created (shm w) + 1
     \<and> users (shm w') = users (shm w) \<and> running (shm w') = running (shm w)
     \<and> current_workers_count (shm w') = current_workers_count (shm w)
     \<and> dock_truck (shm w') = dock_truck (shm w) \<and> msgq w' = msgq w"
proof -
  have r: "belt_quiet w" "belt_inv (shm w)" "sessions_inv (shm w)" "session_index_ok c (shm w)" "c \<noteq> -1"
    "current_processes (slot_of c (shm w)) < max_processes (slot_of c (shm w))"
    using rdy by (simp_all add: worker_ready_def)
  note slot = session_index_range [OF r(3-5)]
  define n where "n = current_processes (slot_of c (shm w))"
  have n: "0 \<le> n" "n < max_processes (slot_of c (shm w))" using slot r(6) by (auto simp: session_ok_def n_def)
  define w1 where "w1 = w\<lparr>shm := set_processes c (n + 1) (shm w)\<rparr>"
  have w1: "belt_quiet w1" "belt_inv (shm w1)" "current_items_count (shm w1) < MAX_BELT_CAPACITY_K"
    "0 < id_budget (shm w1)"
    using r room ids by (simp_all add: w1_def id_budget_def)
  obtain w2 where w2: "push (make_package pid d) w1 = Done (stamp (shm w1) (make_package pid d)) w2"
    "belt_quiet w2" "belt_inv (shm w2)"
    "belt_contents (shm w2) = belt_contents (shm w1) @ [stamp (shm w1) (make_package pid d)]"
    "total_packages_created (shm w2) = total_packages_created (shm w1) + 1"
    "same_elsewhere (shm w1) (shm w2)" "msgq w2 = msgq w1"
    "current_workers_count (shm w2) = current_workers_count (shm w1)"
    using push_quiet [OF w1, of "make_package pid d"] by blast
  have u2: "users (shm w2) = users (set_processes c (n + 1) (shm w))"
    using w2(6) by (simp add: same_elsewhere_def w1_def)
  have i1: "sessions_inv (set_processes c (n + 1) (shm w))"
    using sessions_inv_set_processes [OF r(3-5), of "n + 1"] n by simp
  note sp = slot_of_set_processes [OF r(3-5), of "n + 1"]
  have s2: "sessions_inv (shm w2)" "session_index_ok c (shm w2)" "slot_of c (shm w2) = (slot_of c (shm w))\<lparr>current_processes := n + 1\<rparr>"
    using sessions_cong [OF u2] i1 sp by auto
  define w3 where "w3 = w2\<lparr>shm := set_processes c n (shm w2)\<rparr>"
  have rep: "reportProcessFinished c w2 = Done () w3"
    using reportFinished_quiet [OF w2(2) s2(1,2) r(5)] s2(3) n(1) by (simp add: w3_def)
  have u3: "users (shm w3) = users (shm w)"
    using s2(3) u2 slot by (simp add: w3_def set_processes_def n_def slot_of_def)
  have "worker_round c pid d w = Done () w3"
    using trySpawn_quiet [OF r(1,3-5)] r(6) w2(1) rep by (simp add: worker_round_def n_def w1_def)
  moreover have "worker_ready c w3"
    using w2(2,3) sessions_cong [OF u3] r by (simp add: worker_ready_def w3_def)
  moreover have "stamp (shm w1) p = stamp (shm w) p" for p by (simp add: stamp_def w1_def)
  ultimately show ?thesis using u3 w2(4-8) by (auto simp: w3_def w1_def same_elsewhere_def)
qed

section \<open>A shift\<close>

fun number_from :: "int \<Rightarrow> Package list \<Rightarrow> Package list" where
  "number_from n [] = []"
| "number_from n (p # ps) = p\<lparr>pkg_id := n + 1\<rparr> # number_from (n + 1) ps"

lemma number_from_legal: "(\<forall>p \<in> set ps. legal_package p) \<Longrightarrow> \<forall>p \<in> set (number_from n ps). legal_package p"
  by (induction ps arbitrary: n) auto

lemma worker_loop_shift:
  assumes "worker_ready c w" "running (shm w)"
    and "current_items_count (shm w) + int (length ds) \<le> MAX_BELT_CAPACITY_K"
    and "int (length ds) \<le> id_budget (shm w)"
  shows "\<exists>w'. worker_loop c pid (map (\<lambda>d. (id, False, d)) ds @ [(id, True, d0)]) True w = Some (Done () w')
     \<and> worker_ready c w'
     \<and> belt_contents (shm w') = belt_contents (shm w) @ number_from (total_packages_created (shm w)) (map (make_package pid) ds)
     \<and> users (shm w') = users (shm w) \<and> current_workers_count (shm w') = current_workers_count (shm w)"
  using assms
proof (induction ds arbitrary: w)
  case Nil
  then show ?case by simp
next
  case (Cons d ds)
  have "current_items_count (shm w) < MAX_BELT_CAPACITY_K" "0 < id_budget (shm w)"
    using Cons.prems(3,4) by auto
  then obtain w1 where w1: "worker_round c pid d w = Done () w1" "worker_ready c w1"
    "belt_contents (shm w1) = belt_contents (shm w) @ [stamp (shm w) (make_package pid d)]"
    "total_packages_created (shm w1) = total_packages_created (shm w) + 1"
    "users (shm w1) = users (shm w)" "running (shm w1) = running (shm w)"
    "current_workers_count (shm w1) = current_workers_count (shm w)"
    using worker_round_pushes [OF Cons.prems(1)] by blast
  have inv: "belt_inv (shm w)" "belt_inv (shm w1)" using Cons.prems(1) w1(2) by (simp_all add: worker_ready_def)
  have "current_items_count (shm w1) = current_items_count (shm w) + 1"
    using belt_count [OF inv(1)] belt_count [OF inv(2)] w1(3) by simp
  then have "current_items_count (shm w1) + int (length ds) \<le> MAX_BELT_CAPACITY_K"
    "int (length ds) \<le> id_budget (shm w1)"
    using Cons.prems(3,4) w1(4) by (simp_all add: id_budget_def)
  from Cons.IH [OF w1(2) _ this] Cons.prems(2) w1 show ?case by (auto simp: stamp_def)
qed

section \<open>Properties\<close>


text \<open>A worker that has just logged in to a fresh system.\<close>

definition worker_world :: world where
  "worker_world = boot_world\<lparr>shm := (shm boot_world)\<lparr>users := users sample_table\<rparr>\<rparr>"

lemma worker_world_ready: "worker_ready 0 worker_world" "running (shm worker_world)"
  "current_workers_count (shm worker_world) = 0" "current_items_count (shm worker_world) = 0"
  "total_packages_created (shm worker_world) = 0" "belt_contents (shm worker_world) = []"
proof -
  have u: "users (shm worker_world) = users sample_table" by (simp add: worker_world_def)
  have b: "belt_quiet worker_world" "belt_inv (shm worker_world)"
    using belt_quiet_boot by (simp_all add: worker_world_def belt_quiet_def belt_inv_def)
  then show "worker_ready 0 worker_world"
    using sessions_cong [OF u] sample_table_ok by (simp add: worker_ready_def) (simp add: new_session_def)
  show "running (shm worker_world)" "current_workers_count (shm worker_world) = 0"
    "current_items_count (shm worker_world) = 0" "total_packages_created (shm worker_world) = 0"
    "belt_contents (shm worker_world) = []"
    by (simp_all add: worker_world_def init_shm_def zero_SharedState_def belt_contents_def)
qed

definition sample_draw :: worker_draw where
  "sample_draw = \<lparr>wd_junk = zero_Package\<lparr>history_count := 3\<rparr>, wd_type = 1, wd_weight = Fin 9\<rparr>"

lemma sample_draw_legal: "legal_draw sample_draw"
  by (simp add: legal_draw_def sample_draw_def is_double_numeral del: is_double.simps)


text \<open>
  A worker whose quota is used up waits half a second and touches nothing; a worker that meets a
  full belt blocks on the empty-slot semaphore, and until it is released its session is charged for
  the package it holds.
\<close>

theorem worker_round_waits:
  assumes "belt_quiet w" "belt_inv (shm w)" "sessions_inv (shm w)" "session_index_ok c (shm w)" "c \<noteq> -1"
    and "current_items_count (shm w) = MAX_BELT_CAPACITY_K"
  shows "if current_processes (slot_of c (shm w)) < max_processes (slot_of c (shm w))
    then \<exists>w'. worker_round c pid d w = Blocked (OnSem SEM_EMPTY_SLOTS) w'
      \<and> current_processes (slot_of c (shm w')) = current_processes (slot_of c (shm w)) + 1
      \<and> belt_contents (shm w') = belt_contents (shm w)
    else worker_round c pid d w = Done () (sleep_ms 500 w)"
proof (cases "current_processes (slot_of c (shm w)) < max_processes (slot_of c (shm w))")
  case True
  define n where "n = current_processes (slot_of c (shm w))"
  define w1 where "w1 = w\<lparr>shm := set_processes c (n + 1) (shm w)\<rparr>"
  have "push (make_package pid d) w1 = Blocked (OnSem SEM_EMPTY_SLOTS) (sleep_ms (workload_delay (shm w1)) w1)"
    using assms by (intro push_blocks) (simp_all add: w1_def)
  moreover have "trySpawnProcess c w = Done True w1"
    using trySpawn_quiet [OF assms(1,3-5)] True by (simp add: w1_def n_def)
  ultimately show ?thesis
    using True slot_of_set_processes(1) [OF assms(3-5), of "n + 1"]
    by (simp add: worker_round_def) (simp add: w1_def sleep_ms_def n_def)
next
  case False
  then show ?thesis using trySpawn_quiet [OF assms(1,3-5)] by (simp add: worker_round_def)
qed

theorem worker_round_waits_witness:
  "\<exists>w'. worker_round 0 9 sample_draw (worker_world\<lparr>
       sems := (sems worker_world)(SEM_EMPTY_SLOTS := 0, SEM_FULL_SLOTS := 10),
       shm := (shm worker_world)\<lparr>current_items_count := 10\<rparr>\<rparr>) = Blocked (OnSem SEM_EMPTY_SLOTS) w'"
proof -
  define w where "w = worker_world\<lparr>sems := (sems worker_world)(SEM_EMPTY_SLOTS := 0, SEM_FULL_SLOTS := 10),
       shm := (shm worker_world)\<lparr>current_items_count := 10\<rparr>\<rparr>"
  have z: "tail (shm worker_world) = 0" "head (shm worker_world) = 0"
    by (simp_all add: worker_world_def init_shm_def zero_SharedState_def)
  have "belt_quiet w" "belt_inv (shm w)"
    using worker_world_ready(1) z by (auto simp: worker_ready_def w_def belt_quiet_def belt_inv_def shared_consts)
  moreover have u: "users (shm w) = users sample_table" by (simp add: w_def worker_world_def)
  moreover have "current_items_count (shm w) = MAX_BELT_CAPACITY_K" by (simp add: w_def shared_consts)
  ultimately have "\<exists>w'. worker_round 0 9 sample_draw w = Blocked (OnSem SEM_EMPTY_SLOTS) w'"
    using worker_round_waits [of w 0 9 sample_draw] sessions_cong [OF u] sample_table_ok
    by (auto simp: new_session_def)
  then show ?thesis by (simp add: w_def)
qed

end
