(* ===== verification/Terminal.thy ===== *)
theory Terminal
  imports Sessions
begin

text \<open>
  \<open>include/terminal/\<close>: the operator console.

  \<open>runOnce\<close> is one iteration of the read-eval-print loop.  What standard input offers is an argument,
  and what is printed is a list of \<open>screen\<close> items, one per message of the source.
\<close>

section \<open>Commands\<close>

datatype CliCommand = Unknown | Vip | Depart | Stop | Help | Exit

definition resolve :: "string \<Rightarrow> CliCommand" where
  "resolve cmd =
     (case map_of [(''vip'', Vip), (''depart'', Depart), (''stop'', Stop), (''help'', Help),
                   (''exit'', Exit), (''quit'', Exit)] cmd of
        Some c \<Rightarrow> c | None \<Rightarrow> Unknown)"

text \<open>\<open>tolower\<close> in the C locale.\<close>

definition to_lower :: "char \<Rightarrow> char" where
  "to_lower c = (let n = (of_char c :: nat) in if 65 \<le> n \<and> n \<le> 90 then char_of (n + 32) else c)"

datatype screen =
    Header string OrgId UserRole bool
  | AdminPrompt
  | UserPrompt
  | AccessDenied string
  | VipSent pid_t
  | ExpressOffline
  | DepartSent pid_t
  | NoTruckInDock
  | HaltCommanded
  | UnknownCommand

definition printAccessDenied :: "string \<Rightarrow> screen" where
  "printAccessDenied requiredRole = AccessDenied requiredRole"

definition handleVip :: "UserRole \<Rightarrow> world \<Rightarrow> screen outcome" where
  "handleVip r w =
     (if \<not> UserRole_hasFlag r Operator \<and> \<not> UserRole_hasFlag r SysAdmin
      then Done (printAccessDenied ''Operator'') w
      else if \<not> attached w then UB
      else (let target = findProcessByRole ''System-Express'' (shm w) in
        if 0 < target then obind (sendSignal target SIGNAL_EXPRESS_LOAD w) (\<lambda>_ w1. Done (VipSent target) w1)
        else Done ExpressOffline w))"

definition handleDepart :: "UserRole \<Rightarrow> world \<Rightarrow> screen outcome" where
  "handleDepart r w =
     (if \<not> UserRole_hasFlag r Operator \<and> \<not> UserRole_hasFlag r SysAdmin
      then Done (printAccessDenied ''Operator'') w
      else if \<not> attached w then UB
      else if is_present (dock_truck (shm w))
      then (let truck_pid = truck_id (dock_truck (shm w)) in
            obind (sendSignal truck_pid SIGNAL_DEPARTURE w) (\<lambda>_ w1. Done (DepartSent truck_pid) w1))
      else Done NoTruckInDock w)"

fun stop_loop :: "UserSession list \<Rightarrow> world \<Rightarrow> unit outcome" where
  "stop_loop [] w = Done () w"
| "stop_loop (u # us) w =
     (if active u then obind (sendSignal (session_pid u) SIGNAL_END_WORK w) (\<lambda>_ w1. stop_loop us w1)
      else stop_loop us w)"

text \<open>The result carries the new value of \<open>activeRef\<close>.\<close>

definition handleStop :: "UserRole \<Rightarrow> bool \<Rightarrow> world \<Rightarrow> (screen \<times> bool) outcome" where
  "handleStop r activeRef w =
     (if UserRole_hasFlag r SysAdmin then
        (if \<not> attached w then UB
         else obind (stop_loop (users (shm w)) (w\<lparr>shm := (shm w)\<lparr>running := False\<rparr>\<rparr>))
                (\<lambda>_ w1. Done (HaltCommanded, False) w1))
      else Done (printAccessDenied ''SysAdmin'', activeRef) w)"

section \<open>The loop\<close>

datatype stdin_event = NoInput | Eof | Line string

record terminal =
  t_active :: bool
  header_printed :: bool
  keep_running :: bool

definition TerminalManager_new :: terminal where
  "TerminalManager_new = \<lparr>t_active = True, header_printed = False, keep_running = True\<rparr>"

definition getCurrentSession :: "int \<Rightarrow> world \<Rightarrow> UserSession option" where
  "getCurrentSession idx w =
     (if 0 \<le> idx \<and> idx < MAX_USERS_SESSIONS then Some (users (shm w) ! nat idx) else None)"

definition printHeader :: "int \<Rightarrow> world \<Rightarrow> screen" where
  "printHeader idx w =
     (let s = getCurrentSession idx w;
          r = (case s of Some u \<Rightarrow> role u | None \<Rightarrow> UserRole_None)
      in Header (case s of Some u \<Rightarrow> c_str (username u) | None \<Rightarrow> ''Unknown'')
                (case s of Some u \<Rightarrow> orgId u | None \<Rightarrow> -1) r (UserRole_hasFlag r SysAdmin))"

definition printPrompt :: "int \<Rightarrow> world \<Rightarrow> screen" where
  "printPrompt idx w =
     (case getCurrentSession idx w of
        Some u \<Rightarrow> if UserRole_hasFlag (role u) SysAdmin then AdminPrompt else UserPrompt
      | None \<Rightarrow> UserPrompt)"

definition run_command :: "int \<Rightarrow> CliCommand \<Rightarrow> UserRole \<Rightarrow> bool \<Rightarrow> world \<Rightarrow> (screen list \<times> bool) outcome" where
  "run_command idx cmd myRole act w =
     (case cmd of
        Vip \<Rightarrow> obind (handleVip myRole w) (\<lambda>m w1. Done ([m], act) w1)
      | Depart \<Rightarrow> obind (handleDepart myRole w) (\<lambda>m w1. Done ([m], act) w1)
      | Stop \<Rightarrow> obind (handleStop myRole act w) (\<lambda>(m, act') w1. Done ([m], act') w1)
      | Help \<Rightarrow> Done ([printHeader idx w], act) w
      | Exit \<Rightarrow> Done ([], False) w
      | Unknown \<Rightarrow> Done ([UnknownCommand], act) w)"

definition runOnce :: "int \<Rightarrow> stdin_event \<Rightarrow> terminal \<Rightarrow> world \<Rightarrow> (terminal \<times> screen list) outcome" where
  "runOnce idx input t w =
     (let t1 = t\<lparr>header_printed := True\<rparr>;
          out1 = (if \<not> header_printed t then [printHeader idx w, printPrompt idx w] else [])
      in case input of
        NoInput \<Rightarrow> Done (t1, out1) (sleep_ms 100 w)
      | Eof \<Rightarrow> Done (t1\<lparr>keep_running := False, t_active := False\<rparr>, out1) w
      | Line line \<Rightarrow>
          (if line = ''exit'' \<or> line = ''quit''
           then Done (t1\<lparr>keep_running := False, t_active := False\<rparr>, out1) w
           else if line = [] then Done (t1, out1 @ [printPrompt idx w]) w
           else (case getCurrentRole idx w of None \<Rightarrow> UB | Some myRole \<Rightarrow>
             obind (run_command idx (resolve (map to_lower line)) myRole (t_active t1) w) (\<lambda>(out2, act) w1.
               if \<not> act then Done (t1\<lparr>t_active := act, keep_running := False\<rparr>, out1 @ out2) w1
               else if keep_running t1
               then Done (t1\<lparr>t_active := act\<rparr>, out1 @ out2 @ [printPrompt idx w1]) w1
               else Done (t1\<lparr>t_active := act\<rparr>, out1 @ out2) w1))))"

section \<open>Lemmas\<close>

lemma to_lower_idem [simp]: "to_lower (to_lower c) = to_lower c"
proof (cases "65 \<le> (of_char c :: nat) \<and> (of_char c :: nat) \<le> 90")
  case True
  then have "to_lower c = char_of (of_char c + 32 :: nat)" by (simp add: to_lower_def Let_def)
  moreover from True have "of_char (char_of (of_char c + 32 :: nat)) = (of_char c + 32 :: nat)" by simp
  ultimately show ?thesis using True by (simp add: to_lower_def Let_def)
next
  case False
  then show ?thesis by (auto simp: to_lower_def Let_def)
qed

text \<open>Sending to every active session of a list.\<close>

definition end_signals :: "pid_t \<Rightarrow> UserSession list \<Rightarrow> SignalType list" where
  "end_signals p us = map (\<lambda>_. SIGNAL_END_WORK) (filter (\<lambda>u. active u \<and> session_pid u = p) us)"

lemma stop_loop_sends:
  assumes "kernel w = []" "\<forall>u \<in> set us. active u \<longrightarrow> 0 < session_pid u"
    and "4 * (int (length (msgq w)) + int (length (filter active us))) \<le> msg_qbytes w"
  shows "\<exists>q. stop_loop us w = Done () (w\<lparr>msgq := q\<rparr>)
     \<and> (\<forall>p. mailbox p q = mailbox p (msgq w) @ end_signals p us)"
  using assms
proof (induction us arbitrary: w)
  case Nil
  show ?case by (rule exI [of _ "msgq w"]) (simp add: end_signals_def)
next
  case (Cons u us)
  show ?case
  proof (cases "active u")
    case True
    define w1 where "w1 = w\<lparr>msgq := msg_send (session_pid u) SIGNAL_END_WORK (msgq w)\<rparr>"
    have "sendSignal (session_pid u) SIGNAL_END_WORK w = Done () w1"
      using Cons.prems True by (simp add: w1_def sendSignal_ok msg_room_def)
    moreover obtain q where "stop_loop us w1 = Done () (w1\<lparr>msgq := q\<rparr>)"
      "\<forall>p. mailbox p q = mailbox p (msgq w1) @ end_signals p us"
      using Cons.IH [of w1] Cons.prems True by (auto simp: w1_def msg_send_def)
    ultimately show ?thesis using True
      by (intro exI [of _ q]) (auto simp: w1_def queue_channel.box_send end_signals_def)
  next
    case False
    then show ?thesis using Cons by (auto simp: end_signals_def)
  qed
qed

lemma stop_loop_shm: "stop_loop us w = Done a w' \<Longrightarrow> shm w' = shm w"
proof (induction us arbitrary: w)
  case Nil
  then show ?case by simp
next
  case (Cons u us)
  have "shm w1 = shm w" if "sendSignal p s w = Done x w1" for p s x w1
    using that by (auto simp: sendSignal_def Let_def split: list.splits option.splits if_splits)
  then show ?case using Cons by (auto simp: obind_eq_Done_iff split: if_splits)
qed

lemma run_command_shm:
  assumes "run_command idx cmd r act w = Done x w'" "\<not> UserRole_hasFlag r SysAdmin"
  shows "shm w' = shm w"
proof -
  have "shm w1 = shm v" if "sendSignal p s v = Done y w1" for p s y v w1
    using that by (auto simp: sendSignal_def Let_def split: list.splits option.splits if_splits)
  then show ?thesis using assms
    by (cases cmd) (auto simp: run_command_def handleVip_def handleDepart_def handleStop_def Let_def
        obind_eq_Done_iff split: if_splits)
qed

lemma run_command_denied:
  assumes "\<not> UserRole_hasFlag r Operator" "\<not> UserRole_hasFlag r SysAdmin"
  shows "\<exists>out act'. run_command idx cmd r act w = Done (out, act') w
     \<and> (cmd \<in> {Vip, Depart} \<longrightarrow> out = [AccessDenied ''Operator''])
     \<and> (cmd = Stop \<longrightarrow> out = [AccessDenied ''SysAdmin''] \<and> act' = act)"
  using assms
  by (cases cmd) (auto simp: run_command_def handleVip_def handleDepart_def handleStop_def printAccessDenied_def)

text \<open>A command line that runs to completion makes the whole iteration complete.\<close>

lemma runOnce_command:
  assumes "line \<noteq> ''exit'' \<and> line \<noteq> ''quit'' \<and> line \<noteq> []" "getCurrentRole idx w = Some r"
    and "run_command idx (resolve (map to_lower line)) r (t_active t) w = Done (out2, act) w1"
  shows "\<exists>t' out. runOnce idx (Line line) t w = Done (t', out) w1 \<and> set out2 \<subseteq> set out
     \<and> t_active t' = act \<and> (\<not> act \<longrightarrow> \<not> keep_running t')"
  using assms by (auto simp: runOnce_def Let_def)

section \<open>Properties\<close>

text \<open>
  C33: authorisation.  A user without the administrator flag cannot change the shared state by any
  input line, in particular cannot stop the system; a user who is not an operator either cannot even
  send a signal, and the three control commands are answered with a refusal.
\<close>

theorem terminal_authorization:
  assumes "getCurrentRole idx w = Some r" "\<not> UserRole_hasFlag r SysAdmin"
    and "runOnce idx (Line line) t w = Done (t', out) w'"
  shows "shm w' = shm w
     \<and> (\<not> UserRole_hasFlag r Operator \<longrightarrow> w' = w
        \<and> (resolve (map to_lower line) \<in> {Vip, Depart} \<longrightarrow> AccessDenied ''Operator'' \<in> set out)
        \<and> (resolve (map to_lower line) = Stop \<longrightarrow> AccessDenied ''SysAdmin'' \<in> set out))"
proof (cases "line = ''exit'' \<or> line = ''quit'' \<or> line = []")
  case True
  have "resolve [] = Unknown" "resolve (map to_lower ''exit'') = Exit" "resolve (map to_lower ''quit'') = Exit"
    by code_simp+
  with True assms(3) show ?thesis by (auto simp: runOnce_def Let_def)
next
  case False
  define cmd where "cmd = resolve (map to_lower line)"
  obtain out2 act w1 where r: "run_command idx cmd r (t_active t) w = Done (out2, act) w1"
    using assms(1,3) False
    by (cases "run_command idx cmd r (t_active t) w") (auto simp: runOnce_def Let_def cmd_def)
  then have c: "run_command idx cmd r (t_active t) w = Done (out2, act) w1" "w' = w1" "set out2 \<subseteq> set out"
    using runOnce_command [of line idx w r t out2 act w1] assms(1,3) False by (auto simp: cmd_def)
  have "shm w' = shm w" using run_command_shm [OF c(1) assms(2)] c(2) by simp
  moreover have "w' = w \<and> (cmd \<in> {Vip, Depart} \<longrightarrow> AccessDenied ''Operator'' \<in> set out)
      \<and> (cmd = Stop \<longrightarrow> AccessDenied ''SysAdmin'' \<in> set out)" if "\<not> UserRole_hasFlag r Operator"
    using run_command_denied [OF that assms(2), of idx cmd "t_active t" w] c by auto
  ultimately show ?thesis by (simp add: cmd_def)
qed

text \<open>A session table whose first entry is a session with the given role.\<close>

definition console_world :: "UserRole \<Rightarrow> world" where
  "console_world r = boot_world\<lparr>shm := (shm boot_world)\<lparr>users :=
     (users (shm boot_world))[0 := new_session ''AdminConsole'' r 1 1 42]\<rparr>\<rparr>"

lemma console_world_simps [simp]:
  "attached (console_world r)" "kernel (console_world r) = []" "msgq (console_world r) = []"
  "msg_qbytes (console_world r) = 16384"
  "users (shm (console_world r)) = new_session ''AdminConsole'' r 1 1 42 # replicate 209 zero_UserSession"
  by (simp_all add: console_world_def init_shm_def zero_SharedState_def shared_consts eval_nat_numeral)

lemma console_role: "getCurrentRole 0 (console_world r) = Some r"
  by (simp add: getCurrentRole_def aget_def) (simp add: new_session_def)

lemma command_words:
  "resolve (map to_lower ''STOP'') = Stop" "resolve (map to_lower ''Vip'') = Vip" "resolve ''stop'' = Stop"
  by code_simp+

theorem terminal_authorization_witness:
  "\<exists>t' out w'. runOnce 0 (Line ''STOP'') TerminalManager_new (console_world Viewer) = Done (t', out) w'
     \<and> w' = console_world Viewer \<and> AccessDenied ''SysAdmin'' \<in> set out"
proof -
  have f: "\<not> UserRole_hasFlag Viewer SysAdmin" "\<not> UserRole_hasFlag Viewer Operator"
    unfolding role_flag_bits by (simp_all add: Viewer_def)
  obtain t' out w' where r: "runOnce 0 (Line ''STOP'') TerminalManager_new (console_world Viewer) = Done (t', out) w'"
  proof -
    obtain out2 act where "run_command 0 (resolve (map to_lower ''STOP'')) Viewer (t_active TerminalManager_new)
        (console_world Viewer) = Done (out2, act) (console_world Viewer)"
      using run_command_denied [OF f(2,1)] by blast
    from runOnce_command [OF _ console_role this] that show thesis by auto
  qed
  from terminal_authorization [OF console_role f(1) r] f(2) r command_words(1) show ?thesis by auto
qed

lemma stop_command_effect:
  assumes "attached w" "kernel w = []" "getCurrentRole idx w = Some r" "UserRole_hasFlag r SysAdmin"
    and "map to_lower line = ''stop''" "\<forall>u \<in> set (users (shm w)). active u \<longrightarrow> 0 < session_pid u"
    and "4 * (int (length (msgq w)) + int (length (filter active (users (shm w))))) \<le> msg_qbytes w"
  shows "\<exists>t' out w'. runOnce idx (Line line) t w = Done (t', out) w'
     \<and> shm w' = (shm w)\<lparr>running := False\<rparr> \<and> HaltCommanded \<in> set out
     \<and> (\<forall>p. mailbox p (msgq w') = mailbox p (msgq w) @ end_signals p (users (shm w)))
     \<and> \<not> t_active t' \<and> \<not> keep_running t' \<and> attached w' \<and> kernel w' = [] \<and> sems w' = sems w"
proof -
  define w0 where "w0 = w\<lparr>shm := (shm w)\<lparr>running := False\<rparr>\<rparr>"
  have "kernel w0 = []" "4 * (int (length (msgq w0)) + int (length (filter active (users (shm w))))) \<le> msg_qbytes w0"
    using assms(2,7) by (simp_all add: w0_def)
  then obtain q where q: "stop_loop (users (shm w)) w0 = Done () (w0\<lparr>msgq := q\<rparr>)"
    "\<forall>p. mailbox p q = mailbox p (msgq w) @ end_signals p (users (shm w))"
    using stop_loop_sends [of w0 "users (shm w)"] assms(6) by (auto simp: w0_def)
  have "run_command idx Stop r a w = Done ([HaltCommanded], False) (w0\<lparr>msgq := q\<rparr>)" for a
    using assms(1,4) q(1) by (simp add: run_command_def handleStop_def w0_def)
  moreover have "line \<noteq> ''exit'' \<and> line \<noteq> ''quit'' \<and> line \<noteq> []"
    using assms(5) by (auto simp: to_lower_def)
  ultimately obtain t' out where "runOnce idx (Line line) t w = Done (t', out) (w0\<lparr>msgq := q\<rparr>)"
    "HaltCommanded \<in> set out" "\<not> t_active t'" "\<not> keep_running t'"
    using runOnce_command [of line idx w r t "[HaltCommanded]" False "w0\<lparr>msgq := q\<rparr>"] assms(3,5) command_words(3)
    by auto
  then show ?thesis using q(2) assms(1,2) by (auto simp: w0_def)
qed

text \<open>
  The emergency stop.  When an administrator enters \<open>stop\<close> in any spelling of upper and lower case,
  the system is marked as not running, every active session gets exactly one end-of-work signal
  behind what is already in its mailbox, nobody else gets anything, and the console closes.
\<close>

theorem stop_reaches_everyone:
  assumes "attached w" "kernel w = []" "getCurrentRole idx w = Some r" "UserRole_hasFlag r SysAdmin"
    and "map to_lower line = ''stop''" "\<forall>u \<in> set (users (shm w)). active u \<longrightarrow> 0 < session_pid u"
    and "4 * (int (length (msgq w)) + int (length (filter active (users (shm w))))) \<le> msg_qbytes w"
  shows "\<exists>t' out w'. runOnce idx (Line line) t w = Done (t', out) w'
     \<and> shm w' = (shm w)\<lparr>running := False\<rparr> \<and> HaltCommanded \<in> set out
     \<and> (\<forall>p. mailbox p (msgq w') = mailbox p (msgq w) @ end_signals p (users (shm w)))
     \<and> \<not> t_active t' \<and> \<not> keep_running t'"
  using stop_command_effect [OF assms] by blast

lemma admin_flag: "UserRole_hasFlag (UserRole_or Operator SysAdmin) SysAdmin"
  unfolding UserRole_hasFlag_or by (simp only: role_flag_bits) (simp add: SysAdmin_def)

theorem stop_reaches_everyone_witness:
  "\<exists>t' out w'. runOnce 0 (Line ''Stop'') TerminalManager_new (console_world (UserRole_or Operator SysAdmin))
      = Done (t', out) w'
     \<and> \<not> running (shm w') \<and> mailbox 42 (msgq w') = [SIGNAL_END_WORK] \<and> mailbox 43 (msgq w') = []"
proof -
  define w where "w = console_world (UserRole_or Operator SysAdmin)"
  have u: "users (shm w) = new_session ''AdminConsole'' (UserRole_or Operator SysAdmin) 1 1 42 # replicate 209 zero_UserSession"
    by (simp add: w_def)
  have a: "active (new_session n x y z p)" "session_pid (new_session n x y z p) = p" "\<not> active zero_UserSession" for n x y z p
    by (simp_all add: new_session_def zero_UserSession_def)
  have l: "map to_lower ''Stop'' = ''stop''" by code_simp
  have e: "end_signals 42 (users (shm w)) = [SIGNAL_END_WORK]" "end_signals 43 (users (shm w)) = []"
    unfolding end_signals_def u by (simp_all add: a)
  have p: "\<forall>v \<in> set (users (shm w)). active v \<longrightarrow> 0 < session_pid v" unfolding u by (simp add: a)
  have f: "4 * (int (length (msgq w)) + int (length (filter active (users (shm w))))) \<le> msg_qbytes w"
    unfolding u by (simp add: a w_def)
  have k: "attached w" "kernel w = []" "msgq w = []" by (simp_all add: w_def)
  have r: "getCurrentRole 0 w = Some (UserRole_or Operator SysAdmin)" by (simp add: w_def console_role)
  from stop_reaches_everyone [OF k(1,2) r admin_flag l p f, of TerminalManager_new] show ?thesis
    by (auto simp: w_def [symmetric] e k(3))
qed

text \<open>
  The express request.  When an operator or administrator enters \<open>vip\<close>, the process that is logged
  in as \<open>System-Express\<close> gets one express-load signal and nobody else gets anything; if no such process
  is logged in, nothing is sent and the console says so.
\<close>

theorem vip_reaches_express:
  assumes "attached w" "kernel w = []" "msg_room w" "sessions_inv (shm w)"
    and "getCurrentRole idx w = Some r" "UserRole_hasFlag r Operator \<or> UserRole_hasFlag r SysAdmin"
    and "map to_lower line = ''vip''" "\<forall>p. session_of ''System-Express'' (shm w) = Some p \<longrightarrow> 0 < p"
  shows "\<exists>t' out w'. runOnce idx (Line line) t w = Done (t', out) w' \<and> shm w' = shm w
     \<and> (case session_of ''System-Express'' (shm w) of
          None \<Rightarrow> w' = w \<and> ExpressOffline \<in> set out
        | Some p \<Rightarrow> VipSent p \<in> set out \<and> mailbox p (msgq w') = mailbox p (msgq w) @ [SIGNAL_EXPRESS_LOAD]
            \<and> (\<forall>p'. p' \<noteq> p \<longrightarrow> mailbox p' (msgq w') = mailbox p' (msgq w)))"
proof -
  have n: "line \<noteq> ''exit'' \<and> line \<noteq> ''quit'' \<and> line \<noteq> []" using assms(7) by (auto simp: to_lower_def)
  have v: "resolve ''vip'' = Vip" by code_simp
  show ?thesis
  proof (cases "session_of ''System-Express'' (shm w)")
    case None
    then have "run_command idx Vip r a w = Done ([ExpressOffline], a) w" for a
      using assms(1,6) by (auto simp: run_command_def handleVip_def findProcessByRole_alt)
    then obtain t' out where "runOnce idx (Line line) t w = Done (t', out) w" "ExpressOffline \<in> set out"
      using runOnce_command [OF n assms(5), of t "[ExpressOffline]" "t_active t" w] v assms(7) by auto
    then show ?thesis using None by auto
  next
    case (Some p)
    define w1 where "w1 = w\<lparr>msgq := msg_send p SIGNAL_EXPRESS_LOAD (msgq w)\<rparr>"
    have "run_command idx Vip r a w = Done ([VipSent p], a) w1" for a
      using assms(1-3,6,8) Some
      by (auto simp: run_command_def handleVip_def findProcessByRole_alt sendSignal_ok w1_def)
    moreover have "shm w1 = shm w" "mailbox p' (msgq w1) = mailbox p' (msgq w) @ (if p' = p then [SIGNAL_EXPRESS_LOAD] else [])" for p'
      by (simp_all add: w1_def queue_channel.box_send)
    moreover obtain t' out where "runOnce idx (Line line) t w = Done (t', out) w1" "VipSent p \<in> set out"
      using runOnce_command [OF n assms(5), of t "[VipSent p]" "t_active t" w1] v assms(7) calculation(1) by auto
    ultimately show ?thesis using Some by auto
  qed
qed

theorem vip_reaches_express_witness:
  "\<exists>t' out w'. runOnce 0 (Line ''vip'') TerminalManager_new (console_world (UserRole_or Operator SysAdmin))
       = Done (t', out) w' \<and> ExpressOffline \<in> set out"
proof -
  define w where "w = console_world (UserRole_or Operator SysAdmin)"
  have u: "users (shm w) = new_session ''AdminConsole'' (UserRole_or Operator SysAdmin) 1 1 42 # replicate 209 zero_UserSession"
    by (simp add: w_def)
  have none: "session_of ''System-Express'' (shm w) = None"
    unfolding session_of_None_iff u by (simp add: c_str_def NUL_def zero_UserSession_def)
  have "sessions_inv (shm w)"
    unfolding w_def console_world_def
    using boot_sessions(1) new_session_ok [of 1] session_of_None_iff [of _ "shm boot_world"] boot_sessions(3)
    by (simp, intro sessions_inv_update) (auto simp: INT32_MAX_def init_shm_def zero_SharedState_def shared_consts zero_UserSession_def)
  moreover have "map to_lower ''vip'' = ''vip''" by code_simp
  moreover have "getCurrentRole 0 w = Some (UserRole_or Operator SysAdmin)" by (simp add: w_def console_role)
  moreover have "attached w" "kernel w = []" "msg_room w" by (simp_all add: w_def msg_room_def)
  ultimately have "\<exists>t' out w'. runOnce 0 (Line ''vip'') TerminalManager_new w = Done (t', out) w' \<and> ExpressOffline \<in> set out"
    using vip_reaches_express [of w 0 "UserRole_or Operator SysAdmin" "''vip''" TerminalManager_new] none admin_flag by auto
  then show ?thesis by (simp add: w_def)
qed

end
