(* ===== verification/Config.thy ===== *)
theory Config
  imports Terminal
begin

text \<open>
  \<open>include/Config.h\<close>: the logger settings that are read from the environment.

  The environment is a map from names to values.  spdlog itself is not modelled: a logger is the
  record of what it was given, and whether opening the log file throws is an argument.
\<close>

datatype log_level = Trace | Debug | Info | Warn | Err | Critical | Off

datatype sink = ConsoleSink | FileSink string

record logger =
  log_name :: string
  log_sinks :: "sink list"
  log_lvl :: log_level

definition getEnv :: "(string \<Rightarrow> string option) \<Rightarrow> string \<Rightarrow> string \<Rightarrow> string" where
  "getEnv env key defaultVal = (case env key of Some raw \<Rightarrow> raw | None \<Rightarrow> defaultVal)"

definition dispatchLogLevel :: "string \<Rightarrow> log_level" where
  "dispatchLogLevel level =
     (case map_of [(''trace'', Trace), (''debug'', Debug), (''info'', Info), (''warn'', Warn),
                   (''err'', Err), (''crit'', Critical), (''off'', Off)] (map to_lower level) of
        Some l \<Rightarrow> l | None \<Rightarrow> Info)"

text \<open>The new default logger; if the file sink throws, the old one stays.\<close>

definition setupLogger :: "(string \<Rightarrow> string option) \<Rightarrow> bool \<Rightarrow> string \<Rightarrow> logger \<Rightarrow> logger" where
  "setupLogger env file_throws proc_name old =
     (let to_console = (getEnv env ''LOG_TO_CONSOLE'' ''true'' = ''true'');
          to_file = (getEnv env ''LOG_TO_FILE'' ''true'' = ''true'');
          level_str = getEnv env ''LOG_LEVEL'' ''info''
      in if to_file \<and> file_throws then old
         else \<lparr>log_name = proc_name,
               log_sinks = (if to_console then [ConsoleSink] else [])
                         @ (if to_file then [FileSink ''logs/simulation_report.txt''] else []),
               log_lvl = dispatchLogLevel level_str\<rparr>)"

lemma dispatchLogLevel_case: "dispatchLogLevel (map to_lower l) = dispatchLogLevel l"
  by (simp add: dispatchLogLevel_def comp_def)

section \<open>Properties\<close>

text \<open>
  Logger settings.  With no variable set, every process logs to the console and to one common file
  at level \<open>info\<close>, although the documentation of \<open>setupLogger\<close> gives \<open>false\<close> as the default of
  \<open>LOG_TO_FILE\<close> and a file per process; the spelling of the level in upper or lower case does not
  matter, and an unknown level means \<open>info\<close>.
\<close>

theorem logger_settings:
  "setupLogger (\<lambda>_. None) False proc old =
     \<lparr>log_name = proc, log_sinks = [ConsoleSink, FileSink ''logs/simulation_report.txt''], log_lvl = Info\<rparr>
   \<and> (\<forall>env. log_sinks (setupLogger (env(''LOG_TO_FILE'' := Some ''false'')) throws proc old)
        = (if getEnv env ''LOG_TO_CONSOLE'' ''true'' = ''true'' then [ConsoleSink] else []))
   \<and> dispatchLogLevel (map to_lower lvl) = dispatchLogLevel lvl
   \<and> dispatchLogLevel ''DEBUG'' = Debug \<and> dispatchLogLevel ''verbose'' = Info"
proof -
  have l: "dispatchLogLevel ''info'' = Info" "dispatchLogLevel ''DEBUG'' = Debug" "dispatchLogLevel ''verbose'' = Info"
    by code_simp+
  then show ?thesis
    by (simp add: setupLogger_def getEnv_def dispatchLogLevel_case Let_def)
qed

end
