(* ===== verification/Processes.thy ===== *)
theory Processes
  imports Dispatcher Express Truck Worker Config
begin

text \<open>
  \<open>src/main*.cpp\<close>: the entry points of the processes.

  Each process attaches to the IPC objects, logs in under its name, runs its loop and logs out on the
  way out.  A loop gets the list of what happens around it, as in the component theories; \<open>None\<close>
  means that the list was used up while the loop went on.  The signal handlers only set a flag, which
  is part of these lists.  Starting a child is described by the argument vector and the value \<open>fork\<close>
  returns in the parent.
\<close>

datatype exit_status = EXIT_SUCCESS | EXIT_FAILURE

section \<open>Sessions of the processes\<close>

text \<open>
  The guard objects: the constructor logs in and throws when that fails, which ends \<open>main\<close> with
  \<open>EXIT_FAILURE\<close>; the destructor logs out.
\<close>

definition session_guard ::
  "string \<Rightarrow> UserRole \<Rightarrow> OrgId \<Rightarrow> int \<Rightarrow> pid_t \<Rightarrow> (int \<Rightarrow> world \<Rightarrow> 'a outcome option) \<Rightarrow> world \<Rightarrow>
   exit_status outcome option"
where
  "session_guard name r org max_procs pid body w =
     (case login name r org max_procs pid (-1) w of
        Done (ok, c) w1 \<Rightarrow>
          (if \<not> ok then Some (Done EXIT_FAILURE w1)
           else map_option (\<lambda>res. obind res (\<lambda>_ w2. obind (logout c w2) (\<lambda>_ w3. Done EXIT_SUCCESS w3))) (body c w1))
      | Blocked p w1 \<Rightarrow> Some (Blocked p w1)
      | Exited e w1 \<Rightarrow> Some (Exited e w1)
      | UB \<Rightarrow> Some UB)"

text \<open>Decimal notation, \<open>std::to_string\<close> of an \<open>int\<close>.\<close>

fun digits :: "nat \<Rightarrow> string" where
  "digits n = (if n < 10 then [char_of (48 + n)] else digits (n div 10) @ [char_of (48 + n mod 10)])"

definition to_string :: "int \<Rightarrow> string" where
  "to_string i = (if i < 0 then CHR ''-'' # digits (nat (- i)) else digits (nat i))"

section \<open>The loops of the processes\<close>

definition main_dispatcher :: "pid_t \<Rightarrow> (world \<Rightarrow> world) list list \<Rightarrow> world \<Rightarrow> exit_status outcome option" where
  "main_dispatcher pid rounds =
     session_guard ''System-Dispatcher'' Operator 0 1 pid (\<lambda>_. dispatcher_run rounds)"

definition truck_body :: "pid_t \<Rightarrow> ((world \<Rightarrow> world) \<times> rolls) list \<Rightarrow> world \<Rightarrow> unit outcome option" where
  "truck_body pid ins w =
     (case truck_run pid ins Arriving w of
        Done pc w1 \<Rightarrow> if pc = Ended then Some (Done () w1) else None
      | Blocked p w1 \<Rightarrow> Some (Blocked p w1)
      | Exited e w1 \<Rightarrow> Some (Exited e w1)
      | UB \<Rightarrow> Some UB)"

definition main_truck :: "int \<Rightarrow> pid_t \<Rightarrow> ((world \<Rightarrow> world) \<times> rolls) list \<Rightarrow> world \<Rightarrow> exit_status outcome option" where
  "main_truck id_arg pid ins =
     session_guard (''Truck_'' @ to_string id_arg) Operator 0 1 pid (\<lambda>_. truck_body pid ins)"

definition main_worker ::
  "int \<Rightarrow> pid_t \<Rightarrow> ((world \<Rightarrow> world) \<times> bool \<times> worker_draw) list \<Rightarrow> world \<Rightarrow> exit_status outcome option"
where
  "main_worker worker_id pid ins =
     session_guard (''Worker_'' @ to_string worker_id) Operator 0 10 pid (\<lambda>c. worker_run c pid ins)"

text \<open>The express process: before each test other processes act and the handler may set its flag.\<close>

fun express_main_loop ::
  "pid_t \<Rightarrow> ((world \<Rightarrow> world) \<times> bool \<times> draw list) list \<Rightarrow> bool \<Rightarrow> world \<Rightarrow> unit outcome option"
where
  "express_main_loop pid [] stop_requested w = None"
| "express_main_loop pid ((e, sg, draws) # rest) stop_requested w =
     (let w1 = e w; stop = (stop_requested \<or> sg) in
      if stop \<or> \<not> running (shm w1) then Some (Done () w1)
      else (case receiveSignalBlocking pid w1 of
          Done sig w2 \<Rightarrow>
            (if sig = SIGNAL_EXPRESS_LOAD then
               (case deliverExpressBatch draws w2 of
                  Done _ w3 \<Rightarrow> express_main_loop pid rest stop w3
                | res \<Rightarrow> Some res)
             else if sig = SIGNAL_END_WORK then Some (Done () w2)
             else express_main_loop pid rest stop w2)
        | Blocked p w2 \<Rightarrow> Some (Blocked p w2)
        | Exited x w2 \<Rightarrow> Some (Exited x w2)
        | UB \<Rightarrow> Some UB))"

definition main_express ::
  "pid_t \<Rightarrow> ((world \<Rightarrow> world) \<times> bool \<times> draw list) list \<Rightarrow> world \<Rightarrow> exit_status outcome option"
where
  "main_express pid ins =
     session_guard ''System-Express'' Operator 0 1 pid (\<lambda>_. express_main_loop pid ins False)"

text \<open>
  The belt monitor.  \<open>ticks\<close> counts the rounds of the inner loop that are left (0: the test of the
  outer loop), \<open>counter\<close> is \<open>log_counter\<close>, and the reports are collected.
\<close>

fun belt_monitor ::
  "nat \<Rightarrow> int \<Rightarrow> (int \<times> int) list \<Rightarrow> ((world \<Rightarrow> world) \<times> bool) list \<Rightarrow> bool \<Rightarrow> world \<Rightarrow>
   (int \<times> int) list outcome option"
where
  "belt_monitor ticks counter reports [] stop_flag w = None"
| "belt_monitor 0 counter reports ((e, sg) # rest) stop_flag w =
     (let w1 = e w; stop = (stop_flag \<or> sg) in
      if stop \<or> \<not> running (shm w1) then Some (Done reports w1)
      else if 5 \<le> counter + 1
      then belt_monitor 10 0 (reports @ [(getCount w1, getWorkerCount w1)]) rest stop w1
      else belt_monitor 10 (counter + 1) reports rest stop w1)"
| "belt_monitor (Suc ticks) counter reports ((e, sg) # rest) stop_flag w =
     (let w1 = e w; stop = (stop_flag \<or> sg) in
      if stop \<or> \<not> running (shm w1) then belt_monitor 0 counter reports rest stop w1
      else belt_monitor ticks counter reports rest stop (sleep_ms 100 w1))"

definition main_belt :: "pid_t \<Rightarrow> ((world \<Rightarrow> world) \<times> bool) list \<Rightarrow> world \<Rightarrow> exit_status outcome option" where
  "main_belt pid ins =
     session_guard ''System-Belt'' Operator 0 1 pid (\<lambda>_. belt_monitor 0 0 [] ins False)"

text \<open>The console: \<open>sg\<close> says whether the handler of \<open>SIGINT\<close> ran before the test.\<close>

fun terminal_loop ::
  "int \<Rightarrow> ((world \<Rightarrow> world) \<times> bool \<times> stdin_event) list \<Rightarrow> terminal \<Rightarrow> world \<Rightarrow> screen list outcome option"
where
  "terminal_loop idx [] t w = None"
| "terminal_loop idx ((e, sg, input) # rest) t w =
     (let w1 = e w; t1 = (if sg then t\<lparr>keep_running := False\<rparr> else t) in
      if \<not> (keep_running t1 \<and> running (shm w1)) then Some (Done [] w1)
      else (case runOnce idx input t1 w1 of
          Done (t2, out) w2 \<Rightarrow>
            (if \<not> keep_running t2 then Some (Done out w2)
             else map_option (\<lambda>r. obind r (\<lambda>out' w3. Done (out @ out') w3)) (terminal_loop idx rest t2 w2))
        | Blocked p w2 \<Rightarrow> Some (Blocked p w2)
        | Exited x w2 \<Rightarrow> Some (Exited x w2)
        | UB \<Rightarrow> Some UB))"

definition main_terminal ::
  "pid_t \<Rightarrow> ((world \<Rightarrow> world) \<times> bool \<times> stdin_event) list \<Rightarrow> world \<Rightarrow> exit_status outcome option"
where
  "main_terminal pid ins =
     session_guard ''AdminConsole'' (UserRole_or Operator SysAdmin) 1 1 pid
       (\<lambda>idx. terminal_loop idx ins TerminalManager_new)"

section \<open>The master process\<close>

definition child_args :: "string \<Rightarrow> string \<Rightarrow> string list" where
  "child_args proc_name arg = [proc_name] @ (if arg = [] then [] else [arg])"

text \<open>The children in the order of \<open>main\<close>: binary, name, argument, and the pause after the call in ms.\<close>

definition deployment :: "(string \<times> string \<times> string \<times> int) list" where
  "deployment =
     [(''./build/dispatcher'', ''dispatcher'', [], 0), (''./build/express'', ''express'', [], 0),
      (''./build/belt'', ''belt'', [], 500)]
     @ map (\<lambda>i. (''./build/truck'', ''truck'', to_string i, 200)) [1..2]
     @ map (\<lambda>i. (''./build/worker'', ''worker'', to_string i, 200)) [1..3]"

text \<open>
  \<open>spawnChild\<close> in the process for which \<open>fork\<close> has returned \<open>pid\<close>.  A negative value: \<open>exit(1)\<close>.  Zero, the
  child: it becomes another program with an argument vector, or \<open>exit(1)\<close> if \<open>execv\<close> fails.  Otherwise, the
  parent: the pid is appended to \<open>children_pids\<close>.
\<close>

datatype spawn_end = Exits int | Becomes string "string list" | Continues "pid_t list"

definition spawnChild :: "string \<Rightarrow> string \<Rightarrow> string \<Rightarrow> bool \<Rightarrow> pid_t \<Rightarrow> pid_t list \<Rightarrow> spawn_end" where
  "spawnChild binary_path proc_name arg exec_fails pid pids =
     (if pid < 0 then Exits 1
      else if pid = 0 then (if exec_fails then Exits 1 else Becomes binary_path (child_args proc_name arg))
      else Continues (pids @ [pid]))"

text \<open>
  What the master has done to other processes: \<open>children_pids\<close>, the processes that \<open>fork\<close> has made with
  what became of them, and the signals that were sent with \<open>kill\<close>, in order.
\<close>

datatype signum = SIGINT | SIGTERM

record family =
  children_pids :: "pid_t list"
  born :: "(pid_t \<times> spawn_end) list"
  sent :: "(pid_t \<times> signum) list"

definition no_family :: family where
  "no_family = \<lparr>children_pids = [], born = [], sent = []\<rparr>"

text \<open>
  One call with both processes that return from \<open>fork\<close>.  The values are what \<open>fork\<close> returns in the parent,
  never 0 there, and whether \<open>execv\<close> fails in the child.
\<close>

definition fork_child :: "string \<times> string \<times> string \<times> int \<Rightarrow> pid_t \<times> bool \<Rightarrow> family \<Rightarrow> int + family" where
  "fork_child c x fam = (case (c, x) of ((binary_path, proc_name, arg, pause), (pid, exec_fails)) \<Rightarrow>
     (case spawnChild binary_path proc_name arg exec_fails pid (children_pids fam) of
        Exits s \<Rightarrow> Inl s
      | Becomes b a \<Rightarrow> Inl 0
      | Continues pids \<Rightarrow>
          Inr (fam\<lparr>children_pids := pids,
                 born := born fam @ [(pid, spawnChild binary_path proc_name arg exec_fails 0 (children_pids fam))]\<rparr>)))"

fun spawn_all ::
  "(string \<times> string \<times> string \<times> int) list \<Rightarrow> (pid_t \<times> bool) list \<Rightarrow> family \<Rightarrow> world \<Rightarrow> int \<times> family + family \<times> world"
where
  "spawn_all [] forks fam w = Inr (fam, w)"
| "spawn_all (c # cs) [] fam w = Inl (1, fam)"
| "spawn_all (c # cs) (x # xs) fam w =
     (case fork_child c x fam of
        Inl s \<Rightarrow> Inl (s, fam)
      | Inr fam' \<Rightarrow> spawn_all cs xs fam' (sleep_ms (snd (snd (snd c))) w))"

fun master_loop :: "((world \<Rightarrow> world) \<times> bool) list \<Rightarrow> bool \<Rightarrow> world \<Rightarrow> world option" where
  "master_loop [] stop w = None"
| "master_loop ((e, sg) # rest) stop w =
     (let w1 = e w; stop' = (stop \<or> sg) in
      if stop' \<or> \<not> running (shm w1) then Some w1 else master_loop rest stop' (sleep_ms 500 w1))"

text \<open>After the loop the master clears \<open>running\<close>, sends \<open>SIGTERM\<close> to every child and waits a second.\<close>

definition kill_child :: "pid_t \<Rightarrow> signum \<Rightarrow> family \<Rightarrow> family" where
  "kill_child pid s fam = fam\<lparr>sent := sent fam @ [(pid, s)]\<rparr>"

definition master_shutdown :: "family \<Rightarrow> world \<Rightarrow> family \<times> world" where
  "master_shutdown fam w =
     (let w1 = w\<lparr>shm := (shm w)\<lparr>running := False\<rparr>\<rparr>;
          fam1 = fold (\<lambda>pid. kill_child pid SIGTERM) (children_pids fam) fam
      in (fam1, sleep_ms 1000 w1))"

definition master_main ::
  "(pid_t \<times> bool) list \<Rightarrow> ((world \<Rightarrow> world) \<times> bool) list \<Rightarrow> world \<Rightarrow> (int \<times> family + family \<times> world) option"
where
  "master_main forks ins w =
     (case spawn_all deployment forks no_family w of
        Inl (s, fam) \<Rightarrow> Some (Inl (s, fam))
      | Inr (fam, w0) \<Rightarrow>
          (case master_loop ins False w0 of
             None \<Rightarrow> None | Some w1 \<Rightarrow> Some (Inr (master_shutdown fam w1))))"

section \<open>All processes log in\<close>

lemma active_count_update:
  assumes "i < length us" "\<not> active (us ! i)" "active u"
  shows "length (filter active (us[i := u])) = Suc (length (filter active us))"
  using assms by (induction us arbitrary: i) (auto split: nat.splits simp: nth_Cons)

lemma has_free_slot_iff:
  assumes "sessions_inv s"
  shows "has_free_slot s \<longleftrightarrow> length (filter active (users s)) < 210"
proof -
  have "length (users s) = 210" using assms by (simp add: sessions_inv_def shared_consts)
  moreover have "\<not> has_free_slot s \<Longrightarrow> filter active (users s) = users s"
    by (simp add: has_free_slot_def filter_id_conv)
  moreover have "has_free_slot s \<Longrightarrow> length (filter active (users s)) < length (users s)"
    using length_filter_less [of _ "users s" active] by (auto simp: has_free_slot_def)
  ultimately show ?thesis by (cases "has_free_slot s") simp_all
qed

text \<open>Processes that log in one after the other, each with its own pid.\<close>

fun login_all :: "(string \<times> UserRole \<times> OrgId \<times> int \<times> pid_t) list \<Rightarrow> world \<Rightarrow> bool list outcome" where
  "login_all [] w = Done [] w"
| "login_all ((n, r, org, mp, p) # xs) w =
     obind (login n r org mp p (-1) w) (\<lambda>(ok, _) w1. obind (login_all xs w1) (\<lambda>oks w2. Done (ok # oks) w2))"

definition login_key :: "string \<Rightarrow> char list" where
  "login_key n = take 31 (c_str n)"

lemma login_step:
  assumes "attached w" "kernel w = []" "0 < sems w SEM_MUTEX_BELT" "sessions_inv (shm w)"
    and "session_of (login_key n) (shm w) = None" "length (filter active (users (shm w))) < 210"
    and "0 \<le> mp" "mp \<le> INT32_MAX"
  shows "\<exists>k s'. login n r org mp p (-1) w = Done (True, k) (w\<lparr>shm := s'\<rparr>) \<and> sessions_inv s'
     \<and> session_of (login_key n) s' = Some p
     \<and> (\<forall>m. m \<noteq> login_key n \<longrightarrow> session_of m s' = session_of m (shm w))
     \<and> length (filter active (users s')) = Suc (length (filter active (users (shm w))))"
proof -
  have free: "has_free_slot (shm w)" using assms(4,6) has_free_slot_iff by blast
  then obtain k s' where k: "login_body n r org mp p (-1) (shm w) = Some ((True, k), s')" "sessions_inv s'"
    "session_index_ok k s'" "k \<noteq> -1" "\<not> active (users (shm w) ! nat k)"
    "users s' = (users (shm w))[nat k := new_session n r org mp p]"
    "session_of (login_key n) s' = Some p"
    "\<forall>m. m \<noteq> login_key n \<longrightarrow> session_of m s' = session_of m (shm w)"
    using login_body_success [OF assms(4) assms(5) [unfolded login_key_def] _ assms(7,8), of r org p "-1"]
    by (auto simp: has_free_slot_def login_key_def)
  have "nat k < length (users (shm w))" using session_index_range(3) [OF k(2-4)] k(6) by simp
  then have "length (filter active (users s')) = Suc (length (filter active (users (shm w))))"
    using active_count_update [of "nat k" "users (shm w)" "new_session n r org mp p"] k(5,6)
    by (simp add: new_session_def)
  then show ?thesis using k assms(1-3)
    by (intro exI [of _ k] exI [of _ s']) (simp add: login_def belt_mutex.bracket_shm)
qed

lemma login_all_ok:
  assumes "attached w" "kernel w = []" "0 < sems w SEM_MUTEX_BELT" "sessions_inv (shm w)"
    and "distinct (map (login_key \<circ> fst) xs)" "\<forall>x \<in> set xs. session_of (login_key (fst x)) (shm w) = None"
    and "length (filter active (users (shm w))) + length xs \<le> 210"
    and "\<forall>(n, r, org, mp, p) \<in> set xs. 0 \<le> mp \<and> mp \<le> INT32_MAX"
  shows "\<exists>w'. login_all xs w = Done (map (\<lambda>_. True) xs) w' \<and> sessions_inv (shm w') \<and> sems w' = sems w
     \<and> (\<forall>(n, r, org, mp, p) \<in> set xs. session_of (login_key n) (shm w') = Some p)
     \<and> (\<forall>m. m \<notin> set (map (login_key \<circ> fst) xs) \<longrightarrow> session_of m (shm w') = session_of m (shm w))"
  using assms
proof (induction xs arbitrary: w)
  case Nil
  then show ?case by simp
next
  case (Cons x xs)
  obtain n r org mp p where x: "x = (n, r, org, mp, p)" by (cases x) auto
  obtain k s' where s': "login n r org mp p (-1) w = Done (True, k) (w\<lparr>shm := s'\<rparr>)" "sessions_inv s'"
    "session_of (login_key n) s' = Some p"
    "\<forall>m. m \<noteq> login_key n \<longrightarrow> session_of m s' = session_of m (shm w)"
    "length (filter active (users s')) = Suc (length (filter active (users (shm w))))"
    using login_step [OF Cons.prems(1-4), of n mp r org p] Cons.prems(6-8) by (auto simp: x)
  have nin: "login_key n \<notin> set (map (login_key \<circ> fst) xs)" using Cons.prems(5) by (simp add: x)
  have none: "\<forall>y \<in> set xs. session_of (login_key (fst y)) s' = None"
  proof
    fix y assume y: "y \<in> set xs"
    then have "login_key (fst y) \<noteq> login_key n" using nin by force
    then show "session_of (login_key (fst y)) s' = None" using y s'(4) Cons.prems(6) by simp
  qed
  obtain w' where "login_all xs (w\<lparr>shm := s'\<rparr>) = Done (map (\<lambda>_. True) xs) w'" "sessions_inv (shm w')"
    "sems w' = sems w" "\<forall>(n, r, org, mp, p) \<in> set xs. session_of (login_key n) (shm w') = Some p"
    "\<forall>m. m \<notin> set (map (login_key \<circ> fst) xs) \<longrightarrow> session_of m (shm w') = session_of m s'"
    using Cons.IH [of "w\<lparr>shm := s'\<rparr>"] Cons.prems s'(2,5) none by auto
  then show ?case using s' nin by (auto simp: x)
qed

text \<open>
  What the constructor of a guard establishes for its destructor: after any run in between that leaves
  the session table and the semaphores alone, logging out restores every lookup.
\<close>

definition guard_ends :: "int \<Rightarrow> SharedState \<Rightarrow> world \<Rightarrow> bool" where
  "guard_ends k s' w \<longleftrightarrow> (\<forall>w2. users (shm w2) = users s' \<and> sems w2 = sems w \<and> attached w2 \<and> kernel w2 = [] \<longrightarrow>
     (\<exists>s3. logout k w2 = Done (-1) (w2\<lparr>shm := s3\<rparr>) \<and> s3 = (shm w2)\<lparr>users := users s3\<rparr>
         \<and> (\<forall>n. session_of n s3 = session_of n (shm w))))"

lemma guard_bracket:
  assumes "attached w" "kernel w = []" "0 < sems w SEM_MUTEX_BELT" "sessions_inv (shm w)"
    and free: "session_of (login_key name) (shm w) = None" "has_free_slot (shm w)" and mp: "0 \<le> mp" "mp \<le> INT32_MAX"
  shows "\<exists>k s'. login name r org mp pid (-1) w = Done (True, k) (w\<lparr>shm := s'\<rparr>)
     \<and> s' = (shm w)\<lparr>users := users s'\<rparr> \<and> guard_ends k s' w"
proof -
  obtain k s' where k: "login_body name r org mp pid (-1) (shm w) = Some ((True, k), s')" "sessions_inv s'"
    "session_index_ok k s'" "k \<noteq> -1" "session_of (login_key name) s' = Some pid"
    "users s' = (users (shm w))[nat k := new_session name r org mp pid]"
    "\<forall>m. m \<noteq> login_key name \<longrightarrow> session_of m s' = session_of m (shm w)" "s' = (shm w)\<lparr>users := users s'\<rparr>"
    using login_body_success [OF assms(4) _ _ mp, of name r org pid "-1"] free
    by (auto simp: has_free_slot_def login_key_def)
  have "\<exists>s3. logout k w2 = Done (-1) (w2\<lparr>shm := s3\<rparr>) \<and> s3 = (shm w2)\<lparr>users := users s3\<rparr>
      \<and> (\<forall>n. session_of n s3 = session_of n (shm w))"
    if w2: "users (shm w2) = users s'" "sems w2 = sems w" "attached w2" "kernel w2 = []" for w2
  proof -
    have s2: "sessions_inv (shm w2)" "session_index_ok k (shm w2)" using sessions_cong [OF w2(1)] k(2,3) by simp_all
    have so: "session_of m (shm w2) = session_of m s'" for m using w2(1) by (simp add: session_of_def)
    have nm: "cname (users (shm w2) ! nat k) = login_key name"
      using session_index_range(3) [OF k(2-4)] k(6) by (simp add: w2(1) login_key_def)
    obtain s3 where s3: "logout_body k (shm w2) = Some (-1, s3)" "session_of (login_key name) s3 = None"
      "\<forall>n. n \<noteq> login_key name \<longrightarrow> session_of n s3 = session_of n (shm w2)" "s3 = (shm w2)\<lparr>users := users s3\<rparr>"
      using logout_body_spec [OF s2 k(4)] nm by auto
    have "session_of n s3 = session_of n (shm w)" for n
      using s3(2,3) so k(7) free by (cases "n = login_key name") auto
    moreover have "logout k w2 = Done (-1) (w2\<lparr>shm := s3\<rparr>)"
      using w2(2-4) assms(3) s3(1) k(4) by (simp add: logout_def belt_mutex.bracket_shm)
    ultimately show ?thesis using s3(4) by blast
  qed
  then have "guard_ends k s' w" by (simp add: guard_ends_def)
  moreover have "login name r org mp pid (-1) w = Done (True, k) (w\<lparr>shm := s'\<rparr>)"
    using k(1) assms(1-3) by (simp add: login_def belt_mutex.bracket_shm)
  ultimately show ?thesis using k(8) by blast
qed

lemma guard_refused:
  assumes "attached w" "kernel w = []" "0 < sems w SEM_MUTEX_BELT" "sessions_inv (shm w)"
    and "\<not> (session_of (login_key name) (shm w) = None \<and> has_free_slot (shm w))"
  shows "session_guard name r org mp pid body w = Some (Done EXIT_FAILURE w)"
proof -
  have "login_body name r org mp pid (-1) (shm w) = Some ((False, -1), shm w)"
    using login_body_cases [OF assms(4), of name r org mp pid "-1"] assms(5) by (auto simp: has_free_slot_def login_key_def)
  then have "login name r org mp pid (-1) w = Done (False, -1) w"
    using assms(1-3) by (simp add: login_def belt_mutex.bracket_shm)
  then show ?thesis by (simp add: session_guard_def)
qed

section \<open>Properties\<close>

text \<open>The sessions of the eight children and of the console, in the order in which they may log in.\<close>

definition fleet_logins :: "(nat \<Rightarrow> pid_t) \<Rightarrow> (string \<times> UserRole \<times> OrgId \<times> int \<times> pid_t) list" where
  "fleet_logins pid =
     [(''System-Dispatcher'', Operator, 0, 1, pid 0), (''System-Express'', Operator, 0, 1, pid 1),
      (''System-Belt'', Operator, 0, 1, pid 2),
      (''Truck_'' @ to_string 1, Operator, 0, 1, pid 3), (''Truck_'' @ to_string 2, Operator, 0, 1, pid 4),
      (''Worker_'' @ to_string 1, Operator, 0, 10, pid 5), (''Worker_'' @ to_string 2, Operator, 0, 10, pid 6),
      (''Worker_'' @ to_string 3, Operator, 0, 10, pid 7),
      (''AdminConsole'', UserRole_or Operator SysAdmin, 1, 1, pid 8)]"

lemma fleet_keys:
  "map (login_key \<circ> fst) (fleet_logins pid) =
    [''System-Dispatcher'', ''System-Express'', ''System-Belt'', ''Truck_1'', ''Truck_2'',
     ''Worker_1'', ''Worker_2'', ''Worker_3'', ''AdminConsole'']"
proof -
  have "map login_key [''System-Dispatcher'', ''System-Express'', ''System-Belt'', ''Truck_'' @ to_string 1,
     ''Truck_'' @ to_string 2, ''Worker_'' @ to_string 1, ''Worker_'' @ to_string 2, ''Worker_'' @ to_string 3,
     ''AdminConsole''] = [''System-Dispatcher'', ''System-Express'', ''System-Belt'', ''Truck_1'', ''Truck_2'',
     ''Worker_1'', ''Worker_2'', ''Worker_3'', ''AdminConsole'']" by code_simp
  then show ?thesis by (simp add: fleet_logins_def)
qed

text \<open>
  The names of the deployed processes do not collide.  On a freshly initialised system the
  dispatcher, the express worker, the belt monitor, both trucks, all three workers and the console
  can all log in, in any order of arrival, and each name then leads to the process that registered
  it; in particular the console finds the express process.
\<close>

theorem deployment_logs_in:
  assumes "set xs = set (fleet_logins pid)" "length xs = 9"
  shows "\<exists>w'. login_all xs boot_world = Done (replicate 9 True) w' \<and> sessions_inv (shm w')
     \<and> (\<forall>(n, r, org, mp, p) \<in> set xs. session_of (login_key n) (shm w') = Some p)
     \<and> findProcessByRole ''System-Express'' (shm w') = pid 1"
proof -
  define keys where "keys = map (login_key \<circ> fst) (fleet_logins pid)"
  have "distinct keys" unfolding keys_def fleet_keys by code_simp
  moreover have "length keys = 9" unfolding keys_def fleet_keys by simp
  moreover have sk: "set (map (login_key \<circ> fst) xs) = set keys" using assms(1) by (simp add: keys_def)
  ultimately have d: "distinct (map (login_key \<circ> fst) xs)"
    using assms(2) card_distinct [of "map (login_key \<circ> fst) xs"] distinct_card [of keys] by simp
  have mp: "\<forall>(n, r, org, mp, p) \<in> set xs. 0 \<le> mp \<and> mp \<le> INT32_MAX"
    unfolding assms(1) by (simp add: fleet_logins_def INT32_MAX_def)
  have no: "length (filter active (users (shm boot_world))) + length xs \<le> 210"
    using assms(2) by (simp add: init_shm_def zero_SharedState_def zero_UserSession_def)
  obtain w' where w': "login_all xs boot_world = Done (map (\<lambda>_. True) xs) w'" "sessions_inv (shm w')"
    "\<forall>(n, r, org, mp, p) \<in> set xs. session_of (login_key n) (shm w') = Some p"
    using login_all_ok [OF _ _ boot_sessions(4,1) d _ no mp] boot_sessions(3) by auto
  have "(''System-Express'', Operator, 0, 1, pid 1) \<in> set xs" unfolding assms(1) by (simp add: fleet_logins_def)
  moreover have "login_key ''System-Express'' = ''System-Express''" by code_simp
  ultimately have "findProcessByRole ''System-Express'' (shm w') = pid 1"
    using w'(3) unfolding findProcessByRole_alt by fastforce
  moreover have "map (\<lambda>_. True) xs = replicate 9 True" using assms(2) by (simp add: map_replicate_const)
  ultimately show ?thesis using w' by auto
qed

theorem deployment_logs_in_witness:
  "\<exists>w'. login_all (fleet_logins (\<lambda>k. 100 + int k)) boot_world = Done (replicate 9 True) w'
     \<and> findProcessByRole ''System-Express'' (shm w') = 101"
  using deployment_logs_in [of "fleet_logins (\<lambda>k. 100 + int k)" "\<lambda>k. 100 + int k"]
  by (auto simp: fleet_logins_def)

text \<open>
  A process is in the session table exactly while it runs.  A second process under a name that is
  in use ends with \<open>EXIT_FAILURE\<close> and changes nothing; a process that can log in and whose loop
  returns without touching the session table ends with \<open>EXIT_SUCCESS\<close> and leaves every lookup as it
  found it.
\<close>

theorem session_guard_scope:
  assumes "attached w" "kernel w = []" "0 < sems w SEM_MUTEX_BELT" "sessions_inv (shm w)" "0 \<le> mp" "mp \<le> INT32_MAX"
    and keeps: "\<And>c w1. sems w1 = sems w \<Longrightarrow> attached w1 \<Longrightarrow> kernel w1 = [] \<Longrightarrow> \<exists>a w2. body c w1 = Some (Done a w2)
        \<and> users (shm w2) = users (shm w1) \<and> sems w2 = sems w1 \<and> attached w2 \<and> kernel w2 = []"
  shows "if session_of (login_key name) (shm w) = None \<and> has_free_slot (shm w)
    then \<exists>w'. session_guard name r org mp pid body w = Some (Done EXIT_SUCCESS w')
      \<and> (\<forall>n. session_of n (shm w') = session_of n (shm w)) \<and> sems w' = sems w
    else session_guard name r org mp pid body w = Some (Done EXIT_FAILURE w)"
proof (cases "session_of (login_key name) (shm w) = None \<and> has_free_slot (shm w)")
  case True
  obtain k s' where k: "login name r org mp pid (-1) w = Done (True, k) (w\<lparr>shm := s'\<rparr>)"
    "s' = (shm w)\<lparr>users := users s'\<rparr>" "guard_ends k s' w"
    using guard_bracket [OF assms(1-4) conjunct1 [OF True] conjunct2 [OF True] assms(5,6), of r org pid] by (elim exE conjE)
  obtain a w2 where w2: "body k (w\<lparr>shm := s'\<rparr>) = Some (Done a w2)" "users (shm w2) = users s'"
    "sems w2 = sems w" "attached w2" "kernel w2 = []"
    using keeps [of "w\<lparr>shm := s'\<rparr>" k] assms(1,2) by auto
  then obtain s3 where "logout k w2 = Done (-1) (w2\<lparr>shm := s3\<rparr>)" "\<forall>n. session_of n s3 = session_of n (shm w)"
    using k(3) unfolding guard_ends_def by blast
  then show ?thesis using True w2(1,3) k(1) by (simp add: session_guard_def)
next
  case False
  then have "session_guard name r org mp pid body w = Some (Done EXIT_FAILURE w)"
    using guard_refused [OF assms(1-4)] by blast
  with False show ?thesis by simp
qed

theorem session_guard_scope_witness:
  "\<exists>w'. session_guard ''System-Belt'' Operator 0 1 5 (\<lambda>c w. Some (Done () w)) boot_world = Some (Done EXIT_SUCCESS w')
     \<and> (\<forall>n. session_of n (shm w') = session_of n (shm boot_world))"
  using session_guard_scope [of boot_world 1 "\<lambda>c w. Some (Done () w)" "''System-Belt''" Operator 0 5] boot_sessions
  by (auto simp: INT32_MAX_def)

end
