(* ===== verification/Warehouse.thy ===== *)
theory Warehouse
  imports Belt_Concurrency Fleet Worker Processes
begin

text \<open>
  The whole system: every process of the deployment runs its \<open>main\<close>, and all of them share the belt,
  the dock, the session table and the message queue.

  A process is at a \<open>stage\<close> of its program and, inside a method, at a \<open>mode\<close>: before or after a
  semaphore operation, inside a critical section.  A step of the system is one semaphore operation,
  one critical section, one message operation or one test of \<open>running\<close>, of one process; steps of
  different processes follow each other in any order.  The sections are the functions of the
  sequential theories.  A blocking receive may be interrupted by a Unix signal, such as the \<open>SIGTERM\<close>
  of the master.

  Four ghost lists record the packages that were accepted by the belt, taken from it, loaded on a
  truck and dropped.
\<close>

section \<open>Processes\<close>

datatype role_kind = WorkerR int | DispatcherR | TruckR int | ExpressR | MonitorR | ConsoleR

text \<open>What the session guard of each \<open>main\<close> passes to \<open>login\<close>.\<close>

fun credentials :: "role_kind \<Rightarrow> string \<times> UserRole \<times> OrgId \<times> int" where
  "credentials (WorkerR n) = (''Worker_'' @ to_string n, Operator, 0, 10)"
| "credentials DispatcherR = (''System-Dispatcher'', Operator, 0, 1)"
| "credentials (TruckR n) = (''Truck_'' @ to_string n, Operator, 0, 1)"
| "credentials ExpressR = (''System-Express'', Operator, 0, 1)"
| "credentials MonitorR = (''System-Belt'', Operator, 0, 1)"
| "credentials ConsoleR = (''AdminConsole'', UserRole_or Operator SysAdmin, 1, 1)"

text \<open>
  The places of the programs.  \<open>Failed\<close> and \<open>Finished\<close> are the two ends of \<open>main\<close>; \<open>Load\<close> carries the
  local variable \<open>pkg\<close> of the dispatcher, \<open>Halting\<close> the index of the loop of \<open>handleStop\<close>.
\<close>

datatype stage =
    Login | Logout | Failed | Finished
  | Register | WorkTest | TrySpawn | Push | Report | Unregister
  | PopTest | Pop | Load Package
  | Trucking truck_pc
  | ExpTest | ExpWait | ExpDeliver
  | MonitorTest
  | ConsoleTest | ConsoleRead | Halting nat

text \<open>The methods under the belt mutex, and the sections under the dock mutex, with their arguments.\<close>

datatype mcall =
    LoginC string UserRole OrgId int pid_t | LogoutC int
  | RegisterC | UnregisterC
  | SpawnC int | ReportC int
  | PushC Package | PopC

datatype reply = Flag bool | Session bool int | Item bool Package

datatype dock_call = DockS rolls | ShutdownS | DepartS | LeaveS | LoadS Package | ExpressS "draw list"

datatype mode =
    Here
  | AtSem mcall | AtLock mcall | InBelt mcall | BeltUnlock mcall reply | BeltPost mcall reply
  | AtDock dock_call | InDock dock_call | DockUnlock dock_call bool

record process =
  pr_pid :: pid_t
  pr_kind :: role_kind
  pr_sess :: int
  pr_stage :: stage
  pr_mode :: mode

section \<open>The sections\<close>

fun call_body :: "mcall \<Rightarrow> SharedState \<Rightarrow> (reply \<times> SharedState) option" where
  "call_body (LoginC n r org m p) s = map_option (\<lambda>((ok, c), s'). (Session ok c, s')) (login_body n r org m p (-1) s)"
| "call_body (LogoutC c) s = map_option (\<lambda>(_, s'). (Flag True, s')) (logout_body c s)"
| "call_body RegisterC s = map_option (\<lambda>(ok, s'). (Flag ok, s')) (registerWorker_body s)"
| "call_body UnregisterC s = map_option (\<lambda>(_, s'). (Flag True, s')) (unregisterWorker_body s)"
| "call_body (SpawnC c) s = map_option (\<lambda>(ok, s'). (Flag ok, s')) (trySpawnProcess_body c s)"
| "call_body (ReportC c) s = map_option (\<lambda>(_, s'). (Flag True, s')) (reportProcessFinished_body c s)"
| "call_body (PushC p) s = map_option (\<lambda>((ok, p'), s'). (Item ok p', s')) (push_body p s)"
| "call_body PopC s = map_option (\<lambda>((ok, p'), s'). (Item ok p', s')) (pop_body s)"

fun dock_section :: "pid_t \<Rightarrow> dock_call \<Rightarrow> world \<Rightarrow> bool outcome" where
  "dock_section p (DockS r) w = on_shm (dock_body p r) w"
| "dock_section p ShutdownS w = on_shm (shutdown_body p) w"
| "dock_section p DepartS w = on_shm (depart_body p) w"
| "dock_section p LeaveS w = obind (on_shm (leave_body p) w) (\<lambda>_ w1. Done True w1)"
| "dock_section p (LoadS pkg) w = load_attempt pkg w"
| "dock_section p (ExpressS ds) w =
     (if \<not> is_present (dock_truck (shm w)) then Done False w
      else obind (express_loop ds w) (\<lambda>_ w1. Done True w1))"

text \<open>Which semaphore a method waits for first, and which it posts last.\<close>

fun first_sem :: "mcall \<Rightarrow> SemIndex option" where
  "first_sem (PushC p) = Some SEM_EMPTY_SLOTS"
| "first_sem PopC = Some SEM_FULL_SLOTS"
| "first_sem _ = None"

fun last_sem :: "mcall \<Rightarrow> reply \<Rightarrow> SemIndex option" where
  "last_sem (PushC p) (Item ok q) = Some (if ok then SEM_FULL_SLOTS else SEM_EMPTY_SLOTS)"
| "last_sem PopC (Item ok q) = Some (if ok then SEM_EMPTY_SLOTS else SEM_FULL_SLOTS)"
| "last_sem _ _ = None"

section \<open>The programs\<close>

text \<open>The method a stage calls; \<open>d\<close> is what the random generators of a worker return.\<close>

fun next_call :: "worker_draw \<Rightarrow> process \<Rightarrow> mcall option" where
  "next_call d p = (case pr_stage p of
     Login \<Rightarrow> (case credentials (pr_kind p) of (n, r, org, m) \<Rightarrow> Some (LoginC n r org m (pr_pid p)))
   | Logout \<Rightarrow> Some (LogoutC (pr_sess p))
   | Register \<Rightarrow> Some RegisterC
   | Unregister \<Rightarrow> Some UnregisterC
   | TrySpawn \<Rightarrow> Some (SpawnC (pr_sess p))
   | Report \<Rightarrow> Some (ReportC (pr_sess p))
   | Push \<Rightarrow> Some (PushC (make_package (pr_pid p) d))
   | Pop \<Rightarrow> Some PopC
   | _ \<Rightarrow> None)"

text \<open>Where a program starts after its login, and where it goes after a method has returned.\<close>

fun first_stage :: "role_kind \<Rightarrow> stage" where
  "first_stage (WorkerR n) = Register"
| "first_stage DispatcherR = PopTest"
| "first_stage (TruckR n) = Trucking Arriving"
| "first_stage ExpressR = ExpTest"
| "first_stage MonitorR = MonitorTest"
| "first_stage ConsoleR = ConsoleTest"

fun after_call :: "reply \<Rightarrow> process \<Rightarrow> process" where
  "after_call (Session ok c) p =
     (if ok then p\<lparr>pr_sess := c, pr_stage := first_stage (pr_kind p), pr_mode := Here\<rparr>
      else p\<lparr>pr_stage := Failed, pr_mode := Here\<rparr>)"
| "after_call (Flag ok) p =
     (case pr_stage p of
        Logout \<Rightarrow> p\<lparr>pr_sess := -1, pr_stage := Finished, pr_mode := Here\<rparr>
      | Register \<Rightarrow> p\<lparr>pr_stage := (if ok then WorkTest else Logout), pr_mode := Here\<rparr>
      | TrySpawn \<Rightarrow> p\<lparr>pr_stage := (if ok then Push else WorkTest), pr_mode := Here\<rparr>
      | Report \<Rightarrow> p\<lparr>pr_stage := WorkTest, pr_mode := Here\<rparr>
      | Unregister \<Rightarrow> p\<lparr>pr_stage := Logout, pr_mode := Here\<rparr>
      | _ \<Rightarrow> p\<lparr>pr_mode := Here\<rparr>)"
| "after_call (Item ok pkg) p =
     (case pr_stage p of
        Push \<Rightarrow> p\<lparr>pr_stage := Report, pr_mode := Here\<rparr>
      | Pop \<Rightarrow> p\<lparr>pr_stage := (if pkg_id pkg = 0 then PopTest else Load pkg), pr_mode := Here\<rparr>
      | _ \<Rightarrow> p\<lparr>pr_mode := Here\<rparr>)"

text \<open>The same for the sections at the dock.  The dispatcher tests \<open>running\<close> before each attempt.\<close>

fun next_dock :: "rolls \<Rightarrow> draw list \<Rightarrow> bool \<Rightarrow> process \<Rightarrow> dock_call option" where
  "next_dock r ds run p = (case pr_stage p of
     Trucking Docking \<Rightarrow> Some (DockS r)
   | Trucking ShuttingDown \<Rightarrow> Some ShutdownS
   | Trucking Departing \<Rightarrow> Some DepartS
   | Trucking Leaving \<Rightarrow> Some LeaveS
   | Load pkg \<Rightarrow> if run then Some (LoadS pkg) else None
   | ExpDeliver \<Rightarrow> Some (ExpressS ds)
   | _ \<Rightarrow> None)"

fun after_dock :: "bool \<Rightarrow> stage \<Rightarrow> stage" where
  "after_dock b (Trucking Docking) = Trucking (if b then Waiting else Arriving)"
| "after_dock b (Trucking ShuttingDown) = Trucking Leaving"
| "after_dock b (Trucking Departing) = Trucking Arriving"
| "after_dock b (Trucking Leaving) = Logout"
| "after_dock b (Load pkg) = (if b then PopTest else Load pkg)"
| "after_dock b ExpDeliver = ExpTest"
| "after_dock b x = x"

text \<open>Tests of \<open>running\<close> and of the flag \<open>stop\<close> that the signal handler of the process sets.\<close>

fun local_test :: "bool \<Rightarrow> bool \<Rightarrow> stage \<Rightarrow> stage option" where
  "local_test stop run WorkTest = Some (if \<not> stop \<and> run then TrySpawn else Unregister)"
| "local_test stop run PopTest = Some (if run then Pop else Logout)"
| "local_test stop run (Load pkg) = (if run then None else Some PopTest)"
| "local_test stop run (Trucking Arriving) = Some (Trucking (if run then Docking else Leaving))"
| "local_test stop run ExpTest = Some (if \<not> stop \<and> run then ExpWait else Logout)"
| "local_test stop run MonitorTest = Some (if \<not> stop \<and> run then MonitorTest else Logout)"
| "local_test stop run ConsoleTest = Some (if \<not> stop \<and> run then ConsoleRead else Logout)"
| "local_test stop run x = None"

text \<open>What a process does with the signal it has received.\<close>

fun after_signal :: "SignalType \<Rightarrow> bool \<Rightarrow> stage \<Rightarrow> stage option" where
  "after_signal sig run (Trucking Waiting) =
     Some (Trucking (if sig = SIGNAL_END_WORK \<or> \<not> run then ShuttingDown else Departing))"
| "after_signal sig run ExpWait =
     Some (if sig = SIGNAL_EXPRESS_LOAD then ExpDeliver else if sig = SIGNAL_END_WORK then Logout else ExpTest)"
| "after_signal sig run x = None"

section \<open>The system\<close>

record warehouse =
  w_ps :: "process list"
  ww :: world
  w_acc :: "Package list"
  w_got :: "Package list"
  w_loaded :: "(pid_t \<times> Package) list"
  w_dropped :: "Package list"

fun pushed :: "mcall \<Rightarrow> reply \<Rightarrow> Package list" where
  "pushed (PushC p) (Item ok q) = (if ok then [q] else [])"
| "pushed _ _ = []"

fun popped :: "mcall \<Rightarrow> reply \<Rightarrow> Package list" where
  "popped PopC (Item ok q) = (if ok then [q] else [])"
| "popped _ _ = []"

fun load_log :: "world \<Rightarrow> dock_call \<Rightarrow> bool \<Rightarrow> (pid_t \<times> Package) list" where
  "load_log w (LoadS pkg) b = (if b then [(truck_id (dock_truck (shm w)), pkg)] else [])"
| "load_log w _ b = []"

fun drop_log :: "stage \<Rightarrow> Package list" where
  "drop_log (Load pkg) = [pkg]"
| "drop_log x = []"

definition set_proc :: "nat \<Rightarrow> process \<Rightarrow> world \<Rightarrow> warehouse \<Rightarrow> warehouse" where
  "set_proc i p w st = st\<lparr>w_ps := (w_ps st)[i := p], ww := w\<rparr>"

text \<open>The next point after the belt mutex was released.\<close>

definition leave_call :: "mcall \<Rightarrow> reply \<Rightarrow> process \<Rightarrow> process" where
  "leave_call c a p = (if last_sem c a = None then after_call a p else p\<lparr>pr_mode := BeltPost c a\<rparr>)"

inductive wh_step :: "warehouse \<Rightarrow> warehouse \<Rightarrow> bool" where
  call: "i < length (w_ps st) \<Longrightarrow> p = w_ps st ! i \<Longrightarrow> pr_mode p = Here \<Longrightarrow> legal_draw d \<Longrightarrow> next_call d p = Some c \<Longrightarrow>
    wh_step st (set_proc i (p\<lparr>pr_mode := (if first_sem c = None then AtLock c else AtSem c)\<rparr>) (ww st) st)"
| wait: "i < length (w_ps st) \<Longrightarrow> p = w_ps st ! i \<Longrightarrow> pr_mode p = AtSem c \<Longrightarrow> first_sem c = Some k \<Longrightarrow>
    semOperation k (-1) (ww st) = Done () w' \<Longrightarrow>
    wh_step st (set_proc i (p\<lparr>pr_mode := AtLock c\<rparr>) w' st)"
| lock: "i < length (w_ps st) \<Longrightarrow> p = w_ps st ! i \<Longrightarrow> pr_mode p = AtLock c \<Longrightarrow> lockBelt (ww st) = Done () w' \<Longrightarrow>
    wh_step st (set_proc i (p\<lparr>pr_mode := InBelt c\<rparr>) w' st)"
| body: "i < length (w_ps st) \<Longrightarrow> p = w_ps st ! i \<Longrightarrow> pr_mode p = InBelt c \<Longrightarrow>
    call_body c (shm (ww st)) = Some (a, s') \<Longrightarrow>
    wh_step st ((set_proc i (p\<lparr>pr_mode := BeltUnlock c a\<rparr>) ((ww st)\<lparr>shm := s'\<rparr>) st)
      \<lparr>w_acc := w_acc st @ pushed c a, w_got := w_got st @ popped c a\<rparr>)"
| unlock: "i < length (w_ps st) \<Longrightarrow> p = w_ps st ! i \<Longrightarrow> pr_mode p = BeltUnlock c a \<Longrightarrow>
    unlockBelt (ww st) = Done () w' \<Longrightarrow>
    wh_step st (set_proc i (leave_call c a p) w' st)"
| post: "i < length (w_ps st) \<Longrightarrow> p = w_ps st ! i \<Longrightarrow> pr_mode p = BeltPost c a \<Longrightarrow> last_sem c a = Some k \<Longrightarrow>
    semOperation k 1 (ww st) = Done () w' \<Longrightarrow>
    wh_step st (set_proc i (after_call a p) w' st)"
| dock: "i < length (w_ps st) \<Longrightarrow> p = w_ps st ! i \<Longrightarrow> pr_mode p = Here \<Longrightarrow> legal_rolls r \<Longrightarrow> legal_draws ds \<Longrightarrow>
    next_dock r ds (running (shm (ww st))) p = Some c \<Longrightarrow>
    wh_step st (set_proc i (p\<lparr>pr_mode := AtDock c\<rparr>) (ww st) st)"
| dlock: "i < length (w_ps st) \<Longrightarrow> p = w_ps st ! i \<Longrightarrow> pr_mode p = AtDock c \<Longrightarrow> lockDock (ww st) = Done () w' \<Longrightarrow>
    wh_step st (set_proc i (p\<lparr>pr_mode := InDock c\<rparr>) w' st)"
| dbody: "i < length (w_ps st) \<Longrightarrow> p = w_ps st ! i \<Longrightarrow> pr_mode p = InDock c \<Longrightarrow>
    dock_section (pr_pid p) c (ww st) = Done b w' \<Longrightarrow>
    wh_step st ((set_proc i (p\<lparr>pr_mode := DockUnlock c b\<rparr>) w' st)\<lparr>w_loaded := w_loaded st @ load_log (ww st) c b\<rparr>)"
| dunlock: "i < length (w_ps st) \<Longrightarrow> p = w_ps st ! i \<Longrightarrow> pr_mode p = DockUnlock c b \<Longrightarrow>
    unlockDock (ww st) = Done () w' \<Longrightarrow>
    wh_step st (set_proc i (p\<lparr>pr_stage := after_dock b (pr_stage p), pr_mode := Here\<rparr>) w' st)"
| test: "i < length (w_ps st) \<Longrightarrow> p = w_ps st ! i \<Longrightarrow> pr_mode p = Here \<Longrightarrow>
    local_test stop (running (shm (ww st))) (pr_stage p) = Some x \<Longrightarrow>
    wh_step st ((set_proc i (p\<lparr>pr_stage := x\<rparr>) (ww st) st)\<lparr>w_dropped := w_dropped st @ drop_log (pr_stage p)\<rparr>)"
| receive: "i < length (w_ps st) \<Longrightarrow> p = w_ps st ! i \<Longrightarrow> pr_mode p = Here \<Longrightarrow>
    w1 = ww st \<or> w1 = (ww st)\<lparr>kernel := [Some EINTR]\<rparr> \<Longrightarrow> receiveSignalBlocking (pr_pid p) w1 = Done sig w' \<Longrightarrow>
    after_signal sig (running (shm w')) (pr_stage p) = Some x \<Longrightarrow>
    wh_step st (set_proc i (p\<lparr>pr_stage := x\<rparr>) w' st)"
| command: "i < length (w_ps st) \<Longrightarrow> p = w_ps st ! i \<Longrightarrow> pr_mode p = Here \<Longrightarrow> pr_stage p = ConsoleRead \<Longrightarrow>
    cmd \<noteq> Stop \<Longrightarrow> getCurrentRole (pr_sess p) (ww st) = Some r \<Longrightarrow>
    run_command (pr_sess p) cmd r True (ww st) = Done (out, act) w' \<Longrightarrow>
    wh_step st (set_proc i (p\<lparr>pr_stage := (if act then ConsoleTest else Logout)\<rparr>) w' st)"
| halt: "i < length (w_ps st) \<Longrightarrow> p = w_ps st ! i \<Longrightarrow> pr_mode p = Here \<Longrightarrow> pr_stage p = ConsoleRead \<Longrightarrow>
    getCurrentRole (pr_sess p) (ww st) = Some r \<Longrightarrow> UserRole_hasFlag r SysAdmin \<Longrightarrow>
    wh_step st (set_proc i (p\<lparr>pr_stage := Halting 0\<rparr>) ((ww st)\<lparr>shm := (shm (ww st))\<lparr>running := False\<rparr>\<rparr>) st)"
| notify: "i < length (w_ps st) \<Longrightarrow> p = w_ps st ! i \<Longrightarrow> pr_mode p = Here \<Longrightarrow> pr_stage p = Halting n \<Longrightarrow>
    n < length (users (shm (ww st))) \<Longrightarrow> u = users (shm (ww st)) ! n \<Longrightarrow>
    (if active u then sendSignal (session_pid u) SIGNAL_END_WORK (ww st) else Done () (ww st)) = Done () w' \<Longrightarrow>
    wh_step st (set_proc i (p\<lparr>pr_stage := Halting (Suc n)\<rparr>) w' st)"
| halted: "i < length (w_ps st) \<Longrightarrow> p = w_ps st ! i \<Longrightarrow> pr_mode p = Here \<Longrightarrow>
    pr_stage p = Halting (length (users (shm (ww st)))) \<Longrightarrow>
    wh_step st (set_proc i (p\<lparr>pr_stage := Logout\<rparr>) (ww st) st)"
| master: "wh_step st (st\<lparr>ww := (ww st)\<lparr>shm := (shm (ww st))\<lparr>running := False\<rparr>\<rparr>\<rparr>)"

text \<open>All processes are started after the master has initialised the IPC objects.\<close>

definition started :: "process \<Rightarrow> bool" where
  "started p \<longleftrightarrow> pr_stage p = Login \<and> pr_mode p = Here \<and> 0 < pr_pid p \<and> pr_sess p = -1"

definition wh_init :: "warehouse \<Rightarrow> bool" where
  "wh_init st \<longleftrightarrow> (\<forall>p \<in> set (w_ps st). started p) \<and> distinct (map pr_pid (w_ps st)) \<and> ww st = boot_world
     \<and> w_acc st = [] \<and> w_got st = [] \<and> w_loaded st = [] \<and> w_dropped st = []"

abbreviation wh_reachable :: "warehouse \<Rightarrow> bool" where
  "wh_reachable \<equiv> reachable wh_init wh_step"

lemma set_proc_simps [simp]:
  "w_ps (set_proc i p w st) = (w_ps st)[i := p]" "ww (set_proc i p w st) = w" "w_acc (set_proc i p w st) = w_acc st"
  "w_got (set_proc i p w st) = w_got st" "w_loaded (set_proc i p w st) = w_loaded st"
  "w_dropped (set_proc i p w st) = w_dropped st"
  by (simp_all add: set_proc_def)


section \<open>The system refines the belt under concurrency\<close>

text \<open>A section of the session manager as a function of the session table.\<close>

definition sess_update :: "mcall \<Rightarrow> UserSession list \<Rightarrow> UserSession list" where
  "sess_update c us =
     (case call_body c (zero_SharedState\<lparr>users := us\<rparr>) of Some (_, s') \<Rightarrow> users s' | None \<Rightarrow> us)"

fun belt_of :: "mcall \<Rightarrow> belt_call" where
  "belt_of (PushC p) = PushCall p"
| "belt_of PopC = PopCall"
| "belt_of RegisterC = RegisterCall"
| "belt_of UnregisterC = UnregisterCall"
| "belt_of c = SessionCall (sess_update c)"

fun belt_pc :: "mode \<Rightarrow> pc" where
  "belt_pc (AtSem c) = WaitSem (belt_of c)"
| "belt_pc (AtLock c) = WaitLock (belt_of c)"
| "belt_pc (InBelt c) = Inside (belt_of c)"
| "belt_pc (BeltUnlock c a) = Unlocking (last_sem c a)"
| "belt_pc (BeltPost c a) = Posting (the (last_sem c a))"
| "belt_pc _ = Idle"

definition abs_belt :: "warehouse \<Rightarrow> conc" where
  "abs_belt st = \<lparr>procs = map (belt_pc \<circ> pr_mode) (w_ps st), cw = ww st, accepted = w_acc st, taken = w_got st\<rparr>"

lemma abs_belt_simps [simp]:
  "length (procs (abs_belt st)) = length (w_ps st)" "cw (abs_belt st) = ww st" "accepted (abs_belt st) = w_acc st"
  "taken (abs_belt st) = w_got st"
  "i < length (w_ps st) \<Longrightarrow> procs (abs_belt st) ! i = belt_pc (pr_mode (w_ps st ! i))"
  by (simp_all add: abs_belt_def)

lemma abs_belt_set_proc:
  "abs_belt (set_proc i p w st) =
     (abs_belt st)\<lparr>procs := (procs (abs_belt st))[i := belt_pc (pr_mode p)], cw := w\<rparr>"
  by (simp add: abs_belt_def map_update)

lemma abs_belt_ghosts [simp]:
  "abs_belt (st\<lparr>w_loaded := x\<rparr>) = abs_belt st" "abs_belt (st\<lparr>w_dropped := y\<rparr>) = abs_belt st"
  "abs_belt (st\<lparr>w_acc := a, w_got := b\<rparr>) = (abs_belt st)\<lparr>accepted := a, taken := b\<rparr>"
  by (simp_all add: abs_belt_def)

lemma wait_sem_belt_of [simp]: "wait_sem (belt_of c) = first_sem c"
  by (cases c) simp_all

lemma after_call_mode [simp]: "pr_mode (after_call a p) = Here"
  by (cases a) (auto split: stage.split)

text \<open>The sections of the session manager read and write the session table only.\<close>

lemma session_bodies_local:
  "login_body n r org m p c s =
     map_option (\<lambda>(x, s'). (x, s\<lparr>users := users s'\<rparr>)) (login_body n r org m p c (zero_SharedState\<lparr>users := users s\<rparr>))"
  "logout_body c s = map_option (\<lambda>(x, s'). (x, s\<lparr>users := users s'\<rparr>)) (logout_body c (zero_SharedState\<lparr>users := users s\<rparr>))"
  "trySpawnProcess_body c s =
     map_option (\<lambda>(x, s'). (x, s\<lparr>users := users s'\<rparr>)) (trySpawnProcess_body c (zero_SharedState\<lparr>users := users s\<rparr>))"
  "reportProcessFinished_body c s =
     map_option (\<lambda>(x, s'). (x, s\<lparr>users := users s'\<rparr>)) (reportProcessFinished_body c (zero_SharedState\<lparr>users := users s\<rparr>))"
  by (auto simp: login_body_def logout_body_def trySpawnProcess_body_def reportProcessFinished_body_def Let_def
      aget_def aset_def cadd_def csub_def split: option.splits)

lemma call_body_belt:
  assumes "call_body c s = Some (a, s')"
  shows "\<exists>ok p. run_body (belt_of c) s = Some ((ok, p), s') \<and> post_sem (belt_of c) ok = last_sem c a
     \<and> log_accepted (belt_of c) ok p = pushed c a \<and> log_taken (belt_of c) ok p = popped c a"
proof (cases c)
  case (LoginC n r org m p)
  then show ?thesis using assms session_bodies_local(1) [of n r org m p "-1" s]
    by (auto simp: sess_update_def log_accepted_def log_taken_def)
next
  case (LogoutC k)
  then show ?thesis using assms session_bodies_local(2) [of k s]
    by (auto simp: sess_update_def log_accepted_def log_taken_def)
next
  case (SpawnC k)
  then show ?thesis using assms session_bodies_local(3) [of k s]
    by (auto simp: sess_update_def log_accepted_def log_taken_def)
next
  case (ReportC k)
  then show ?thesis using assms session_bodies_local(4) [of k s]
    by (auto simp: sess_update_def log_accepted_def log_taken_def)
qed (use assms in \<open>auto simp: log_accepted_def log_taken_def\<close>)

text \<open>What the steps outside the belt methods change.\<close>

definition dock_frame :: "world \<Rightarrow> world \<Rightarrow> bool" where
  "dock_frame w w' \<longleftrightarrow> kernel w' = [] \<and> attached w' = attached w \<and> sems w' = sems w
     \<and> same_belt_fields (shm w) (shm w') \<and> running (shm w') = running (shm w)"

lemma dock_frameI: "kernel w = [] \<Longrightarrow> dock_frame w (w\<lparr>shm := (shm w)\<lparr>dock_truck := t, trucks_completed := n\<rparr>\<rparr>)"
  "kernel w = [] \<Longrightarrow> dock_frame w (w\<lparr>shm := (shm w)\<lparr>trucks_completed := n, dock_truck := t\<rparr>\<rparr>)"
  "kernel w = [] \<Longrightarrow> dock_frame w (w\<lparr>shm := (shm w)\<lparr>dock_truck := t\<rparr>\<rparr>)" "kernel w = [] \<Longrightarrow> dock_frame w w"
  by (simp_all add: dock_frame_def same_belt_fields_def)

lemma dock_frame_trans: "dock_frame w w1 \<Longrightarrow> dock_frame w1 w2 \<Longrightarrow> dock_frame w w2"
  by (auto simp: dock_frame_def same_belt_fields_def)

lemma sendSignal_dock_frame: "kernel w = [] \<Longrightarrow> sendSignal p sig w = Done u w' \<Longrightarrow> dock_frame w w'"
  using sendSignal_frame [of p sig w u w']
  by (simp add: dock_frame_def same_belt_fields_def)

lemma express_loop_dock_frame: "kernel w = [] \<Longrightarrow> express_loop ds w = Done u w' \<Longrightarrow> dock_frame w w'"
proof (induction ds arbitrary: w)
  case Nil
  then show ?case by (simp add: dock_frameI)
next
  case (Cons d ds)
  define w1 where "w1 = w\<lparr>shm := (shm w)\<lparr>dock_truck := put_express d (dock_truck (shm w))\<rparr>\<rparr>"
  have "dock_frame w w1" "kernel w1 = []" using Cons.prems(1) by (simp_all add: w1_def dock_frameI)
  then show ?case using Cons.prems Cons.IH [of w1] sendSignal_dock_frame dock_frame_trans
    by (auto simp: w1_def [symmetric] Let_def split: if_splits)
qed

lemma load_attempt_dock_frame: "kernel w = [] \<Longrightarrow> load_attempt pkg w = Done b w' \<Longrightarrow> dock_frame w w'"
proof -
  assume k: "kernel w = []" and l: "load_attempt pkg w = Done b w'"
  define w1 where "w1 = w\<lparr>shm := (shm w)\<lparr>dock_truck := put_package pkg (dock_truck (shm w))\<rparr>\<rparr>"
  have w1: "dock_frame w w1" "kernel w1 = []" using k by (simp_all add: w1_def dock_frameI)
  show ?thesis using l k w1 sendSignal_dock_frame dock_frame_trans
    by (auto simp: load_attempt_def Let_def w1_def [symmetric] obind_eq_Done_iff dock_frameI
        split: if_splits option.splits)
qed

lemma dock_section_frame:
  assumes "kernel w = []" "dock_section p c w = Done b w'"
  shows "dock_frame w w'"
proof (cases c)
  case (LoadS pkg)
  then show ?thesis using load_attempt_dock_frame assms by simp
next
  case (ExpressS ds)
  then show ?thesis using express_loop_dock_frame assms
    by (auto simp: obind_eq_Done_iff dock_frameI split: if_splits)
qed (use assms in \<open>auto simp: on_shm_def dock_body_def shutdown_body_def depart_body_def leave_body_def
      bind_eq_Some_conv obind_eq_Done_iff dock_frameI split: if_splits option.splits\<close>)

lemma dock_frame_same_belt: "dock_frame w w' \<Longrightarrow> kernel w = [] \<Longrightarrow> 0 \<le> sems w SEM_DOCK_MUTEX \<Longrightarrow> same_belt w w'"
  by (simp add: dock_frame_def same_belt_def)

lemma same_belt_refl_shm:
  assumes "shm w' = shm w" "\<And>k. k \<noteq> SEM_DOCK_MUTEX \<Longrightarrow> sems w' k = sems w k" "0 \<le> sems w' SEM_DOCK_MUTEX"
    "attached w' = attached w" "kernel w' = kernel w"
  shows "same_belt w w'"
  using assms by (simp add: same_belt_def same_belt_fields_def)

lemma belt_others:
  assumes "i < length (w_ps st)" "belt_pc (pr_mode p) = belt_pc (pr_mode (w_ps st ! i))" "same_belt (ww st) w"
  shows "conc_step\<^sup>*\<^sup>* (abs_belt st) (abs_belt (set_proc i p w st))"
proof -
  have "(procs (abs_belt st))[i := belt_pc (pr_mode p)] = procs (abs_belt st)"
    using assms(1,2) by (metis abs_belt_simps(5) list_update_id)
  then have "abs_belt (set_proc i p w st) = (abs_belt st)\<lparr>cw := w\<rparr>" by (simp add: abs_belt_set_proc)
  moreover have "conc_step (abs_belt st) ((abs_belt st)\<lparr>cw := w\<rparr>)"
    using assms(3) by (intro conc_step.others) simp
  ultimately show ?thesis by simp
qed


text \<open>Message operations and the commands of the console change nothing but the queue.\<close>

definition msg_frame :: "world \<Rightarrow> world \<Rightarrow> bool" where
  "msg_frame w w' \<longleftrightarrow> shm w' = shm w \<and> sems w' = sems w \<and> attached w' = attached w \<and> kernel w' = []"

lemma msg_frame_same_belt: "msg_frame w w' \<Longrightarrow> kernel w = [] \<Longrightarrow> 0 \<le> sems w SEM_DOCK_MUTEX \<Longrightarrow> same_belt w w'"
  by (rule same_belt_refl_shm) (simp_all add: msg_frame_def)

lemma receive_msg_frame:
  "kernel w = [] \<Longrightarrow> w1 = w \<or> w1 = w\<lparr>kernel := [Some e]\<rparr> \<Longrightarrow> receiveSignalBlocking p w1 = Done sig w' \<Longrightarrow> msg_frame w w'"
  by (auto simp: receiveSignalBlocking_def msg_frame_def split: option.splits)

lemma send_msg_frame: "kernel w = [] \<Longrightarrow> sendSignal p sig w = Done u w' \<Longrightarrow> msg_frame w w'"
  using sendSignal_frame [of p sig w u w'] by (simp add: msg_frame_def)

lemma command_msg_frame:
  assumes "kernel w = []" "cmd \<noteq> Stop" "run_command idx cmd r act w = Done (out, act') w'"
  shows "msg_frame w w'"
  using assms send_msg_frame [OF assms(1)]
  by (cases cmd) (auto simp: run_command_def handleVip_def handleDepart_def Let_def obind_eq_Done_iff msg_frame_def
      split: if_splits)

lemma abs_belt_same_world:
  "abs_belt (set_proc i p (ww st) st) = (abs_belt st)\<lparr>procs := (procs (abs_belt st))[i := belt_pc (pr_mode p)]\<rparr>"
  by (simp add: abs_belt_set_proc)

lemma leave_call_belt_pc:
  "belt_pc (pr_mode (leave_call c a p)) = (case last_sem c a of None \<Rightarrow> Idle | Some j \<Rightarrow> Posting j)"
  by (auto simp: leave_call_def)

lemma belt_sim_step:
  assumes reach: "conc_reachable (abs_belt st)" and step: "wh_step st st'"
  shows "conc_step\<^sup>*\<^sup>* (abs_belt st) (abs_belt st')"
proof -
  note inv = sem_invD [OF conjunct1 [OF conc_reachable_inv [OF reach]], simplified]
  note [simp] = inv(2) inv(3)
  from step show ?thesis
  proof cases
    case (call i p d c)
    have "conc_step (abs_belt st) ((abs_belt st)\<lparr>procs := (procs (abs_belt st))
        [i := (if wait_sem (belt_of c) = None then WaitLock (belt_of c) else WaitSem (belt_of c))]\<rparr>)"
      using call by (intro conc_step.call) auto
    then show ?thesis unfolding call(1) abs_belt_same_world by (auto split: if_splits)
  next
    case (wait i p c k w')
    have "conc_step (abs_belt st) ((abs_belt st)\<lparr>procs := (procs (abs_belt st))[i := WaitLock (belt_of c)], cw := w'\<rparr>)"
      using wait by (intro conc_step.wait) auto
    then show ?thesis unfolding wait(1) abs_belt_set_proc by auto
  next
    case (lock i p c w')
    have "conc_step (abs_belt st) ((abs_belt st)\<lparr>procs := (procs (abs_belt st))[i := Inside (belt_of c)], cw := w'\<rparr>)"
      using lock by (intro conc_step.lock) auto
    then show ?thesis unfolding lock(1) abs_belt_set_proc by auto
  next
    case (body i p c a s')
    obtain ok q where b: "run_body (belt_of c) (shm (ww st)) = Some ((ok, q), s')"
      "post_sem (belt_of c) ok = last_sem c a" "log_accepted (belt_of c) ok q = pushed c a"
      "log_taken (belt_of c) ok q = popped c a"
      using call_body_belt [OF body(5)] by blast
    have "conc_step (abs_belt st) ((abs_belt st)\<lparr>procs := (procs (abs_belt st))[i := Unlocking (post_sem (belt_of c) ok)],
        cw := (cw (abs_belt st))\<lparr>shm := s'\<rparr>, accepted := accepted (abs_belt st) @ log_accepted (belt_of c) ok q,
        taken := taken (abs_belt st) @ log_taken (belt_of c) ok q\<rparr>)"
      using body b(1) by (intro conc_step.body) auto
    then show ?thesis unfolding body(1) abs_belt_ghosts abs_belt_set_proc b(2-4) by auto
  next
    case (unlock i p c a w')
    have "conc_step (abs_belt st) ((abs_belt st)\<lparr>procs := (procs (abs_belt st))
        [i := (case last_sem c a of None \<Rightarrow> Idle | Some j \<Rightarrow> Posting j)], cw := w'\<rparr>)"
      using unlock by (intro conc_step.unlock) auto
    then show ?thesis unfolding unlock(1) abs_belt_set_proc leave_call_belt_pc by auto
  next
    case (post i p c a k w')
    have "conc_step (abs_belt st) ((abs_belt st)\<lparr>procs := (procs (abs_belt st))[i := Idle], cw := w'\<rparr>)"
      using post by (intro conc_step.post [where k = k]) auto
    then show ?thesis unfolding post(1) abs_belt_set_proc by auto
  next
    case (dock i p r ds c)
    then show ?thesis by (auto intro!: belt_others same_belt_refl_shm)
  next
    case (dlock i p c w')
    from semOperation_DoneD [OF dlock(5) [unfolded lockDock_def] inv(2)] dlock show ?thesis
      by (auto intro!: belt_others same_belt_refl_shm)
  next
    case (dbody i p c b w')
    then show ?thesis using dock_section_frame [OF inv(2) dbody(5)]
      by (auto intro!: belt_others dock_frame_same_belt)
  next
    case (dunlock i p c b w')
    then show ?thesis
      by (auto simp: unlockDock_def dest!: semOperation_DoneD intro!: belt_others same_belt_refl_shm)
  next
    case (test i p stop x)
    then show ?thesis by (auto intro!: belt_others same_belt_refl_shm)
  next
    case (receive i p w1 sig w' x)
    then show ?thesis using receive_msg_frame [OF inv(2) receive(5,6)]
      by (auto intro!: belt_others msg_frame_same_belt)
  next
    case (command i p cmd r out act w')
    then show ?thesis using command_msg_frame [OF inv(2) command(6,8)]
      by (auto intro!: belt_others msg_frame_same_belt)
  next
    case (halt i p r)
    then show ?thesis by (auto intro!: belt_others simp: same_belt_def same_belt_fields_def)
  next
    case (notify i p n u w')
    then have "msg_frame (ww st) w'"
      using send_msg_frame [OF inv(2), of "session_pid u"] by (auto simp: msg_frame_def split: if_splits)
    then show ?thesis using notify by (auto intro!: belt_others msg_frame_same_belt)
  next
    case (halted i p)
    then show ?thesis by (auto intro!: belt_others same_belt_refl_shm)
  next
    case master
    have "conc_step (abs_belt st) ((abs_belt st)\<lparr>cw := (ww st)\<lparr>shm := (shm (ww st))\<lparr>running := False\<rparr>\<rparr>\<rparr>)"
      by (intro conc_step.others) (simp add: same_belt_def same_belt_fields_def)
    then show ?thesis unfolding master by (auto simp: abs_belt_def)
  qed
qed

interpretation belt_refinement: forward_simulation wh_init wh_step conc_init conc_step abs_belt
proof unfold_locales
  show "conc_init (abs_belt st)" if "wh_init st" for st
    using that by (auto simp: wh_init_def conc_init_def started_def abs_belt_def)
qed (use belt_sim_step in blast)


lemma wh_world:
  assumes "wh_reachable st"
  shows "kernel (ww st) = []" "attached (ww st)" "0 \<le> sems (ww st) k"
  using sem_invD(1-3) [OF conjunct1 [OF conc_reachable_inv [OF belt_refinement.abs_reachable [OF assms]]]] by simp_all

section \<open>Well-formed processes\<close>

text \<open>Which places belong to which program, and which calls and replies belong to a place.\<close>

definition kind_stage :: "role_kind \<Rightarrow> stage \<Rightarrow> bool" where
  "kind_stage k x = (case x of
     Login \<Rightarrow> True | Logout \<Rightarrow> True | Failed \<Rightarrow> True | Finished \<Rightarrow> True
   | PopTest \<Rightarrow> k = DispatcherR | Pop \<Rightarrow> k = DispatcherR | Load p \<Rightarrow> k = DispatcherR
   | Trucking pc \<Rightarrow> pc \<noteq> Ended \<and> (\<exists>n. k = TruckR n)
   | ExpTest \<Rightarrow> k = ExpressR | ExpWait \<Rightarrow> k = ExpressR | ExpDeliver \<Rightarrow> k = ExpressR
   | MonitorTest \<Rightarrow> k = MonitorR
   | ConsoleTest \<Rightarrow> k = ConsoleR | ConsoleRead \<Rightarrow> k = ConsoleR | Halting n \<Rightarrow> k = ConsoleR
   | _ \<Rightarrow> (\<exists>n. k = WorkerR n))"

fun reply_ok :: "mcall \<Rightarrow> reply \<Rightarrow> bool" where
  "reply_ok (LoginC n r org m p) a = (\<exists>ok c. a = Session ok c)"
| "reply_ok (PushC p) a = (\<exists>ok q. a = Item ok q)"
| "reply_ok PopC a = (\<exists>ok q. a = Item ok q \<and> (\<not> ok \<longrightarrow> pkg_id q = 0))"
| "reply_ok _ a = (\<exists>ok. a = Flag ok)"

definition calls :: "process \<Rightarrow> mcall \<Rightarrow> bool" where
  "calls p c \<longleftrightarrow> (\<exists>d. legal_draw d \<and> next_call d p = Some c)"

definition docks :: "process \<Rightarrow> dock_call \<Rightarrow> bool" where
  "docks p c \<longleftrightarrow> (\<exists>r ds. legal_rolls r \<and> legal_draws ds \<and> next_dock r ds True p = Some c)"

definition mode_ok :: "process \<Rightarrow> bool" where
  "mode_ok p = (case pr_mode p of
     Here \<Rightarrow> True
   | AtSem c \<Rightarrow> calls p c \<and> first_sem c \<noteq> None | AtLock c \<Rightarrow> calls p c | InBelt c \<Rightarrow> calls p c
   | BeltUnlock c a \<Rightarrow> calls p c \<and> reply_ok c a | BeltPost c a \<Rightarrow> calls p c \<and> reply_ok c a \<and> last_sem c a \<noteq> None
   | AtDock c \<Rightarrow> docks p c | InDock c \<Rightarrow> docks p c | DockUnlock c b \<Rightarrow> docks p c)"

definition proc_ok :: "process \<Rightarrow> bool" where
  "proc_ok p \<longleftrightarrow> kind_stage (pr_kind p) (pr_stage p) \<and> mode_ok p \<and> 0 < pr_pid p"

definition procs_ok :: "warehouse \<Rightarrow> bool" where
  "procs_ok st \<longleftrightarrow> (\<forall>p \<in> set (w_ps st). proc_ok p) \<and> distinct (map pr_pid (w_ps st))"

lemma calls_mode [simp]: "calls (p\<lparr>pr_mode := m\<rparr>) c = calls p c" "docks (p\<lparr>pr_mode := m\<rparr>) d = docks p d"
  by (cases "pr_stage p"; simp add: calls_def docks_def)+

lemma calls_stage:
  "calls p c \<longleftrightarrow> (case c of
     LoginC n r org m q \<Rightarrow> pr_stage p = Login \<and> (n, r, org, m) = credentials (pr_kind p) \<and> q = pr_pid p
   | LogoutC k \<Rightarrow> pr_stage p = Logout \<and> k = pr_sess p
   | RegisterC \<Rightarrow> pr_stage p = Register | UnregisterC \<Rightarrow> pr_stage p = Unregister
   | SpawnC k \<Rightarrow> pr_stage p = TrySpawn \<and> k = pr_sess p
   | ReportC k \<Rightarrow> pr_stage p = Report \<and> k = pr_sess p
   | PushC q \<Rightarrow> pr_stage p = Push \<and> (\<exists>d. legal_draw d \<and> q = make_package (pr_pid p) d)
   | PopC \<Rightarrow> pr_stage p = Pop)"
  using sample_draw_legal
  by (cases c; cases "pr_stage p") (auto simp: calls_def split: prod.splits)

lemma pop_body_refused: "pop_body s = Some ((False, q), s') \<Longrightarrow> pkg_id q = 0"
  by (cases "current_items_count s \<le> 0")
    (auto simp: pop_body_empty zero_Package_def pop_body_def Let_def bind_eq_Some_conv)

lemma call_body_reply: "call_body c s = Some (a, s') \<Longrightarrow> reply_ok c a"
  using pop_body_refused [of s _ s'] by (cases c) auto

lemma after_call_ok:
  assumes "proc_ok p" "calls p c" "reply_ok c a"
  shows "proc_ok (after_call a p)" "pr_pid (after_call a p) = pr_pid p" "pr_kind (after_call a p) = pr_kind p"
proof -
  show "proc_ok (after_call a p)" using assms
    by (cases c; cases "pr_kind p") (auto simp: calls_stage proc_ok_def kind_stage_def mode_ok_def)
  show "pr_pid (after_call a p) = pr_pid p" "pr_kind (after_call a p) = pr_kind p"
    by (cases a; simp split: stage.splits)+
qed

lemma leave_call_ok:
  assumes "proc_ok p" "calls p c" "reply_ok c a"
  shows "proc_ok (leave_call c a p)" "pr_pid (leave_call c a p) = pr_pid p" "pr_kind (leave_call c a p) = pr_kind p"
  using assms after_call_ok [OF assms] by (auto simp: leave_call_def proc_ok_def mode_ok_def)

lemma after_dock_ok:
  assumes "kind_stage k x" "docks p c" "pr_stage p = x"
  shows "kind_stage k (after_dock b x)"
proof (cases x)
  case (Trucking pc)
  then show ?thesis using assms by (cases pc) (auto simp: kind_stage_def docks_def)
qed (use assms in \<open>auto simp: kind_stage_def\<close>)

lemma local_test_ok: "kind_stage k x \<Longrightarrow> local_test stop run x = Some y \<Longrightarrow> kind_stage k y"
proof (cases x)
  case (Trucking pc)
  then show "kind_stage k x \<Longrightarrow> local_test stop run x = Some y \<Longrightarrow> kind_stage k y"
    by (cases pc) (auto simp: kind_stage_def)
qed (auto simp: kind_stage_def split: if_splits)

lemma after_signal_ok: "kind_stage k x \<Longrightarrow> after_signal sig run x = Some y \<Longrightarrow> kind_stage k y"
proof (cases x)
  case (Trucking pc)
  then show "kind_stage k x \<Longrightarrow> after_signal sig run x = Some y \<Longrightarrow> kind_stage k y"
    by (cases pc) (auto simp: kind_stage_def)
qed (auto simp: kind_stage_def split: if_splits)

lemma procs_ok_set:
  assumes "procs_ok st" "i < length (w_ps st)" "proc_ok p" "pr_pid p = pr_pid (w_ps st ! i)"
  shows "procs_ok (set_proc i p w st)"
proof -
  have "map pr_pid ((w_ps st)[i := p]) = map pr_pid (w_ps st)"
    using assms(2,4) by (metis list_update_id map_update)
  then show ?thesis using assms(1,3) set_update_cases [of _ "w_ps st" i p] by (auto simp: procs_ok_def)
qed

lemma procs_ok_ghosts [simp]:
  "procs_ok (st\<lparr>w_loaded := x\<rparr>) = procs_ok st" "procs_ok (st\<lparr>w_dropped := y\<rparr>) = procs_ok st"
  "procs_ok (st\<lparr>w_acc := a, w_got := b\<rparr>) = procs_ok st" "procs_ok (st\<lparr>ww := w\<rparr>) = procs_ok st"
  by (simp_all add: procs_ok_def)


lemma procs_ok_nth: "procs_ok st \<Longrightarrow> i < length (w_ps st) \<Longrightarrow> proc_ok (w_ps st ! i)"
  by (simp add: procs_ok_def)

lemma procs_ok_step:
  assumes ok: "procs_ok st" and step: "wh_step st st'"
  shows "procs_ok st'"
  using step
proof cases
  case (call i p d c)
  then have "calls p c" by (auto simp: calls_def)
  then show ?thesis using call procs_ok_nth [OF ok call(2)]
    by (auto intro!: procs_ok_set [OF ok] simp: proc_ok_def mode_ok_def)
next
  case (wait i p c k w')
  then show ?thesis using procs_ok_nth [OF ok wait(2)]
    by (auto intro!: procs_ok_set [OF ok] simp: proc_ok_def mode_ok_def)
next
  case (lock i p c w')
  then show ?thesis using procs_ok_nth [OF ok lock(2)]
    by (auto intro!: procs_ok_set [OF ok] simp: proc_ok_def mode_ok_def)
next
  case (body i p c a s')
  then show ?thesis using procs_ok_nth [OF ok body(2)] call_body_reply [OF body(5)]
    by (auto intro!: procs_ok_set [OF ok] simp: proc_ok_def mode_ok_def)
next
  case (unlock i p c a w')
  then have "proc_ok p" "calls p c" "reply_ok c a"
    using procs_ok_nth [OF ok unlock(2)] by (auto simp: proc_ok_def mode_ok_def)
  from leave_call_ok [OF this] unlock show ?thesis by (auto intro!: procs_ok_set [OF ok])
next
  case (post i p c a k w')
  then have "proc_ok p" "calls p c" "reply_ok c a"
    using procs_ok_nth [OF ok post(2)] by (auto simp: proc_ok_def mode_ok_def)
  from after_call_ok [OF this] post show ?thesis by (auto intro!: procs_ok_set [OF ok])
next
  case (dock i p r ds c)
  have "next_dock r ds run p = Some c \<Longrightarrow> next_dock r ds True p = Some c" for run
    by (cases "pr_stage p") (auto split: if_splits)
  with dock have "docks p c" by (auto simp: docks_def)
  then show ?thesis using dock procs_ok_nth [OF ok dock(2)]
    by (auto intro!: procs_ok_set [OF ok] simp: proc_ok_def mode_ok_def)
next
  case (dlock i p c w')
  then show ?thesis using procs_ok_nth [OF ok dlock(2)]
    by (auto intro!: procs_ok_set [OF ok] simp: proc_ok_def mode_ok_def)
next
  case (dbody i p c b w')
  then show ?thesis using procs_ok_nth [OF ok dbody(2)]
    by (auto intro!: procs_ok_set [OF ok] simp: proc_ok_def mode_ok_def)
next
  case (dunlock i p c b w')
  then show ?thesis using procs_ok_nth [OF ok dunlock(2)]
    by (auto intro!: procs_ok_set [OF ok] after_dock_ok simp: proc_ok_def mode_ok_def)
next
  case (test i p stop x)
  then show ?thesis using procs_ok_nth [OF ok test(2)] local_test_ok
    by (auto intro!: procs_ok_set [OF ok] simp: proc_ok_def mode_ok_def)
next
  case (receive i p w1 sig w' x)
  then show ?thesis using procs_ok_nth [OF ok receive(2)] after_signal_ok
    by (auto intro!: procs_ok_set [OF ok] simp: proc_ok_def mode_ok_def)
next
  case (command i p cmd r out act w')
  then show ?thesis using procs_ok_nth [OF ok command(2)]
    by (auto intro!: procs_ok_set [OF ok] simp: proc_ok_def mode_ok_def kind_stage_def)
next
  case (halt i p r)
  then show ?thesis using procs_ok_nth [OF ok halt(2)]
    by (auto intro!: procs_ok_set [OF ok] simp: proc_ok_def mode_ok_def kind_stage_def)
next
  case (notify i p n u w')
  then show ?thesis using procs_ok_nth [OF ok notify(2)]
    by (auto intro!: procs_ok_set [OF ok] simp: proc_ok_def mode_ok_def kind_stage_def)
next
  case (halted i p)
  then show ?thesis using procs_ok_nth [OF ok halted(2)]
    by (auto intro!: procs_ok_set [OF ok] simp: proc_ok_def mode_ok_def kind_stage_def)
next
  case master
  then show ?thesis using ok by simp
qed

interpretation wh_procs: inductive_invariant wh_init wh_step procs_ok
proof unfold_locales
  show "procs_ok st" if "wh_init st" for st
    using that by (auto simp: wh_init_def procs_ok_def started_def proc_ok_def mode_ok_def kind_stage_def)
qed (use procs_ok_step in blast)

section \<open>The dock mutex\<close>

fun dholds :: "mode \<Rightarrow> int" where
  "dholds (InDock c) = 1"
| "dholds (DockUnlock c b) = 1"
| "dholds _ = 0"

definition dtally :: "warehouse \<Rightarrow> int" where
  "dtally st = sum_list (map (\<lambda>p. dholds (pr_mode p)) (w_ps st))"

definition dock_inv :: "warehouse \<Rightarrow> bool" where
  "dock_inv st \<longleftrightarrow> sems (ww st) SEM_DOCK_MUTEX + dtally st = 1"

lemma dholds_nonneg: "0 \<le> dholds m"
  by (cases m) simp_all

lemma dock_inv_set:
  assumes "dock_inv st" "i < length (w_ps st)"
    "sems w SEM_DOCK_MUTEX + dholds (pr_mode p) = sems (ww st) SEM_DOCK_MUTEX + dholds (pr_mode (w_ps st ! i))"
  shows "dock_inv (set_proc i p w st)"
  using assms by (simp add: dock_inv_def dtally_def sum_list_map_update)

lemma dock_inv_ghosts [simp]:
  "dock_inv (st\<lparr>w_loaded := x\<rparr>) = dock_inv st" "dock_inv (st\<lparr>w_dropped := y\<rparr>) = dock_inv st"
  "dock_inv (st\<lparr>w_acc := a, w_got := b\<rparr>) = dock_inv st"
  by (simp_all add: dock_inv_def dtally_def)

lemma belt_sems: "first_sem c = Some k \<Longrightarrow> k \<noteq> SEM_DOCK_MUTEX" "last_sem c a = Some j \<Longrightarrow> j \<noteq> SEM_DOCK_MUTEX"
  by (cases c; auto) (cases "(c, a)" rule: last_sem.cases; auto split: if_splits)

lemma leave_call_dholds [simp]: "dholds (pr_mode (leave_call c a p)) = 0"
  by (simp add: leave_call_def)

lemma dock_inv_step:
  assumes reach: "wh_reachable st" and inv: "dock_inv st" and step: "wh_step st st'"
  shows "dock_inv st'"
  using step
proof cases
  case (wait i p c k w')
  then show ?thesis using semOperation_DoneD [OF wait(6) wh_world(1) [OF reach]] belt_sems(1) [OF wait(5)]
    by (auto intro!: dock_inv_set [OF inv])
next
  case (lock i p c w')
  then show ?thesis using semOperation_DoneD [OF lock(5) [unfolded lockBelt_def] wh_world(1) [OF reach]]
    by (auto intro!: dock_inv_set [OF inv])
next
  case (unlock i p c a w')
  then show ?thesis using semOperation_DoneD [OF unlock(5) [unfolded unlockBelt_def] wh_world(1) [OF reach]]
    by (auto intro!: dock_inv_set [OF inv])
next
  case (post i p c a k w')
  then show ?thesis using semOperation_DoneD [OF post(6) wh_world(1) [OF reach]] belt_sems(2) [OF post(5)]
    by (auto intro!: dock_inv_set [OF inv])
next
  case (dlock i p c w')
  then show ?thesis using semOperation_DoneD [OF dlock(5) [unfolded lockDock_def] wh_world(1) [OF reach]]
    by (auto intro!: dock_inv_set [OF inv])
next
  case (dbody i p c b w')
  then show ?thesis using dock_section_frame [OF wh_world(1) [OF reach] dbody(5)]
    by (auto intro!: dock_inv_set [OF inv] simp: dock_frame_def)
next
  case (dunlock i p c b w')
  then show ?thesis using semOperation_DoneD [OF dunlock(5) [unfolded unlockDock_def] wh_world(1) [OF reach]]
    by (auto intro!: dock_inv_set [OF inv])
next
  case (receive i p w1 sig w' x)
  then show ?thesis using receive_msg_frame [OF wh_world(1) [OF reach] receive(5)]
    by (auto intro!: dock_inv_set [OF inv] simp: msg_frame_def)
next
  case (command i p cmd r out act w')
  then show ?thesis using command_msg_frame [OF wh_world(1) [OF reach] command(6,8)]
    by (auto intro!: dock_inv_set [OF inv] simp: msg_frame_def)
next
  case (notify i p n u w')
  then show ?thesis using send_msg_frame [OF wh_world(1) [OF reach], of "session_pid u"]
    by (auto intro!: dock_inv_set [OF inv] simp: msg_frame_def split: if_splits)
next
  case master
  then show ?thesis using inv by (simp add: dock_inv_def dtally_def)
qed (use inv in \<open>auto intro!: dock_inv_set\<close>)

interpretation wh_dock: inductive_invariant wh_init wh_step dock_inv
proof unfold_locales
  show "dock_inv st" if "wh_init st" for st
  proof -
    have "map (\<lambda>p. dholds (pr_mode p)) (w_ps st) = map (\<lambda>p. 0) (w_ps st)"
      using that by (auto simp: wh_init_def started_def)
    then have "dtally st = 0" by (simp only: dtally_def) simp
    then show ?thesis using that by (simp add: dock_inv_def wh_init_def init_sems_def)
  qed
qed (use dock_inv_step in blast)

text \<open>While a process is in a dock section, the mutex is taken.\<close>

lemma in_dock_locked:
  assumes "wh_reachable st" "i < length (w_ps st)" "dholds (pr_mode (w_ps st ! i)) = 1"
  shows "sems (ww st) SEM_DOCK_MUTEX = 0"
proof -
  have "1 \<le> dtally st"
    using sum_list_map_ge_member [of "\<lambda>p. dholds (pr_mode p)" i "w_ps st"] dholds_nonneg assms(2,3) by (simp add: dtally_def)
  then show ?thesis
    using wh_dock.inv_reachable [OF assms(1)] wh_world(3) [OF assms(1), of SEM_DOCK_MUTEX] by (simp add: dock_inv_def)
qed


section \<open>The system refines the dock under concurrency\<close>

text \<open>
  In the fleet model the sections at the dock are single steps.  A process counts as being after its
  section as soon as the section is done, and the mutex counts as free.  Processes that are not
  trucks appear as trucks that never move.
\<close>

fun stage_pc :: "role_kind \<Rightarrow> stage \<Rightarrow> truck_pc" where
  "stage_pc k (Trucking pc) = pc"
| "stage_pc (TruckR n) Logout = Ended"
| "stage_pc (TruckR n) Finished = Ended"
| "stage_pc k x = Arriving"

definition fleet_pc :: "process \<Rightarrow> truck_pc" where
  "fleet_pc p = stage_pc (pr_kind p) (case pr_mode p of DockUnlock c b \<Rightarrow> after_dock b (pr_stage p) | _ \<Rightarrow> pr_stage p)"

definition unlocked :: "world \<Rightarrow> world" where
  "unlocked w = w\<lparr>sems := (sems w)(SEM_DOCK_MUTEX := 1)\<rparr>"

definition abs_fleet :: "warehouse \<Rightarrow> fleet" where
  "abs_fleet st = \<lparr>trucks = map (\<lambda>p. (pr_pid p, fleet_pc p)) (w_ps st), fw = unlocked (ww st)\<rparr>"

lemma unlocked_simps [simp]:
  "shm (unlocked w) = shm w" "attached (unlocked w) = attached w" "kernel (unlocked w) = kernel w"
  "msgq (unlocked w) = msgq w" "sems (unlocked w) SEM_DOCK_MUTEX = 1"
  by (simp_all add: unlocked_def)

lemma abs_fleet_simps [simp]:
  "length (trucks (abs_fleet st)) = length (w_ps st)" "fw (abs_fleet st) = unlocked (ww st)"
  "i < length (w_ps st) \<Longrightarrow> trucks (abs_fleet st) ! i = (pr_pid (w_ps st ! i), fleet_pc (w_ps st ! i))"
  by (simp_all add: abs_fleet_def)

lemma abs_fleet_ghosts [simp]:
  "abs_fleet (st\<lparr>w_loaded := x\<rparr>) = abs_fleet st" "abs_fleet (st\<lparr>w_dropped := y\<rparr>) = abs_fleet st"
  "abs_fleet (st\<lparr>w_acc := a, w_got := b\<rparr>) = abs_fleet st"
  by (simp_all add: abs_fleet_def)

lemma fleet_others:
  assumes "i < length (w_ps st)" "pr_pid p = pr_pid (w_ps st ! i)" "fleet_pc p = fleet_pc (w_ps st ! i)"
    "same_dock (unlocked (ww st)) (unlocked w)"
  shows "fleet_step\<^sup>*\<^sup>* (abs_fleet st) (abs_fleet (set_proc i p w st))"
proof -
  have "map (\<lambda>p. (pr_pid p, fleet_pc p)) ((w_ps st)[i := p]) = map (\<lambda>p. (pr_pid p, fleet_pc p)) (w_ps st)"
    using assms(1-3) by (simp add: map_update) (metis (no_types, lifting) length_map list_update_id nth_map)
  then have "abs_fleet (set_proc i p w st) = (abs_fleet st)\<lparr>fw := unlocked w\<rparr>" by (simp add: abs_fleet_def)
  moreover have "fleet_step (abs_fleet st) ((abs_fleet st)\<lparr>fw := unlocked w\<rparr>)"
    using assms(4) by (intro fleet_step.others) simp
  ultimately show ?thesis by simp
qed

lemma fleet_move:
  assumes "i < length (w_ps st)" "pr_pid p = pr_pid (w_ps st ! i)" "legal_rolls r"
    "truck_step (pr_pid p) r (fleet_pc (w_ps st ! i)) (unlocked (ww st)) = Done (fleet_pc p) w1"
    "same_dock w1 (unlocked w)"
  shows "fleet_step\<^sup>*\<^sup>* (abs_fleet st) (abs_fleet (set_proc i p w st))"
proof -
  define f where "f = (abs_fleet st)\<lparr>trucks := (trucks (abs_fleet st))[i := (pr_pid p, fleet_pc p)], fw := w1\<rparr>"
  have "fleet_step (abs_fleet st) f"
    unfolding f_def using assms(1-4) by (intro fleet_step.truck) simp_all
  moreover have "fleet_step f (f\<lparr>fw := unlocked w\<rparr>)"
    using assms(5) by (intro fleet_step.others) (simp add: f_def)
  moreover have "f\<lparr>fw := unlocked w\<rparr> = abs_fleet (set_proc i p w st)"
    by (simp add: f_def abs_fleet_def map_update)
  ultimately show ?thesis by (metis converse_rtranclp_into_rtranclp r_into_rtranclp)
qed

lemma same_dock_refl [simp]: "same_dock w w"
  by (simp add: same_dock_def)

text \<open>A section executed under the mutex is the bracketed section of the sequential program.\<close>

lemma bracket_unlocked:
  assumes "kernel w = []" "sems w SEM_DOCK_MUTEX = 0" "body w = Done b w'" "kernel w' = []" "sems w' = sems w"
  shows "with_lock lockDock unlockDock body (unlocked w) = Done b (unlocked w')"
proof -
  have w: "(unlocked w)\<lparr>sems := (sems (unlocked w))(SEM_DOCK_MUTEX := 0)\<rparr> = w"
    using assms(2) by (simp add: unlocked_def fun_upd_idem)
  have "with_lock lockDock unlockDock body (unlocked w)
      = Done b (w'\<lparr>sems := (sems w')(SEM_DOCK_MUTEX := sems (unlocked w) SEM_DOCK_MUTEX)\<rparr>)"
    using assms by (intro dock_mutex.bracket_Done) (simp_all add: w)
  then show ?thesis by (simp add: unlocked_def)
qed

lemma call_body_dock:
  assumes "call_body c s = Some (a, s')"
  shows "dock_truck s' = dock_truck s \<and> trucks_completed s' = trucks_completed s \<and> running s' = running s"
  using assms
  by (cases c) (auto simp: login_body_def logout_body_def registerWorker_body_def unregisterWorker_body_def
      trySpawnProcess_body_def reportProcessFinished_body_def push_body_def pop_body_def Let_def bind_eq_Some_conv
      split: if_splits)

text \<open>A process that is not a truck does not move, and neither does a truck outside its loop.\<close>

lemma fleet_pc_mode:
  "\<forall>c b. m \<noteq> DockUnlock c b \<Longrightarrow> fleet_pc (p\<lparr>pr_mode := m\<rparr>) = stage_pc (pr_kind p) (pr_stage p)"
  "\<forall>c b. pr_mode p \<noteq> DockUnlock c b \<Longrightarrow> fleet_pc p = stage_pc (pr_kind p) (pr_stage p)"
  by (auto simp: fleet_pc_def split: mode.split)

lemma fleet_pc_after_call:
  assumes "proc_ok p" "calls p c" "reply_ok c a"
  shows "fleet_pc (after_call a p) = stage_pc (pr_kind p) (pr_stage p)"
    "fleet_pc (leave_call c a p) = stage_pc (pr_kind p) (pr_stage p)"
proof -
  show a: "fleet_pc (after_call a p) = stage_pc (pr_kind p) (pr_stage p)"
    using assms by (cases c; cases "pr_kind p")
      (auto simp: calls_stage proc_ok_def kind_stage_def fleet_pc_def split: if_splits)
  show "fleet_pc (leave_call c a p) = stage_pc (pr_kind p) (pr_stage p)"
    using a by (auto simp: leave_call_def fleet_pc_def)
qed

lemma truck_kind:
  assumes "proc_ok p" "pr_stage p = Trucking pc"
  obtains n where "pr_kind p = TruckR n"
  using assms by (auto simp: proc_ok_def kind_stage_def)


lemma docks_stage:
  assumes "docks p c"
  shows "case c of
     DockS r \<Rightarrow> pr_stage p = Trucking Docking \<and> legal_rolls r
   | ShutdownS \<Rightarrow> pr_stage p = Trucking ShuttingDown
   | DepartS \<Rightarrow> pr_stage p = Trucking Departing
   | LeaveS \<Rightarrow> pr_stage p = Trucking Leaving
   | LoadS pkg \<Rightarrow> pr_stage p = Load pkg
   | ExpressS ds \<Rightarrow> pr_stage p = ExpDeliver \<and> legal_draws ds"
proof (cases "pr_stage p")
  case (Trucking pc)
  then show ?thesis using assms by (cases pc) (auto simp: docks_def)
qed (use assms in \<open>auto simp: docks_def\<close>)

lemma plain_rolls_legal: "legal_rolls plain_rolls"
  by (simp add: legal_rolls_def plain_rolls_def)

lemma same_dock_sleep [simp]: "same_dock (sleep_ms d w) w" "same_dock w (sleep_ms d w)"
  by (simp_all add: same_dock_def sleep_ms_def)

text \<open>The sections of a truck are the steps of its loop in \<open>Truck\<close>.\<close>

lemma truck_section_step:
  assumes "kernel w = []" "attached w" "sems w SEM_DOCK_MUTEX = 0" "docks p c"
    "dock_section (pr_pid p) c w = Done b w'" "pr_stage p = Trucking pc" "pr_kind p = TruckR n"
  shows "\<exists>r w1. legal_rolls r \<and> same_dock w1 (unlocked w')
     \<and> truck_step (pr_pid p) r pc (unlocked w) = Done (stage_pc (pr_kind p) (after_dock b (pr_stage p))) w1"
proof -
  have f: "kernel w' = []" "sems w' = sems w" using dock_section_frame [OF assms(1,5)] by (simp_all add: dock_frame_def)
  note br = bracket_unlocked [OF assms(1,3) _ f] and d = docks_stage [OF assms(4)]
  show ?thesis
  proof (cases c)
    case (DockS r)
    then have "with_lock lockDock unlockDock (on_shm (dock_body (pr_pid p) r)) (unlocked w) = Done b (unlocked w')"
      using assms(5) by (intro br) simp
    then show ?thesis using DockS d assms(6)
      by (intro exI [of _ r] exI [of _ "if b then unlocked w' else sleep_ms 1000 (unlocked w')"])
        (auto simp: truck_step.simps)
  next
    case ShutdownS
    then have "with_lock lockDock unlockDock (on_shm (shutdown_body (pr_pid p))) (unlocked w) = Done b (unlocked w')"
      using assms(5) by (intro br) simp
    then show ?thesis using ShutdownS d assms(6) plain_rolls_legal
      by (intro exI [of _ plain_rolls] exI [of _ "if b then sleep_ms 3000 (unlocked w') else unlocked w'"])
        (auto simp: truck_step.simps)
  next
    case DepartS
    then have "with_lock lockDock unlockDock (on_shm (depart_body (pr_pid p))) (unlocked w) = Done b (unlocked w')"
      using assms(5) by (intro br) simp
    then show ?thesis using DepartS d assms(6) plain_rolls_legal
      by (intro exI [of _ plain_rolls] exI [of _ "sleep_ms (route_time plain_rolls) (unlocked w')"])
        (auto simp: truck_step.simps)
  next
    case LeaveS
    then have "with_lock lockDock unlockDock (\<lambda>w1. if \<not> attached w1 then UB else on_shm (leave_body (pr_pid p)) w1)
        (unlocked w) = Done () (unlocked w')"
      using assms(2,5) by (intro bracket_unlocked [OF assms(1,3) _ f]) (auto simp: obind_eq_Done_iff)
    then show ?thesis using LeaveS d assms(6,7) plain_rolls_legal
      by (intro exI [of _ plain_rolls] exI [of _ "unlocked w'"]) (auto simp: truck_step.simps)
  qed (use d assms(6) in auto)
qed

lemma fleet_sim_dbody:
  assumes reach: "wh_reachable st" and i: "i < length (w_ps st)" "p = w_ps st ! i" and m: "pr_mode p = InDock c"
    and b: "dock_section (pr_pid p) c (ww st) = Done b w'"
  shows "fleet_step\<^sup>*\<^sup>* (abs_fleet st) (abs_fleet (set_proc i (p\<lparr>pr_mode := DockUnlock c b\<rparr>) w' st))"
proof -
  note w = wh_world [OF reach]
  have ok: "proc_ok p" "docks p c"
    using procs_ok_nth [OF wh_procs.inv_reachable [OF reach] i(1)] i(2) m by (auto simp: proc_ok_def mode_ok_def)
  have z: "sems (ww st) SEM_DOCK_MUTEX = 0" using in_dock_locked [OF reach i(1)] i(2) m by simp
  have f: "kernel w' = []" "sems w' = sems (ww st)"
    using dock_section_frame [OF w(1) b] by (simp_all add: dock_frame_def)
  note d = docks_stage [OF ok(2)]
  have pc: "fleet_pc (p\<lparr>pr_mode := DockUnlock c b\<rparr>) = stage_pc (pr_kind p) (after_dock b (pr_stage p))"
    "fleet_pc p = stage_pc (pr_kind p) (pr_stage p)" using m by (simp_all add: fleet_pc_def)
  have still: ?thesis if "fleet_step (abs_fleet st) ((abs_fleet st)\<lparr>fw := unlocked w'\<rparr>)"
    "fleet_pc (p\<lparr>pr_mode := DockUnlock c b\<rparr>) = fleet_pc p"
  proof -
    have "abs_fleet (set_proc i (p\<lparr>pr_mode := DockUnlock c b\<rparr>) w' st) = (abs_fleet st)\<lparr>fw := unlocked w'\<rparr>"
      using that(2) i by (simp add: abs_fleet_def map_update) (metis (no_types, lifting) length_map list_update_id nth_map)
    then show ?thesis using that(1) by simp
  qed
  consider (truck) x where "pr_stage p = Trucking x" | (load) pkg where "c = LoadS pkg" | (express) ds where "c = ExpressS ds"
    using d by (cases c) auto
  then show ?thesis
  proof cases
    case truck
    obtain n where n: "pr_kind p = TruckR n" using truck_kind [OF ok(1) truck] .
    obtain r w1 where "legal_rolls r" "same_dock w1 (unlocked w')"
      "truck_step (pr_pid p) r x (unlocked (ww st)) = Done (stage_pc (pr_kind p) (after_dock b (pr_stage p))) w1"
      using truck_section_step [OF w(1,2) z ok(2) b truck n] by blast
    then show ?thesis using i pc truck by (intro fleet_move [where r = r and ?w1.0 = w1]) auto
  next
    case load
    then have "with_lock lockDock unlockDock (load_attempt pkg) (unlocked (ww st)) = Done b (unlocked w')"
      using b by (intro bracket_unlocked [OF w(1) z _ f]) simp
    then have "fleet_step (abs_fleet st) ((abs_fleet st)\<lparr>fw := unlocked w'\<rparr>)"
      by (intro fleet_step.dispatch) simp
    then show ?thesis using still pc d load by simp
  next
    case express
    then have "with_lock lockDock unlockDock
        (\<lambda>w1. if \<not> is_present (dock_truck (shm w1)) then Done () w1 else express_loop ds w1) (unlocked (ww st))
        = Done () (unlocked w')"
      using b by (intro bracket_unlocked [OF w(1) z _ f]) (auto simp: obind_eq_Done_iff split: if_splits)
    then have "fleet_step (abs_fleet st) ((abs_fleet st)\<lparr>fw := unlocked w'\<rparr>)"
      using w(2) by (intro fleet_step.express [where ds = ds and u = "()"]) (simp add: deliverExpressBatch_def)
    then show ?thesis using still pc d express by simp
  qed
qed


lemma unlocked_sems: "(\<And>k. k \<noteq> SEM_DOCK_MUTEX \<Longrightarrow> sems w' k = sems w k) \<Longrightarrow> shm w' = shm w \<Longrightarrow>
    attached w' = attached w \<Longrightarrow> kernel w' = kernel w \<Longrightarrow> same_dock (unlocked w) (unlocked w')"
  by (simp add: same_dock_def)

lemma same_dock_sem:
  assumes "semOperation k v w = Done () w'" "kernel w = []"
  shows "same_dock (unlocked w) (unlocked w')"
  using semOperation_DoneD [OF assms] assms(2) by (simp add: same_dock_def)

lemma same_dock_msg: "msg_frame w w' \<Longrightarrow> kernel w = [] \<Longrightarrow> same_dock (unlocked w) (unlocked w')"
  by (simp add: same_dock_def msg_frame_def)

lemma receive_unlocked:
  "receiveSignalBlocking p w = Done sig w' \<Longrightarrow> receiveSignalBlocking p (unlocked w) = Done sig (unlocked w')"
  "unlocked (w\<lparr>kernel := ks\<rparr>) = (unlocked w)\<lparr>kernel := ks\<rparr>"
  by (auto simp: receiveSignalBlocking_def unlocked_def split: option.splits list.splits)

text \<open>A test of \<open>running\<close> or a received signal moves a truck along its loop and nobody else.\<close>

lemma fleet_pc_test:
  assumes "proc_ok p" "pr_mode p = Here" "local_test stop run (pr_stage p) = Some x"
  shows "if pr_stage p = Trucking Arriving then fleet_pc p = Arriving \<and> fleet_pc (p\<lparr>pr_stage := x\<rparr>) = (if run then Docking else Leaving)
     else fleet_pc (p\<lparr>pr_stage := x\<rparr>) = fleet_pc p"
proof (cases "pr_stage p")
  case (Trucking pc)
  then show ?thesis using assms by (cases pc) (auto simp: fleet_pc_def)
qed (use assms in \<open>auto simp: fleet_pc_def proc_ok_def kind_stage_def split: if_splits\<close>)

lemma fleet_pc_signal:
  assumes "proc_ok p" "pr_mode p = Here" "after_signal sig run (pr_stage p) = Some x"
  shows "if pr_stage p = Trucking Waiting then fleet_pc p = Waiting
       \<and> fleet_pc (p\<lparr>pr_stage := x\<rparr>) = (if sig = SIGNAL_END_WORK \<or> \<not> run then ShuttingDown else Departing)
     else fleet_pc (p\<lparr>pr_stage := x\<rparr>) = fleet_pc p"
proof (cases "pr_stage p")
  case (Trucking pc)
  then show ?thesis using assms by (cases pc) (auto simp: fleet_pc_def)
qed (use assms in \<open>auto simp: fleet_pc_def proc_ok_def kind_stage_def split: if_splits\<close>)

lemma fleet_sim_test:
  assumes reach: "wh_reachable st" and i: "i < length (w_ps st)" "p = w_ps st ! i" and m: "pr_mode p = Here"
    and x: "local_test stop (running (shm (ww st))) (pr_stage p) = Some x"
  shows "fleet_step\<^sup>*\<^sup>* (abs_fleet st) (abs_fleet (set_proc i (p\<lparr>pr_stage := x\<rparr>) (ww st) st))"
proof -
  have ok: "proc_ok p" using procs_ok_nth [OF wh_procs.inv_reachable [OF reach] i(1)] i(2) by simp
  note pc = fleet_pc_test [OF ok m x]
  show ?thesis
  proof (cases "pr_stage p = Trucking Arriving")
    case True
    have "truck_step (pr_pid p) plain_rolls Arriving (unlocked (ww st)) = Done (fleet_pc (p\<lparr>pr_stage := x\<rparr>)) (unlocked (ww st))"
      using pc True wh_world(2) [OF reach] by (simp add: truck_step.simps)
    then show ?thesis using i pc True plain_rolls_legal
      by (intro fleet_move [where r = plain_rolls and ?w1.0 = "unlocked (ww st)"]) auto
  next
    case False
    then show ?thesis using i pc by (intro fleet_others) auto
  qed
qed

lemma fleet_sim_receive:
  assumes reach: "wh_reachable st" and i: "i < length (w_ps st)" "p = w_ps st ! i" and m: "pr_mode p = Here"
    and w1: "w1 = ww st \<or> w1 = (ww st)\<lparr>kernel := [Some EINTR]\<rparr>"
    and r: "receiveSignalBlocking (pr_pid p) w1 = Done sig w'"
    and x: "after_signal sig (running (shm w')) (pr_stage p) = Some x"
  shows "fleet_step\<^sup>*\<^sup>* (abs_fleet st) (abs_fleet (set_proc i (p\<lparr>pr_stage := x\<rparr>) w' st))"
proof -
  have ok: "proc_ok p" using procs_ok_nth [OF wh_procs.inv_reachable [OF reach] i(1)] i(2) by simp
  note pc = fleet_pc_signal [OF ok m x] and w = wh_world(1) [OF reach]
  show ?thesis
  proof (cases "pr_stage p = Trucking Waiting")
    case True
    have t: "truck_step (pr_pid p) plain_rolls Waiting (unlocked w1) = Done (fleet_pc (p\<lparr>pr_stage := x\<rparr>)) (unlocked w')"
      using pc True receive_unlocked(1) [OF r] by (simp add: truck_step.simps)
    from w1 show ?thesis
    proof
      assume "w1 = ww st"
      then show ?thesis using t i pc True plain_rolls_legal
        by (intro fleet_move [where r = plain_rolls and ?w1.0 = "unlocked w'"]) auto
    next
      assume "w1 = (ww st)\<lparr>kernel := [Some EINTR]\<rparr>"
      then have "fleet_step (abs_fleet st) ((abs_fleet st)\<lparr>trucks := (trucks (abs_fleet st))
          [i := (pr_pid p, fleet_pc (p\<lparr>pr_stage := x\<rparr>))], fw := unlocked w'\<rparr>)"
        using t i pc True by (intro fleet_step.interrupted) (auto simp: receive_unlocked(2))
      then show ?thesis by (simp add: abs_fleet_def map_update)
    qed
  next
    case False
    then show ?thesis using i pc same_dock_msg [OF receive_msg_frame [OF w w1 r] w] by (intro fleet_others) auto
  qed
qed

lemma fleet_sim_step:
  assumes reach: "wh_reachable st" and step: "wh_step st st'"
  shows "fleet_step\<^sup>*\<^sup>* (abs_fleet st) (abs_fleet st')"
proof -
  note w = wh_world [OF reach] and okn = procs_ok_nth [OF wh_procs.inv_reachable [OF reach]]
  from step show ?thesis
  proof cases
    case (call i p d c)
    then show ?thesis by (auto intro!: fleet_others simp: fleet_pc_mode)
  next
    case (wait i p c k w')
    then show ?thesis using same_dock_sem [OF wait(6) w(1)] by (auto intro!: fleet_others simp: fleet_pc_mode)
  next
    case (lock i p c w')
    then show ?thesis using same_dock_sem [OF lock(5) [unfolded lockBelt_def] w(1)]
      by (auto intro!: fleet_others simp: fleet_pc_mode)
  next
    case (body i p c a s')
    then have "same_dock (unlocked (ww st)) (unlocked ((ww st)\<lparr>shm := s'\<rparr>))"
      using call_body_dock [OF body(5)] by (simp add: same_dock_def unlocked_def)
    then show ?thesis using body by (auto intro!: fleet_others simp: fleet_pc_mode)
  next
    case (unlock i p c a w')
    then have p: "proc_ok p" "calls p c" "reply_ok c a"
      using okn [OF unlock(2)] by (auto simp: proc_ok_def mode_ok_def)
    show ?thesis using unlock same_dock_sem [OF unlock(5) [unfolded unlockBelt_def] w(1)]
        leave_call_ok(2) [OF p] fleet_pc_after_call(2) [OF p] by (auto intro!: fleet_others simp: fleet_pc_mode)
  next
    case (post i p c a k w')
    then have p: "proc_ok p" "calls p c" "reply_ok c a"
      using okn [OF post(2)] by (auto simp: proc_ok_def mode_ok_def)
    show ?thesis using post same_dock_sem [OF post(6) w(1)] after_call_ok(2) [OF p] fleet_pc_after_call(1) [OF p]
      by (auto intro!: fleet_others simp: fleet_pc_mode)
  next
    case (dock i p r ds c)
    then show ?thesis by (auto intro!: fleet_others simp: fleet_pc_mode)
  next
    case (dlock i p c w')
    then show ?thesis using same_dock_sem [OF dlock(5) [unfolded lockDock_def] w(1)]
      by (auto intro!: fleet_others simp: fleet_pc_mode)
  next
    case (dbody i p c b w')
    then show ?thesis using fleet_sim_dbody [OF reach dbody(2-5)] by simp
  next
    case (dunlock i p c b w')
    then show ?thesis using same_dock_sem [OF dunlock(5) [unfolded unlockDock_def] w(1)]
      by (auto intro!: fleet_others simp: fleet_pc_def)
  next
    case (test i p stop x)
    then show ?thesis using fleet_sim_test [OF reach test(2-5)] by simp
  next
    case (receive i p w1 sig w' x)
    then show ?thesis using fleet_sim_receive [OF reach receive(2-7)] by simp
  next
    case (command i p cmd r out act w')
    then have "proc_ok p" using okn by simp
    then show ?thesis using command same_dock_msg [OF command_msg_frame [OF w(1) command(6,8)] w(1)]
      by (auto intro!: fleet_others simp: fleet_pc_def proc_ok_def kind_stage_def)
  next
    case (halt i p r)
    then show ?thesis by (auto intro!: fleet_others simp: fleet_pc_def same_dock_def)
  next
    case (notify i p n u w')
    then have "msg_frame (ww st) w'"
      using send_msg_frame [OF w(1), of "session_pid u"] w(1) by (auto simp: msg_frame_def split: if_splits)
    then show ?thesis using notify same_dock_msg [OF _ w(1)] by (auto intro!: fleet_others simp: fleet_pc_def)
  next
    case (halted i p)
    then have "proc_ok p" using okn by simp
    then show ?thesis using halted by (auto intro!: fleet_others simp: fleet_pc_def proc_ok_def kind_stage_def)
  next
    case master
    have "fleet_step (abs_fleet st) ((abs_fleet st)\<lparr>fw := unlocked (ww st')\<rparr>)"
      by (intro fleet_step.others) (simp add: master same_dock_def)
    then show ?thesis unfolding master by (simp add: abs_fleet_def)
  qed
qed

interpretation fleet_refinement: forward_simulation wh_init wh_step fleet_init fleet_step abs_fleet
proof unfold_locales
  show "fleet_init (abs_fleet st)" if "wh_init st" for st
    using that by (auto simp: wh_init_def fleet_init_def started_def abs_fleet_def fleet_pc_def unlocked_def
        boot_world_def init_sems_def fun_upd_twist comp_def)
qed (use fleet_sim_step in blast)

end
