(* ===== verification/Startup.thy ===== *)
theory Startup
  imports Warehouse
begin

text \<open>
  From the command line to the end of the process: arguments, logger, IPC objects, \<open>main\<close>, exit.

  \<open>Processes\<close> has the loops of the processes; here they are put between the reading of \<open>argv\<close> (with
  \<open>std::atoi\<close> and \<open>std::stoi\<close>), the construction of the \<open>Manager\<close> over the IPC objects of the kernel
  and its destruction.  What a process writes to shared memory is what the objects contain when it
  has ended.  The last part links the arguments the master passes to its children with the roles of
  the whole system.
\<close>

section \<open>Numbers on the command line\<close>

definition isspace :: "char \<Rightarrow> bool" where
  "isspace c \<longleftrightarrow> (let k = of_char c :: nat in k = 32 \<or> 9 \<le> k \<and> k \<le> 13)"

definition isdigit :: "char \<Rightarrow> bool" where
  "isdigit c \<longleftrightarrow> 48 \<le> (of_char c :: nat) \<and> (of_char c :: nat) \<le> 57"

definition digits_value :: "string \<Rightarrow> int" where
  "digits_value ds = foldl (\<lambda>a c. 10 * a + (int (of_char c) - 48)) 0 ds"

text \<open>The number at the beginning of a string, after white space and a sign; \<open>None\<close> if there is none.\<close>

definition leading_int :: "string \<Rightarrow> int option" where
  "leading_int s =
     (let t = dropWhile isspace s;
          signed = (t \<noteq> [] \<and> (hd t = CHR ''-'' \<or> hd t = CHR ''+''));
          ds = takeWhile isdigit (if signed then tl t else t)
      in if ds = [] then None
         else Some (if signed \<and> hd t = CHR ''-'' then - digits_value ds else digits_value ds))"

text \<open>\<open>std::atoi\<close>: 0 without a number; a value outside the range of \<open>int\<close> is undefined.\<close>

definition atoi :: "string \<Rightarrow> int option" where
  "atoi s = (case leading_int s of None \<Rightarrow> Some 0 | Some i \<Rightarrow> if in_int32 i then Some i else None)"

datatype stoi_exception = InvalidArgument | OutOfRange

definition stoi :: "string \<Rightarrow> stoi_exception + int" where
  "stoi s = (case leading_int s of None \<Rightarrow> Inl InvalidArgument
     | Some i \<Rightarrow> if in_int32 i then Inr i else Inl OutOfRange)"

declare digits.simps [simp del]

lemma digits_isdigit: "c \<in> set (digits n) \<Longrightarrow> isdigit c"
proof (induction n rule: digits.induct)
  case (1 n)
  have d: "isdigit (char_of (48 + k))" if "k < 10" for k :: nat
    using that by (simp add: isdigit_def of_char_of)
  show ?case using "1.IH" "1.prems" d [of n] d [of "n mod 10"] by (subst (asm) digits.simps) (auto split: if_splits)
qed

lemma digits_nonempty: "digits n \<noteq> []"
  by (subst digits.simps) simp

lemma digits_value_digits: "digits_value (digits n) = int n"
proof (induction n rule: digits.induct)
  case (1 n)
  have c: "int (of_char (char_of (48 + k) :: char)) - 48 = int k" if "k < 10" for k :: nat
    using that by (simp add: of_char_of)
  show ?case
  proof (cases "n < 10")
    case True
    then show ?thesis using c [OF True] by (subst digits.simps) (simp add: digits_value_def)
  next
    case False
    have "digits_value (digits n) = 10 * digits_value (digits (n div 10)) + int (n mod 10)"
      using False c [of "n mod 10"] by (subst digits.simps) (simp add: digits_value_def)
    also have "\<dots> = int (10 * (n div 10) + n mod 10)"
      by (simp only: "1.IH" [OF False] of_nat_add of_nat_mult of_nat_numeral)
    finally show ?thesis by simp
  qed
qed

lemma isdigit_chars: "isdigit c \<Longrightarrow> \<not> isspace c \<and> c \<noteq> CHR ''-'' \<and> c \<noteq> CHR ''+''"
  by (auto simp: isdigit_def isspace_def Let_def)

lemma takeWhile_digits: "takeWhile isdigit (digits n) = digits n"
  using digits_isdigit by (simp add: takeWhile_eq_all_conv)

lemma leading_int_to_string: "leading_int (to_string i) = Some i"
proof (cases "i < 0")
  case True
  have "dropWhile isspace (CHR ''-'' # xs) = CHR ''-'' # xs" for xs by (simp add: isspace_def Let_def)
  then show ?thesis using True
    by (simp add: leading_int_def to_string_def Let_def takeWhile_digits digits_nonempty digits_value_digits)
next
  case False
  obtain c cs where d: "digits (nat i) = c # cs" using digits_nonempty by (cases "digits (nat i)") auto
  then have c: "\<not> isspace c" "c \<noteq> CHR ''-''" "c \<noteq> CHR ''+''"
    using isdigit_chars digits_isdigit [of c "nat i"] by auto
  then have "dropWhile isspace (digits (nat i)) = digits (nat i)" by (simp add: d)
  moreover have "hd (digits (nat i)) \<noteq> CHR ''-''" "hd (digits (nat i)) \<noteq> CHR ''+''" using c d by simp_all
  ultimately show ?thesis using False digits_value_digits [of "nat i"]
    by (simp add: leading_int_def to_string_def takeWhile_digits digits_nonempty)
qed

section \<open>What a process gets from the system\<close>

text \<open>
  The command line (with the name of the program first), the pid, the environment, whether the log file
  cannot be opened, and the errors and limits of the IPC calls.
\<close>

record os_input =
  argv :: "string list"
  os_pid :: pid_t
  environ :: "string \<Rightarrow> string option"
  file_throws :: bool
  ipc_err :: ipc_errors
  qbytes :: int

text \<open>How a process ends.\<close>

datatype main_end = Returned exit_status | CalledExit errno | ExitOne | StillBlocked wait_point | Terminated | Undefined

text \<open>What the IPC objects contain when the process does not touch them any more.\<close>

definition objects_of :: "world \<Rightarrow> ipc_objects" where
  "objects_of w = \<lparr>ipc_shm = Some (shm w), ipc_sem = Some (sems w), ipc_msg = Some (msgq w)\<rparr>"

text \<open>
  A block with a local \<open>Manager manager(false)\<close>.  A return or an exception destroys the manager, which
  leaves the objects in place; \<open>exit\<close> does not.
\<close>

definition with_manager ::
  "os_input \<Rightarrow> (world \<Rightarrow> exit_status outcome option) \<Rightarrow> ipc_objects \<Rightarrow> (main_end \<times> ipc_objects) option"
where
  "with_manager os body sys =
     (case Manager_new False (ipc_err os) (qbytes os) sys of
        Inl e \<Rightarrow> Some (CalledExit e, sys)
      | Inr (sys1, w) \<Rightarrow> map_option (\<lambda>r. case r of
            Done x w' \<Rightarrow> (Returned x, Manager_delete False (objects_of w'))
          | Exited e w' \<Rightarrow> (CalledExit e, objects_of w')
          | Blocked p w' \<Rightarrow> (StillBlocked p, objects_of w')
          | UB \<Rightarrow> (Undefined, sys1)) (body w))"

section \<open>The programs\<close>

text \<open>The result of a program: how it ends, its logger, the IPC objects.\<close>

definition logged :: "logger \<Rightarrow> (main_end \<times> ipc_objects) option \<Rightarrow> (main_end \<times> logger \<times> ipc_objects) option" where
  "logged lg = map_option (\<lambda>(e, sys). (e, lg, sys))"

definition dispatcher_program ::
  "os_input \<Rightarrow> (world \<Rightarrow> world) list list \<Rightarrow> logger \<Rightarrow> ipc_objects \<Rightarrow> (main_end \<times> logger \<times> ipc_objects) option"
where
  "dispatcher_program os rounds old sys =
     logged (setupLogger (environ os) (file_throws os) ''system-dispatcher'' old)
       (with_manager os (main_dispatcher (os_pid os) rounds) sys)"

definition express_program ::
  "os_input \<Rightarrow> ((world \<Rightarrow> world) \<times> bool \<times> draw list) list \<Rightarrow> logger \<Rightarrow> ipc_objects \<Rightarrow>
   (main_end \<times> logger \<times> ipc_objects) option"
where
  "express_program os ins old sys =
     logged (setupLogger (environ os) (file_throws os) ''system-express'' old)
       (with_manager os (main_express (os_pid os) ins) sys)"

definition belt_program ::
  "os_input \<Rightarrow> ((world \<Rightarrow> world) \<times> bool) list \<Rightarrow> logger \<Rightarrow> ipc_objects \<Rightarrow> (main_end \<times> logger \<times> ipc_objects) option"
where
  "belt_program os ins old sys =
     logged (setupLogger (environ os) (file_throws os) ''system-belt'' old)
       (with_manager os (main_belt (os_pid os) ins) sys)"

text \<open>The console keeps the logger it was started with.\<close>

definition terminal_program ::
  "os_input \<Rightarrow> ((world \<Rightarrow> world) \<times> bool \<times> stdin_event) list \<Rightarrow> logger \<Rightarrow> ipc_objects \<Rightarrow>
   (main_end \<times> logger \<times> ipc_objects) option"
where
  "terminal_program os ins old sys = logged old (with_manager os (main_terminal (os_pid os) ins) sys)"

text \<open>\<open>argc > 1 ? std::atoi(argv[1]) : 1\<close>\<close>

definition truck_argument :: "os_input \<Rightarrow> int option" where
  "truck_argument os = (if 1 < length (argv os) then atoi (argv os ! 1) else Some 1)"

definition truck_program ::
  "os_input \<Rightarrow> ((world \<Rightarrow> world) \<times> rolls) list \<Rightarrow> logger \<Rightarrow> ipc_objects \<Rightarrow> (main_end \<times> logger \<times> ipc_objects) option"
where
  "truck_program os ins old sys =
     (case truck_argument os of
        None \<Rightarrow> Some (Undefined, old, sys)
      | Some i \<Rightarrow>
          logged (setupLogger (environ os) (file_throws os) (''truck-'' @ to_string i) old)
            (with_manager os (main_truck i (os_pid os) ins) sys))"

text \<open>\<open>argc > 1 ? std::stoi(argv[1]) : getpid() % 1000\<close>; an exception ends \<open>main\<close> with \<open>EXIT_FAILURE\<close>.\<close>

definition worker_argument :: "os_input \<Rightarrow> stoi_exception + int" where
  "worker_argument os = (if 1 < length (argv os) then stoi (argv os ! 1) else Inr (os_pid os mod 1000))"

definition worker_program ::
  "os_input \<Rightarrow> ((world \<Rightarrow> world) \<times> bool \<times> worker_draw) list \<Rightarrow> logger \<Rightarrow> ipc_objects \<Rightarrow>
   (main_end \<times> logger \<times> ipc_objects) option"
where
  "worker_program os ins old sys =
     (case worker_argument os of
        Inl exc \<Rightarrow> Some (Returned EXIT_FAILURE, old, sys)
      | Inr worker_id \<Rightarrow>
          logged (setupLogger (environ os) (file_throws os) (''worker-'' @ to_string worker_id) old)
            (with_manager os (main_worker worker_id (os_pid os) ins) sys))"

section \<open>The master\<close>

text \<open>The directory \<open>logs\<close> and the report of an earlier run.\<close>

record log_files =
  logs_dir :: bool
  old_report :: bool

text \<open>
  \<open>create_throws\<close>: the directory cannot be created; the exception is not caught.  When \<open>fork\<close> fails,
  \<open>spawnChild\<close> calls \<open>exit(1)\<close>, which does not destroy the manager.
\<close>

definition prepare_logs :: "bool \<Rightarrow> log_files \<Rightarrow> log_files option" where
  "prepare_logs create_throws fs =
     (if \<not> logs_dir fs \<and> create_throws then None else Some (fs\<lparr>logs_dir := True, old_report := False\<rparr>))"

text \<open>The objects after a construction that failed: the old segment is gone, what was created stays.\<close>

definition failed_objects :: "ipc_errors \<Rightarrow> ipc_objects \<Rightarrow> ipc_objects" where
  "failed_objects err sys =
     (if shmget_err err \<noteq> None then sys\<lparr>ipc_shm := None\<rparr>
      else if shmat_err err \<noteq> None \<or> semget_err err \<noteq> None then sys\<lparr>ipc_shm := Some zero_SharedState\<rparr>
      else sys\<lparr>ipc_shm := Some zero_SharedState,
             ipc_sem := Some (case ipc_sem sys of Some v \<Rightarrow> v | None \<Rightarrow> (\<lambda>_. 0))\<rparr>)"

definition master_program ::
  "os_input \<Rightarrow> bool \<Rightarrow> log_files \<Rightarrow> (pid_t \<times> bool) list \<Rightarrow> ((world \<Rightarrow> world) \<times> bool) list \<Rightarrow> logger \<Rightarrow> ipc_objects \<Rightarrow>
   (main_end \<times> log_files \<times> logger \<times> family \<times> ipc_objects) option"
where
  "master_program os create_throws fs forks ins old sys =
     (case prepare_logs create_throws fs of
        None \<Rightarrow> Some (Terminated, fs, old, no_family, sys)
      | Some fs1 \<Rightarrow>
          (let lg = setupLogger (environ os) (file_throws os) ''system-master'' old in
           case Manager_new True (ipc_err os) (qbytes os) sys of
             Inl e \<Rightarrow> Some (CalledExit e, fs1, lg, no_family, failed_objects (ipc_err os) sys)
           | Inr (sys1, w) \<Rightarrow>
               (case master_main forks ins w of
                  None \<Rightarrow> None
                | Some (Inl (s, fam)) \<Rightarrow> Some (ExitOne, fs1, lg, fam, sys1)
                | Some (Inr (fam, w')) \<Rightarrow>
                    Some (Returned EXIT_SUCCESS, fs1, lg, fam, Manager_delete True (objects_of w')))))"

text \<open>The role a command line gives to a process of the whole system.\<close>

definition program_role :: "string \<times> string list \<Rightarrow> role_kind option" where
  "program_role start = (case start of (binary_path, args) \<Rightarrow>
     let os = \<lparr>argv = args, os_pid = 0, environ = (\<lambda>_. None), file_throws = False, ipc_err = no_ipc_errors, qbytes = 0\<rparr> in
     if binary_path = ''./build/dispatcher'' then Some DispatcherR
     else if binary_path = ''./build/express'' then Some ExpressR
     else if binary_path = ''./build/belt'' then Some MonitorR
     else if binary_path = ''./build/truck'' then map_option TruckR (truck_argument os)
     else if binary_path = ''./build/worker'' then
       (case worker_argument os of Inl e \<Rightarrow> None | Inr n \<Rightarrow> Some (WorkerR n))
     else if binary_path = ''./build/terminal'' then Some ConsoleR
     else None)"

fun role_of :: "spawn_end \<Rightarrow> role_kind option" where
  "role_of (Becomes binary_path args) = program_role (binary_path, args)"
| "role_of x = None"

section \<open>A process between its login and its logout\<close>

definition same_lookup :: "ipc_objects \<Rightarrow> ipc_objects \<Rightarrow> bool" where
  "same_lookup sys sys' \<longleftrightarrow> ipc_sem sys' = ipc_sem sys \<and> ipc_msg sys' = ipc_msg sys
     \<and> (\<exists>s s'. ipc_shm sys = Some s \<and> ipc_shm sys' = Some s' \<and> s' = s\<lparr>users := users s'\<rparr>
          \<and> (\<forall>n. session_of n s' = session_of n s))"

text \<open>What is needed to log in: the objects exist, nobody is inside a section, the table is in order.\<close>

definition objects_ok :: "ipc_objects \<Rightarrow> SharedState \<Rightarrow> (SemIndex \<Rightarrow> int) \<Rightarrow> CommandMessage list \<Rightarrow> bool" where
  "objects_ok sys s v q \<longleftrightarrow> sys = \<lparr>ipc_shm = Some s, ipc_sem = Some v, ipc_msg = Some q\<rparr>
     \<and> sessions_inv s \<and> 0 < v SEM_MUTEX_BELT"

text \<open>A loop that ends without having changed anything but the time.\<close>

definition transparent :: "(int \<Rightarrow> world \<Rightarrow> 'a outcome option) \<Rightarrow> SharedState \<Rightarrow> (SemIndex \<Rightarrow> int) \<Rightarrow> bool" where
  "transparent body s v \<longleftrightarrow> (\<forall>c w. sems w = v \<and> attached w \<and> kernel w = [] \<and> shm w = s\<lparr>users := users (shm w)\<rparr> \<longrightarrow>
     (\<exists>a t. body c w = Some (Done a (w\<lparr>clock_ms := t\<rparr>))))"

definition named_outcome :: "string \<Rightarrow> (main_end \<times> ipc_objects) option \<Rightarrow> SharedState \<Rightarrow> ipc_objects \<Rightarrow> bool" where
  "named_outcome name res s sys \<longleftrightarrow>
     (if session_of (login_key name) s = None \<and> has_free_slot s
      then \<exists>sys'. res = Some (Returned EXIT_SUCCESS, sys') \<and> same_lookup sys sys'
      else res = Some (Returned EXIT_FAILURE, sys))"

lemma Manager_new_client:
  assumes "objects_ok sys s v q" "ipc_err os = no_ipc_errors"
  shows "\<exists>w. Manager_new False (ipc_err os) (qbytes os) sys = Inr (sys, w) \<and> shm w = s \<and> sems w = v \<and> msgq w = q
     \<and> attached w \<and> kernel w = [] \<and> objects_of w = sys"
  using assms by (simp add: objects_ok_def Manager_new_def get_object_def no_ipc_errors_def objects_of_def)

lemma guarded_program:
  assumes sys: "objects_ok sys s v q" and os: "ipc_err os = no_ipc_errors" and mp: "0 \<le> mp" "mp \<le> INT32_MAX"
    and body: "transparent body s v"
  shows "named_outcome name (with_manager os (session_guard name r org mp pid body) sys) s sys"
proof -
  obtain w where w: "Manager_new False (ipc_err os) (qbytes os) sys = Inr (sys, w)" "shm w = s" "sems w = v" "msgq w = q"
    "attached w" "kernel w = []" "objects_of w = sys"
    using Manager_new_client [OF sys os] by blast
  have g: "0 < sems w SEM_MUTEX_BELT" "sessions_inv (shm w)" using sys w by (simp_all add: objects_ok_def)
  show ?thesis
  proof (cases "session_of (login_key name) s = None \<and> has_free_slot s")
    case True
    then have free: "session_of (login_key name) (shm w) = None" "has_free_slot (shm w)" using w(2) by simp_all
    obtain k s' where k: "login name r org mp pid (-1) w = Done (True, k) (w\<lparr>shm := s'\<rparr>)"
      "s' = (shm w)\<lparr>users := users s'\<rparr>" "guard_ends k s' w"
      using guard_bracket [OF w(5,6) g free mp, of r org pid] by (elim exE conjE)
    have "shm (w\<lparr>shm := s'\<rparr>) = s\<lparr>users := users (shm (w\<lparr>shm := s'\<rparr>))\<rparr>" using k(2) w(2) by simp
    then obtain a t where t: "body k (w\<lparr>shm := s'\<rparr>) = Some (Done a (w\<lparr>shm := s', clock_ms := t\<rparr>))"
      using body w(3,5,6) unfolding transparent_def
      by (elim allE [of _ k] allE [of _ "w\<lparr>shm := s'\<rparr>"]) auto
    obtain s3 where s3: "logout k (w\<lparr>shm := s', clock_ms := t\<rparr>) = Done (-1) (w\<lparr>shm := s', clock_ms := t, shm := s3\<rparr>)"
      "s3 = s'\<lparr>users := users s3\<rparr>" "\<forall>n. session_of n s3 = session_of n (shm w)"
      using k(3) [unfolded guard_ends_def, rule_format, of "w\<lparr>shm := s', clock_ms := t\<rparr>"] w(5,6) by auto
    have "s3 = s\<lparr>users := users s3\<rparr>" by (subst s3(2), subst k(2)) (simp add: w(2))
    moreover have "objects_of (w\<lparr>shm := s', clock_ms := t, shm := s3\<rparr>) = sys\<lparr>ipc_shm := Some s3\<rparr>"
      using w(7) by (auto simp: objects_of_def)
    ultimately show ?thesis
      using True w(1,2) k(1) t s3(1,3) sys
      by (simp add: named_outcome_def with_manager_def session_guard_def Manager_delete_def same_lookup_def objects_ok_def)
  next
    case False
    then have "session_guard name r org mp pid body w = Some (Done EXIT_FAILURE w)"
      by (intro guard_refused [OF w(5,6) g]) (simp add: w(2))
    then show ?thesis using False w(1,7) by (simp add: named_outcome_def with_manager_def Manager_delete_def)
  qed
qed

section \<open>Processes of a stopped system\<close>

text \<open>Every loop tests \<open>running\<close> before it does anything.\<close>

lemma stopped_shm: "shm w = s\<lparr>users := us\<rparr> \<Longrightarrow> \<not> running s \<Longrightarrow> \<not> running (shm w)"
  by simp

lemma same_clock: "w = w\<lparr>clock_ms := clock_ms w\<rparr>"
  by simp

lemma transparentI:
  assumes "\<And>c w. sems w = v \<Longrightarrow> attached w \<Longrightarrow> kernel w = [] \<Longrightarrow> shm w = s\<lparr>users := users (shm w)\<rparr> \<Longrightarrow>
      \<exists>a. body c w = Some (Done a w)"
  shows "transparent body s v"
  unfolding transparent_def using assms same_clock by metis

lemma transparent_dispatcher: "\<not> running s \<Longrightarrow> transparent (\<lambda>_. dispatcher_run rounds) s v"
  by (intro transparentI) (auto simp: dispatcher_run.simps dest: stopped_shm)

lemma transparent_express: "\<not> running s \<Longrightarrow> transparent (\<lambda>_. express_main_loop pid ((id, sg, ds) # ins) False) s v"
  by (intro transparentI) (auto dest: stopped_shm)

lemma transparent_monitor: "\<not> running s \<Longrightarrow> transparent (\<lambda>_. belt_monitor 0 0 [] ((id, sg) # ins) False) s v"
  by (intro transparentI) (auto dest: stopped_shm)

lemma transparent_terminal: "\<not> running s \<Longrightarrow> transparent (\<lambda>idx. terminal_loop idx ((id, sg, input) # ins) t) s v"
  by (intro transparentI) (auto simp: Let_def dest: stopped_shm)

lemma transparent_truck:
  assumes "\<not> running s" "0 < v SEM_DOCK_MUTEX" "\<not> (is_present (dock_truck s) \<and> truck_id (dock_truck s) = pid)"
  shows "transparent (\<lambda>_. truck_body pid [(id, r), (id, r')]) s v"
proof (rule transparentI)
  fix c :: int and w :: world
  assume w: "sems w = v" "attached w" "kernel w = []" "shm w = s\<lparr>users := users (shm w)\<rparr>"
  have df: "dock_free w" "\<not> running (shm w)" using w assms(1,2) stopped_shm by (auto simp: dock_free_def)
  have "dock_truck (shm w) = dock_truck s" by (subst w(4)) simp
  then have "truck_step pid r' Leaving w = Done Ended w" using step_leaving [OF df(1), of pid r'] assms(3) by simp
  then show "\<exists>a. truck_body pid [(id, r), (id, r')] w = Some (Done a w)"
    using step_arriving [OF df(1), of pid r] df(2) by (simp add: truck_body_def)
qed

lemma transparent_worker:
  assumes "\<not> running s" "belt_inv s" "0 < v SEM_MUTEX_BELT"
  shows "transparent (\<lambda>c. worker_run c pid ((id, sg, d) # ins)) s v"
proof (rule transparentI)
  fix c :: int and w :: world
  assume w: "sems w = v" "attached w" "kernel w = []" "shm w = s\<lparr>users := users (shm w)\<rparr>"
  have "belt_inv (s\<lparr>users := users (shm w)\<rparr>)" using assms(2) by (simp add: belt_inv_def)
  then have f: "belt_inv (shm w)" "\<not> running (shm w)" using w(4) assms(1) stopped_shm by metis+
  have m: "0 < sems w SEM_MUTEX_BELT" using w(1) assms(3) by simp
  define n where "n = current_workers_count (shm w)"
  show "\<exists>a. worker_run c pid ((id, sg, d) # ins) w = Some (Done a w)"
  proof (cases "n < MAX_WORKERS_PER_BELT")
    case True
    define w1 where "w1 = w\<lparr>shm := (shm w)\<lparr>current_workers_count := n + 1\<rparr>\<rparr>"
    have n: "0 \<le> n" "n \<le> MAX_WORKERS_PER_BELT" using f(1) by (simp_all add: belt_inv_def n_def)
    have b1: "belt_inv (shm w1)" using f(1) n True by (simp add: w1_def belt_inv_workers)
    have "registerWorker w = Done True w1"
      using w(2,3) m True registerWorker_body_spec [OF f(1)]
      by (simp add: registerWorker_def belt_mutex.bracket_shm w1_def n_def)
    moreover have "unregisterWorker w1 = Done () w"
      using w(2,3) m n unregisterWorker_body_spec [OF b1]
      by (simp add: unregisterWorker_def belt_mutex.bracket_shm w1_def n_def)
    moreover have "\<not> running (shm w1)" using f(2) by (simp add: w1_def)
    ultimately show ?thesis by (intro exI [of _ True]) (simp add: worker_run_def)
  next
    case False
    then have "registerWorker w = Done False w"
      using w(2,3) m registerWorker_body_spec [OF f(1)] by (simp add: registerWorker_def belt_mutex.bracket_shm n_def)
    then show ?thesis by (intro exI [of _ False]) (simp add: worker_run_def)
  qed
qed

section \<open>Properties\<close>

definition ended :: "string \<Rightarrow> (main_end \<times> logger \<times> ipc_objects) option \<Rightarrow> SharedState \<Rightarrow> ipc_objects \<Rightarrow> bool" where
  "ended name res s sys \<longleftrightarrow> named_outcome name (map_option (\<lambda>(e, lg, sys'). (e, sys')) res) s sys"

lemma ended_logged: "ended name (logged lg res) s sys \<longleftrightarrow> named_outcome name res s sys"
  by (cases res) (simp_all add: ended_def logged_def case_prod_beta)

text \<open>
  C19: a process that is started late.  On a system that has been stopped, each of the six programs runs
  from its command line to its exit by itself: it attaches to the IPC objects, logs in, finds that the
  system does not run, logs out and returns \<open>EXIT_SUCCESS\<close>; afterwards the semaphores, the message queue
  and the shared state are as before, and so is every lookup in the session table.  If its name is in
  use or the table is full it returns \<open>EXIT_FAILURE\<close> and the objects are untouched.
\<close>

theorem late_process_leaves_no_trace:
  assumes "objects_ok sys s v q" "ipc_err os = no_ipc_errors" "\<not> running s" "belt_inv s" "0 < v SEM_DOCK_MUTEX"
    and "\<not> (is_present (dock_truck s) \<and> truck_id (dock_truck s) = os_pid os)"
  shows "ended ''System-Dispatcher'' (dispatcher_program os rounds old sys) s sys
     \<and> ended ''System-Express'' (express_program os ((id, sg, ds) # ins1) old sys) s sys
     \<and> ended ''System-Belt'' (belt_program os ((id, sg) # ins2) old sys) s sys
     \<and> ended ''AdminConsole'' (terminal_program os ((id, sg, input) # ins3) old sys) s sys
     \<and> (\<forall>i. truck_argument os = Some i \<longrightarrow>
          ended (''Truck_'' @ to_string i) (truck_program os [(id, r), (id, r')] old sys) s sys)
     \<and> (\<forall>i. worker_argument os = Inr i \<longrightarrow>
          ended (''Worker_'' @ to_string i) (worker_program os ((id, sg, d) # ins4) old sys) s sys)"
proof -
  have m: "0 < v SEM_MUTEX_BELT" using assms(1) by (simp add: objects_ok_def)
  note g = guarded_program [OF assms(1,2)] and quota = INT32_MAX_def
  have "ended ''System-Dispatcher'' (dispatcher_program os rounds old sys) s sys"
    unfolding dispatcher_program_def ended_logged main_dispatcher_def
    by (intro g transparent_dispatcher assms) (simp_all add: quota)
  moreover have "ended ''System-Express'' (express_program os ((id, sg, ds) # ins1) old sys) s sys"
    unfolding express_program_def ended_logged main_express_def
    by (intro g transparent_express assms) (simp_all add: quota)
  moreover have "ended ''System-Belt'' (belt_program os ((id, sg) # ins2) old sys) s sys"
    unfolding belt_program_def ended_logged main_belt_def
    by (intro g transparent_monitor assms) (simp_all add: quota)
  moreover have "ended ''AdminConsole'' (terminal_program os ((id, sg, input) # ins3) old sys) s sys"
    unfolding terminal_program_def ended_logged main_terminal_def
    by (intro g transparent_terminal assms) (simp_all add: quota)
  moreover have "ended (''Truck_'' @ to_string i) (truck_program os [(id, r), (id, r')] old sys) s sys"
    if "truck_argument os = Some i" for i
    unfolding truck_program_def that option.case ended_logged main_truck_def
    by (intro g transparent_truck assms) (simp_all add: quota)
  moreover have "ended (''Worker_'' @ to_string i) (worker_program os ((id, sg, d) # ins4) old sys) s sys"
    if "worker_argument os = Inr i" for i
    unfolding worker_program_def that sum.case ended_logged main_worker_def
    by (intro g transparent_worker assms m) (simp_all add: quota)
  ultimately show ?thesis by blast
qed

definition shell :: "string list \<Rightarrow> os_input" where
  "shell args = \<lparr>argv = args, os_pid = 4321, environ = (\<lambda>_. None), file_throws = False,
     ipc_err = no_ipc_errors, qbytes = 16384\<rparr>"

definition default_logger :: logger where
  "default_logger = \<lparr>log_name = [], log_sinks = [ConsoleSink], log_lvl = Info\<rparr>"

definition no_objects :: ipc_objects where
  "no_objects = \<lparr>ipc_shm = None, ipc_sem = None, ipc_msg = None\<rparr>"

text \<open>A worker that is started with the argument 7 after the stop.\<close>

theorem late_process_leaves_no_trace_witness:
  "\<exists>lg sys'. worker_program (shell [''worker'', ''7'']) [(id, False, sample_draw)] default_logger
       \<lparr>ipc_shm = Some (zero_SharedState), ipc_sem = Some (init_sems (\<lambda>_. 0)), ipc_msg = Some []\<rparr>
     = Some (Returned EXIT_SUCCESS, lg, sys')"
proof -
  define sys where "sys = \<lparr>ipc_shm = Some (zero_SharedState), ipc_sem = Some (init_sems (\<lambda>_. 0)), ipc_msg = Some []\<rparr>"
  have u: "users zero_SharedState = replicate 210 zero_UserSession" by (simp add: zero_SharedState_def shared_consts)
  have ok: "objects_ok sys zero_SharedState (init_sems (\<lambda>_. 0)) []"
    by (simp add: objects_ok_def sys_def sessions_inv_init init_sems_def)
  have a: "worker_argument (shell [''worker'', ''7'']) = Inr 7"
    by (simp add: worker_argument_def shell_def) code_simp
  have "ended (''Worker_'' @ to_string 7) (worker_program (shell [''worker'', ''7'']) [(id, False, sample_draw)] default_logger sys) zero_SharedState sys"
    using late_process_leaves_no_trace [OF ok, of "shell [''worker'', ''7'']"] a belt_inv_zero
    by (auto simp: shell_def zero_SharedState_def init_sems_def zero_TruckState_def)
  moreover have "has_free_slot zero_SharedState" "session_of n zero_SharedState = None" for n
    unfolding has_free_slot_def session_of_None_iff u by (simp_all add: zero_UserSession_def)
  ultimately show ?thesis by (auto simp: ended_def named_outcome_def sys_def [symmetric])
qed

text \<open>
  C39: errors at the start.  A client that is started without a master exits with \<open>ENOENT\<close>.  A worker
  whose argument is not a number, or not in the range of \<open>int\<close>, ends with \<open>EXIT_FAILURE\<close> before it has
  touched anything; a truck takes an argument that is not a number for the id 0 and registers as
  \<open>Truck_0\<close>, and its behaviour is undefined when the number is out of range.
\<close>

theorem start_errors:
  assumes "ipc_err os = no_ipc_errors" "1 < length (argv os)"
  shows "(ipc_shm sys = None \<longrightarrow> with_manager os body sys = Some (CalledExit ENOENT, sys))
     \<and> (case leading_int (argv os ! 1) of
          None \<Rightarrow> worker_program os ins old sys = Some (Returned EXIT_FAILURE, old, sys)
            \<and> truck_program os rs old sys = logged (setupLogger (environ os) (file_throws os) ''truck-0'' old)
                (with_manager os (session_guard ''Truck_0'' Operator 0 1 (os_pid os) (\<lambda>_. truck_body (os_pid os) rs)) sys)
        | Some i \<Rightarrow> \<not> in_int32 i \<longrightarrow> worker_program os ins old sys = Some (Returned EXIT_FAILURE, old, sys)
            \<and> truck_program os rs old sys = Some (Undefined, old, sys))"
proof -
  have "to_string 0 = ''0''" by code_simp
  moreover have "with_manager os body sys = Some (CalledExit ENOENT, sys)" if "ipc_shm sys = None"
    using that assms(1) by (simp add: with_manager_def Manager_new_def get_object_def no_ipc_errors_def)
  ultimately show ?thesis using assms(2)
    by (auto simp: worker_program_def worker_argument_def truck_program_def truck_argument_def atoi_def stoi_def
        main_truck_def split: option.split)
qed

theorem start_errors_witness:
  "worker_program (shell [''worker'', ''seven'']) [] default_logger no_objects = Some (Returned EXIT_FAILURE, default_logger, no_objects)
   \<and> truck_program (shell [''truck'', ''9999999999'']) [] default_logger no_objects = Some (Undefined, default_logger, no_objects)"
proof -
  have l: "leading_int ''seven'' = None" "leading_int ''9999999999'' = Some 9999999999" by code_simp+
  have "worker_program (shell [''worker'', ''seven'']) [] default_logger no_objects = Some (Returned EXIT_FAILURE, default_logger, no_objects)"
    using start_errors [of "shell [''worker'', ''seven'']"] l by (simp add: shell_def)
  moreover have "truck_program (shell [''truck'', ''9999999999'']) [] default_logger no_objects = Some (Undefined, default_logger, no_objects)"
    using start_errors [of "shell [''truck'', ''9999999999'']"] l by (simp add: shell_def in_int32_iff)
  ultimately show ?thesis by simp
qed

text \<open>
  The command lines of the children.  What \<open>main\<close> builds with \<open>std::to_string\<close> is read back by \<open>std::atoi\<close> in
  the truck and by \<open>std::stoi\<close> in the worker.
\<close>

lemma numbered_roles:
  assumes "in_int32 i"
  shows "program_role (''./build/truck'', child_args ''truck'' (to_string i)) = Some (TruckR i)"
    "program_role (''./build/worker'', child_args ''worker'' (to_string i)) = Some (WorkerR i)"
proof -
  have "to_string i \<noteq> []" by (simp add: to_string_def digits_nonempty)
  then show "program_role (''./build/truck'', child_args ''truck'' (to_string i)) = Some (TruckR i)"
    "program_role (''./build/worker'', child_args ''worker'' (to_string i)) = Some (WorkerR i)"
    using assms by (simp_all add: program_role_def child_args_def truck_argument_def worker_argument_def
        atoi_def stoi_def leading_int_to_string)
qed

definition child_role :: "string \<times> string \<times> string \<times> int \<Rightarrow> bool \<Rightarrow> role_kind option" where
  "child_role c exec_fails = (case c of (binary_path, proc_name, arg, pause) \<Rightarrow>
     role_of (spawnChild binary_path proc_name arg exec_fails 0 []))"

lemma deployment_roles:
  "map (\<lambda>c. child_role c False) deployment
     = map Some [DispatcherR, ExpressR, MonitorR, TruckR 1, TruckR 2, WorkerR 1, WorkerR 2, WorkerR 3]"
  "child_role c True = None"
proof -
  have "in_int32 1" "in_int32 2" "in_int32 3" by (simp_all add: in_int32_iff)
  note n = this [THEN numbered_roles(1)] this [THEN numbered_roles(2)]
  have l: "[1..2] = [1, 2::int]" "[1..3] = [1, 2, 3::int]" by (simp_all add: upto.simps)
  show "map (\<lambda>c. child_role c False) deployment
     = map Some [DispatcherR, ExpressR, MonitorR, TruckR 1, TruckR 2, WorkerR 1, WorkerR 2, WorkerR 3]"
    unfolding deployment_def l using n by (simp add: child_role_def spawnChild_def) (simp add: program_role_def)
qed (simp add: child_role_def spawnChild_def split: prod.split)

text \<open>The calls of \<open>spawnChild\<close> up to the first \<open>fork\<close> that fails.\<close>

lemma fork_child_ok:
  assumes "0 < fst x"
  shows "\<exists>fam'. fork_child c x fam = Inr fam' \<and> children_pids fam' = children_pids fam @ [fst x] \<and> sent fam' = sent fam
     \<and> map (\<lambda>(p, y). (p, role_of y)) (born fam') = map (\<lambda>(p, y). (p, role_of y)) (born fam) @ [(fst x, child_role c (snd x))]"
  using assms by (cases c; cases x) (simp add: fork_child_def spawnChild_def child_role_def)

lemma spawn_all_prefix:
  assumes "length cs \<le> length xs" "\<forall>x \<in> set (take (length cs) xs). fst x \<noteq> 0"
  shows "\<exists>n \<le> length cs. (\<forall>x \<in> set (take n xs). 0 < fst x) \<and> (\<exists>fam'. children_pids fam' = children_pids fam @ map fst (take n xs)
       \<and> sent fam' = sent fam
       \<and> map (\<lambda>(p, y). (p, role_of y)) (born fam') = map (\<lambda>(p, y). (p, role_of y)) (born fam)
           @ map2 (\<lambda>c x. (fst x, child_role c (snd x))) (take n cs) (take n xs)
       \<and> (if n = length cs then \<exists>w'. spawn_all cs xs fam w = Inr (fam', w')
          else fst (xs ! n) < 0 \<and> spawn_all cs xs fam w = Inl (1, fam')))"
  using assms
proof (induction cs xs fam w rule: spawn_all.induct)
  case (3 c cs x xs fam w)
  show ?case
  proof (cases "0 < fst x")
    case True
    obtain f1 where f1: "fork_child c x fam = Inr f1" "children_pids f1 = children_pids fam @ [fst x]" "sent f1 = sent fam"
      "map (\<lambda>(p, y). (p, role_of y)) (born f1) = map (\<lambda>(p, y). (p, role_of y)) (born fam) @ [(fst x, child_role c (snd x))]"
      using fork_child_ok [OF True] by blast
    obtain n f2 where n: "n \<le> length cs" "\<forall>x \<in> set (take n xs). 0 < fst x"
      and f2: "children_pids f2 = children_pids f1 @ map fst (take n xs)" "sent f2 = sent f1"
      "map (\<lambda>(p, y). (p, role_of y)) (born f2) = map (\<lambda>(p, y). (p, role_of y)) (born f1)
         @ map2 (\<lambda>c x. (fst x, child_role c (snd x))) (take n cs) (take n xs)"
      "if n = length cs then \<exists>w'. spawn_all cs xs f1 (sleep_ms (snd (snd (snd c))) w) = Inr (f2, w')
        else fst (xs ! n) < 0 \<and> spawn_all cs xs f1 (sleep_ms (snd (snd (snd c))) w) = Inl (1, f2)"
      using "3.IH" [OF f1(1)] "3.prems" by auto
    show ?thesis
      by (rule exI [of _ "Suc n"], intro conjI exI [of _ f2]) (use n f1 f2 True in simp_all)
  next
    case False
    then have "fst x < 0" using "3.prems" by auto
    then have "fork_child c x fam = Inl 1" by (cases c; cases x) (simp add: fork_child_def spawnChild_def)
    then show ?thesis using \<open>fst x < 0\<close> by (intro exI [of _ 0] conjI exI [of _ fam]) simp_all
  qed
qed auto

lemma kill_all: "sent (fold (\<lambda>pid. kill_child pid s) ps fam) = sent fam @ map (\<lambda>pid. (pid, s)) ps"
  "born (fold (\<lambda>pid. kill_child pid s) ps fam) = born fam"
  by (induction ps arbitrary: fam) (simp_all add: kill_child_def)

lemma master_loop_stops:
  "\<exists>w'. master_loop (map (\<lambda>e. (e, False)) es @ (e, True) # rest) False w = Some w'"
  by (induction es arbitrary: w) (auto simp: Let_def)

definition created :: "ipc_objects \<Rightarrow> ipc_objects" where
  "created sys = \<lparr>ipc_shm = Some (zero_SharedState\<lparr>running := True\<rparr>),
     ipc_sem = Some (\<lambda>k. case k of SEM_MUTEX_BELT \<Rightarrow> 1 | SEM_EMPTY_SLOTS \<Rightarrow> 10 | SEM_FULL_SLOTS \<Rightarrow> 0 | SEM_DOCK_MUTEX \<Rightarrow> 1),
     ipc_msg = Some (case ipc_msg sys of None \<Rightarrow> [] | Some q \<Rightarrow> q)\<rparr>"

lemma Manager_new_owner:
  assumes "ipc_err os = no_ipc_errors"
  shows "\<exists>w. Manager_new True (ipc_err os) (qbytes os) sys = Inr (created sys, w)"
proof -
  have "init_sems v = (\<lambda>k. case k of SEM_MUTEX_BELT \<Rightarrow> 1 | SEM_EMPTY_SLOTS \<Rightarrow> 10 | SEM_FULL_SLOTS \<Rightarrow> 0 | SEM_DOCK_MUTEX \<Rightarrow> 1)" for v
    by (rule ext) (simp add: init_sems_def shared_consts split: SemIndex.split)
  moreover have "init_shm v = zero_SharedState\<lparr>running := True\<rparr>" for v
    by (simp add: init_shm_def zero_SharedState_def)
  ultimately show ?thesis using assms
    by (cases "ipc_sem sys"; cases "ipc_msg sys") (simp_all add: Manager_new_def get_object_def no_ipc_errors_def Let_def created_def)
qed

lemma started_roles:
  assumes "length forks = 8"
  shows "map2 (\<lambda>c x. (fst x, child_role c (snd x))) deployment forks = map2 (\<lambda>(p, fails) r. (p, if fails then None else Some r)) forks
     [DispatcherR, ExpressR, MonitorR, TruckR 1, TruckR 2, WorkerR 1, WorkerR 2, WorkerR 3]" (is "_ = map2 _ forks ?roles")
proof (rule nth_equalityI)
  have len: "length deployment = 8" using arg_cong [OF deployment_roles(1), of length] by simp
  show "length (map2 (\<lambda>c x. (fst x, child_role c (snd x))) deployment forks) =
      length (map2 (\<lambda>(p, fails) r. (p, if fails then None else Some r)) forks ?roles)" using assms len by simp
  fix i
  assume "i < length (map2 (\<lambda>c x. (fst x, child_role c (snd x))) deployment forks)"
  then have i: "i < 8" using assms len by simp
  have "child_role (deployment ! i) False = Some (?roles ! i)"
    using arg_cong [OF deployment_roles(1), of "\<lambda>xs. xs ! i"] i len by (simp del: list.map)
  then show "map2 (\<lambda>c x. (fst x, child_role c (snd x))) deployment forks ! i =
      map2 (\<lambda>(p, fails) r. (p, if fails then None else Some r)) forks ?roles ! i"
    using i assms len deployment_roles(2) by (cases "forks ! i") (simp split del: if_split, simp)
qed

lemma length_deployment: "length deployment = 8"
proof -
  have "[1..2] = [1, 2::int]" "[1..3] = [1, 2, 3::int]" by (simp_all add: upto.simps)
  then show ?thesis by (simp add: deployment_def)
qed

text \<open>
  C15: the life of the master.  It prepares the log directory, creates the IPC objects and starts eight
  children; \<open>fork\<close> and \<open>execv\<close> make them, in this order, the dispatcher, the express worker, the monitor,
  trucks 1 and 2 and workers 1 to 3 (a child whose \<open>execv\<close> fails plays no role).  It ends as soon as its
  signal handler ran: then exactly these children have been sent \<open>SIGTERM\<close>, the directory exists without
  the report of an earlier run, and no IPC object is left.  When a \<open>fork\<close> fails, the master exits at that
  point; the children before it have been started and get no signal, and the IPC objects stay, freshly
  initialised but with the messages of an earlier run.
\<close>

theorem master_lifecycle:
  assumes "ipc_err os = no_ipc_errors" "length forks = 8" "\<forall>f \<in> set forks. fst f \<noteq> 0" "logs_dir fs \<or> \<not> create_throws"
    and roles: "roles = [DispatcherR, ExpressR, MonitorR, TruckR 1, TruckR 2, WorkerR 1, WorkerR 2, WorkerR 3]"
  shows "if \<forall>f \<in> set forks. 0 < fst f
    then \<exists>lg fam. master_program os create_throws fs forks (map (\<lambda>e. (e, False)) es @ (e, True) # rest) old sys
        = Some (Returned EXIT_SUCCESS, fs\<lparr>logs_dir := True, old_report := False\<rparr>, lg, fam,
            \<lparr>ipc_shm = None, ipc_sem = None, ipc_msg = None\<rparr>)
        \<and> map (\<lambda>(p, x). (p, role_of x)) (born fam) = map2 (\<lambda>(p, fails) r. (p, if fails then None else Some r)) forks roles
        \<and> sent fam = map (\<lambda>f. (fst f, SIGTERM)) forks
    else \<exists>lg fam n. master_program os create_throws fs forks ins old sys
        = Some (ExitOne, fs\<lparr>logs_dir := True, old_report := False\<rparr>, lg, fam,
            \<lparr>ipc_shm = Some (zero_SharedState\<lparr>running := True\<rparr>),
             ipc_sem = Some (\<lambda>k. case k of SEM_MUTEX_BELT \<Rightarrow> 1 | SEM_EMPTY_SLOTS \<Rightarrow> 10 | SEM_FULL_SLOTS \<Rightarrow> 0 | SEM_DOCK_MUTEX \<Rightarrow> 1),
             ipc_msg = Some (case ipc_msg sys of None \<Rightarrow> [] | Some q \<Rightarrow> q)\<rparr>)
        \<and> n < 8 \<and> fst (forks ! n) < 0 \<and> (\<forall>f \<in> set (take n forks). 0 < fst f)
        \<and> map (\<lambda>(p, x). (p, role_of x)) (born fam)
            = take n (map2 (\<lambda>(p, fails) r. (p, if fails then None else Some r)) forks roles)
        \<and> sent fam = []"
proof -
  define fs1 where "fs1 = fs\<lparr>logs_dir := True, old_report := False\<rparr>"
  have p: "prepare_logs create_throws fs = Some fs1" using assms(4) by (auto simp: prepare_logs_def fs1_def)
  obtain w where m: "Manager_new True (ipc_err os) (qbytes os) sys = Inr (created sys, w)"
    using Manager_new_owner [OF assms(1)] by blast
  define started where "started = map2 (\<lambda>c x. (fst x, child_role c (snd x))) deployment forks"
  have started: "started = map2 (\<lambda>(p, fails) r. (p, if fails then None else Some r)) forks roles"
    unfolding started_def roles using started_roles [OF assms(2)] .
  obtain n fam where n: "n \<le> 8" "\<forall>f \<in> set (take n forks). 0 < fst f"
    and fam: "children_pids fam = map fst (take n forks)" "sent fam = []"
      "map (\<lambda>(p, y). (p, role_of y)) (born fam) = take n started"
      "if n = 8 then \<exists>w'. spawn_all deployment forks no_family w = Inr (fam, w')
        else fst (forks ! n) < 0 \<and> spawn_all deployment forks no_family w = Inl (1, fam)"
    using spawn_all_prefix [of deployment forks no_family w] assms(2,3) length_deployment
    by (auto simp: no_family_def started_def take_map take_zip)
  show ?thesis
  proof (cases "\<forall>f \<in> set forks. 0 < fst f")
    case True
    then have "n = 8" using fam(4) n(1) assms(2) by (metis le_neq_implies_less nth_mem order_less_asym)
    then obtain w0 where "spawn_all deployment forks no_family w = Inr (fam, w0)" using fam(4) by auto
    moreover obtain w1 where "master_loop (map (\<lambda>e. (e, False)) es @ (e, True) # rest) False w0 = Some w1"
      using master_loop_stops by blast
    ultimately have "master_main forks (map (\<lambda>e. (e, False)) es @ (e, True) # rest) w = Some (Inr (master_shutdown fam w1))"
      by (simp add: master_main_def)
    moreover have "length started = 8" using assms(2) by (simp add: started_def length_deployment)
    ultimately show ?thesis using True p m fam(1-3) assms(2) \<open>n = 8\<close>
      by (simp add: master_program_def Let_def master_shutdown_def Manager_delete_def kill_all comp_def started [symmetric] fs1_def)
  next
    case False
    then have "n \<noteq> 8" using n(2) assms(2) by auto
    then have "n < 8" "fst (forks ! n) < 0" "master_main forks ins w = Some (Inl (1, fam))"
      using fam(4) n(1) by (simp_all add: master_main_def)
    then show ?thesis unfolding if_not_P [OF False] using p m fam(2,3) n(2)
      by (simp add: master_program_def Let_def started [symmetric] created_def fs1_def) blast
  qed
qed

text \<open>
  A normal run in which the last \<open>execv\<close> fails, and one in which the third \<open>fork\<close> fails while messages of
  an earlier run are in the queue.
\<close>

theorem master_lifecycle_witness:
  "(\<exists>lg fam. master_program (shell [''main'']) False \<lparr>logs_dir = False, old_report = False\<rparr>
        (map (\<lambda>i. (int i, i = 17)) [10..<18]) [(id, False), (id, True)] default_logger no_objects
      = Some (Returned EXIT_SUCCESS, \<lparr>logs_dir = True, old_report = False\<rparr>, lg, fam, no_objects)
      \<and> map (\<lambda>(p, x). (p, role_of x)) (born fam) = [(10, Some DispatcherR), (11, Some ExpressR), (12, Some MonitorR),
          (13, Some (TruckR 1)), (14, Some (TruckR 2)), (15, Some (WorkerR 1)), (16, Some (WorkerR 2)), (17, None)])
   \<and> (\<exists>lg fam s v. master_program (shell [''main'']) False \<lparr>logs_dir = False, old_report = False\<rparr>
        ([(10, False), (11, False), (-1, False)] @ replicate 5 (20, False)) [] default_logger
        (no_objects\<lparr>ipc_msg := Some [\<lparr>mtype = 9, command_id = 1\<rparr>]\<rparr>)
      = Some (ExitOne, \<lparr>logs_dir = True, old_report = False\<rparr>, lg, fam,
          \<lparr>ipc_shm = Some s, ipc_sem = Some v, ipc_msg = Some [\<lparr>mtype = 9, command_id = 1\<rparr>]\<rparr>)
      \<and> sent fam = [])"
proof -
  have e: "ipc_err (shell [''main'']) = no_ipc_errors" by (simp add: shell_def)
  define f1 where "f1 = map (\<lambda>i. (int i, i = 17)) [10..<18]"
  define f2 where "f2 = [(10, False), (11, False), (-1, False)] @ replicate 5 (20 :: int, False)"
  have l: "[10..<18] = [10, 11, 12, 13, 14, 15, 16, 17::nat]" by (simp add: upt_rec)
  have f1: "length f1 = 8" "\<forall>f \<in> set f1. fst f \<noteq> 0" "\<forall>f \<in> set f1. 0 < fst f" by (auto simp: f1_def)
  have f2: "length f2 = 8" "\<forall>f \<in> set f2. fst f \<noteq> 0" "\<not> (\<forall>f \<in> set f2. 0 < fst f)" by (auto simp: f2_def)
  note one = master_lifecycle [OF e f1(1,2) _ refl, of "\<lparr>logs_dir = False, old_report = False\<rparr>" False "[id]" id "[]" default_logger no_objects]
  note two = master_lifecycle [OF e f2(1,2) _ refl, of "\<lparr>logs_dir = False, old_report = False\<rparr>" False _ _ _ default_logger
      "no_objects\<lparr>ipc_msg := Some [\<lparr>mtype = 9, command_id = 1\<rparr>]\<rparr>" "[]"]
  show ?thesis
    unfolding f1_def [symmetric] f2_def [symmetric]
  proof (rule conjI, goal_cases)
    case 1
    show ?case using one f1(3) by (auto simp: no_objects_def) (auto simp: f1_def l)
  next
    case 2
    show ?case using two f2(3) by (auto simp: no_objects_def)
  qed
qed

end
