(* ===== verification/Warehouse_Run.thy ===== *)
theory Warehouse_Run
  imports Warehouse
begin

text \<open>
  Executing the whole system.

  \<open>act\<close> performs the next step of one process as a function, so that a schedule, a list of process
  numbers with the inputs of each step, can be run; \<open>None\<close> means that the process is blocked or has
  ended.  Every run is an execution of the system.  The last section runs the deployment from the start
  until the first package is on a truck.
\<close>

record inputs =
  in_draw :: worker_draw
  in_rolls :: rolls
  in_batch :: "draw list"
  in_stop :: bool
  in_cmd :: CliCommand

definition legal_inputs :: "inputs \<Rightarrow> bool" where
  "legal_inputs x \<longleftrightarrow> legal_draw (in_draw x) \<and> legal_rolls (in_rolls x) \<and> legal_draws (in_batch x)"

definition when_done :: "'a outcome \<Rightarrow> ('a \<Rightarrow> world \<Rightarrow> warehouse) \<Rightarrow> warehouse option" where
  "when_done m f = (case m of Done a w \<Rightarrow> Some (f a w) | _ \<Rightarrow> None)"

text \<open>The console and the processes that wait for a signal.\<close>

definition act_message :: "nat \<Rightarrow> inputs \<Rightarrow> process \<Rightarrow> warehouse \<Rightarrow> warehouse option" where
  "act_message i x p st = (case pr_stage p of
     ConsoleRead \<Rightarrow> (case getCurrentRole (pr_sess p) (ww st) of None \<Rightarrow> None | Some r \<Rightarrow>
       if in_cmd x = Stop then
         (if UserRole_hasFlag r SysAdmin
          then Some (set_proc i (p\<lparr>pr_stage := Halting 0\<rparr>) ((ww st)\<lparr>shm := (shm (ww st))\<lparr>running := False\<rparr>\<rparr>) st)
          else None)
       else when_done (run_command (pr_sess p) (in_cmd x) r True (ww st))
         (\<lambda>(out, go) w'. set_proc i (p\<lparr>pr_stage := (if go then ConsoleTest else Logout)\<rparr>) w' st))
   | Halting n \<Rightarrow>
       if n = length (users (shm (ww st))) then Some (set_proc i (p\<lparr>pr_stage := Logout\<rparr>) (ww st) st)
       else if n < length (users (shm (ww st))) then
         (let u = users (shm (ww st)) ! n in
          when_done (if active u then sendSignal (session_pid u) SIGNAL_END_WORK (ww st) else Done () (ww st))
            (\<lambda>_ w'. set_proc i (p\<lparr>pr_stage := Halting (Suc n)\<rparr>) w' st))
       else None
   | _ \<Rightarrow> (case receiveSignalBlocking (pr_pid p) (ww st) of
       Done sig w' \<Rightarrow> map_option (\<lambda>y. set_proc i (p\<lparr>pr_stage := y\<rparr>) w' st)
                        (after_signal sig (running (shm w')) (pr_stage p))
     | _ \<Rightarrow> None))"

definition act_here :: "nat \<Rightarrow> inputs \<Rightarrow> process \<Rightarrow> warehouse \<Rightarrow> warehouse option" where
  "act_here i x p st = (case next_call (in_draw x) p of
     Some c \<Rightarrow> Some (set_proc i (p\<lparr>pr_mode := (if first_sem c = None then AtLock c else AtSem c)\<rparr>) (ww st) st)
   | None \<Rightarrow> (case local_test (in_stop x) (running (shm (ww st))) (pr_stage p) of
     Some y \<Rightarrow> Some ((set_proc i (p\<lparr>pr_stage := y\<rparr>) (ww st) st)\<lparr>w_dropped := w_dropped st @ drop_log (pr_stage p)\<rparr>)
   | None \<Rightarrow> (case next_dock (in_rolls x) (in_batch x) (running (shm (ww st))) p of
     Some c \<Rightarrow> Some (set_proc i (p\<lparr>pr_mode := AtDock c\<rparr>) (ww st) st)
   | None \<Rightarrow> act_message i x p st)))"

definition act :: "nat \<Rightarrow> inputs \<Rightarrow> warehouse \<Rightarrow> warehouse option" where
  "act i x st = (if \<not> i < length (w_ps st) then None else let p = w_ps st ! i in case pr_mode p of
     Here \<Rightarrow> act_here i x p st
   | AtSem c \<Rightarrow> (case first_sem c of None \<Rightarrow> None | Some k \<Rightarrow>
       when_done (semOperation k (-1) (ww st)) (\<lambda>_ w'. set_proc i (p\<lparr>pr_mode := AtLock c\<rparr>) w' st))
   | AtLock c \<Rightarrow> when_done (lockBelt (ww st)) (\<lambda>_ w'. set_proc i (p\<lparr>pr_mode := InBelt c\<rparr>) w' st)
   | InBelt c \<Rightarrow> (case call_body c (shm (ww st)) of None \<Rightarrow> None | Some (a, s') \<Rightarrow>
       Some ((set_proc i (p\<lparr>pr_mode := BeltUnlock c a\<rparr>) ((ww st)\<lparr>shm := s'\<rparr>) st)
         \<lparr>w_acc := w_acc st @ pushed c a, w_got := w_got st @ popped c a\<rparr>))
   | BeltUnlock c a \<Rightarrow> when_done (unlockBelt (ww st)) (\<lambda>_ w'. set_proc i (leave_call c a p) w' st)
   | BeltPost c a \<Rightarrow> (case last_sem c a of None \<Rightarrow> None | Some k \<Rightarrow>
       when_done (semOperation k 1 (ww st)) (\<lambda>_ w'. set_proc i (after_call a p) w' st))
   | AtDock c \<Rightarrow> when_done (lockDock (ww st)) (\<lambda>_ w'. set_proc i (p\<lparr>pr_mode := InDock c\<rparr>) w' st)
   | InDock c \<Rightarrow> when_done (dock_section (pr_pid p) c (ww st)) (\<lambda>b w'.
       (set_proc i (p\<lparr>pr_mode := DockUnlock c b\<rparr>) w' st)\<lparr>w_loaded := w_loaded st @ load_log (ww st) c b\<rparr>)
   | DockUnlock c b \<Rightarrow> when_done (unlockDock (ww st)) (\<lambda>_ w'.
       set_proc i (p\<lparr>pr_stage := after_dock b (pr_stage p), pr_mode := Here\<rparr>) w' st))"

fun run_schedule :: "(nat \<times> inputs) list \<Rightarrow> warehouse \<Rightarrow> warehouse option" where
  "run_schedule [] st = Some st"
| "run_schedule ((i, x) # rest) st = (case act i x st of None \<Rightarrow> None | Some st' \<Rightarrow> run_schedule rest st')"

section \<open>Every run is an execution\<close>

lemma when_done_Some: "when_done m f = Some y \<longleftrightarrow> (\<exists>a w. m = Done a w \<and> y = f a w)"
  by (cases m) (auto simp: when_done_def)

lemma act_message_sound:
  assumes "act_message i x p st = Some st'" "i < length (w_ps st)" "p = w_ps st ! i" "pr_mode p = Here"
  shows "wh_step st st'"
proof -
  have recv: "wh_step st st'"
    if "(case receiveSignalBlocking (pr_pid p) (ww st) of
       Done sig w' \<Rightarrow> map_option (\<lambda>y. set_proc i (p\<lparr>pr_stage := y\<rparr>) w' st)
                        (after_signal sig (running (shm w')) (pr_stage p)) | _ \<Rightarrow> None) = Some st'"
    using that assms(2-4) by (auto split: outcome.splits intro: wh_step.receive)
  show ?thesis
  proof (cases "pr_stage p")
    case ConsoleRead
    then obtain r where r: "getCurrentRole (pr_sess p) (ww st) = Some r"
      using assms(1) by (auto simp: act_message_def split: option.splits)
    show ?thesis
    proof (cases "in_cmd x = Stop")
      case True
      then show ?thesis using assms ConsoleRead r
        by (auto simp: act_message_def split: if_splits intro: wh_step.halt)
    next
      case False
      then obtain out go w' where "run_command (pr_sess p) (in_cmd x) r True (ww st) = Done (out, go) w'"
        "st' = set_proc i (p\<lparr>pr_stage := (if go then ConsoleTest else Logout)\<rparr>) w' st"
        using assms(1) ConsoleRead r by (auto simp: act_message_def when_done_Some)
      then show ?thesis using wh_step.command [OF assms(2-4) ConsoleRead False r] by simp
    qed
  next
    case (Halting n)
    then show ?thesis using assms
      by (auto simp: act_message_def when_done_Some Let_def split: if_splits intro: wh_step.halted wh_step.notify)
  qed (use assms(1) recv in \<open>simp_all add: act_message_def\<close>)
qed

lemma act_sound:
  assumes "act i x st = Some st'" "legal_inputs x"
  shows "wh_step st st'"
proof -
  have i: "i < length (w_ps st)" using assms(1) by (simp add: act_def split: if_splits)
  define p where "p = w_ps st ! i"
  note l = assms(2) [unfolded legal_inputs_def] and a = assms(1) [unfolded act_def Let_def p_def [symmetric]]
  show ?thesis
  proof (cases "pr_mode p")
    case Here
    then have h: "act_here i x p st = Some st'" using a i by simp
    show ?thesis
    proof (cases "next_call (in_draw x) p")
      case (Some c)
      then show ?thesis using h Here i l p_def by (auto simp: act_here_def intro!: wh_step.call)
    next
      case nc: None
      show ?thesis
      proof (cases "local_test (in_stop x) (running (shm (ww st))) (pr_stage p)")
        case (Some y)
        then show ?thesis using h Here i l p_def nc by (auto simp: act_here_def intro!: wh_step.test)
      next
        case nt: None
        show ?thesis
        proof (cases "next_dock (in_rolls x) (in_batch x) (running (shm (ww st))) p")
          case (Some c)
          then show ?thesis using h Here i l p_def nc nt by (auto simp: act_here_def intro!: wh_step.dock)
        next
          case None
          then show ?thesis using h nc nt act_message_sound [OF _ i p_def Here] by (simp add: act_here_def)
        qed
      qed
    qed
  qed (use a i in \<open>auto simp: p_def when_done_Some split: option.splits
        intro: wh_step.wait wh_step.lock wh_step.body wh_step.unlock wh_step.post wh_step.dlock wh_step.dbody wh_step.dunlock\<close>)
qed

lemma run_schedule_reachable:
  assumes "run_schedule sch st = Some st'" "wh_reachable st" "\<forall>y \<in> set sch. legal_inputs (snd y)"
  shows "wh_reachable st'"
  using assms
proof (induction sch st rule: run_schedule.induct)
  case (1 st)
  then show ?case by simp
next
  case (2 i x rest st)
  then obtain st1 where st1: "act i x st = Some st1" "run_schedule rest st1 = Some st'" by (auto split: option.splits)
  then have "wh_reachable st1" using reachable.further [OF 2(3) act_sound [OF st1(1)]] 2(4) by simp
  then show ?case using 2(1) [OF st1] 2(4) by simp
qed


section \<open>A process that is not interrupted\<close>

text \<open>
  The steps of a method, executed one after the other without steps of other processes in between,
  are the method of the sequential theories.
\<close>

definition run_method :: "mcall \<Rightarrow> world \<Rightarrow> reply outcome" where
  "run_method c w =
     obind (case first_sem c of None \<Rightarrow> Done () w | Some k \<Rightarrow> semOperation k (-1) w) (\<lambda>_ w1.
     obind (with_lock lockBelt unlockBelt (on_shm (call_body c)) w1) (\<lambda>a w2.
     obind (case last_sem c a of None \<Rightarrow> Done () w2 | Some k \<Rightarrow> semOperation k 1 w2) (\<lambda>_ w3. Done a w3)))"

lemma run_method_Done:
  assumes "run_method c w = Done a w'"
  obtains w1 w2 s' w3 where
    "(case first_sem c of None \<Rightarrow> Done () w | Some k \<Rightarrow> semOperation k (-1) w) = Done () w1"
    "lockBelt w1 = Done () w2" "call_body c (shm w2) = Some (a, s')" "unlockBelt (w2\<lparr>shm := s'\<rparr>) = Done () w3"
    "(case last_sem c a of None \<Rightarrow> Done () w3 | Some k \<Rightarrow> semOperation k 1 w3) = Done () w'"
  using assms by (auto simp: run_method_def with_lock_def obind_eq_Done_iff on_shm_def split: option.splits)

lemma set_proc_again [simp]:
  "i < length (w_ps st) \<Longrightarrow> w_ps (set_proc i p w st) ! i = p"
  "set_proc i q w' (set_proc i p w st) = set_proc i q w' st"
  "set_proc i q w' ((set_proc i p w st)\<lparr>w_acc := a, w_got := b\<rparr>) = (set_proc i q w' st)\<lparr>w_acc := a, w_got := b\<rparr>"
  "set_proc i q w' ((set_proc i p w st)\<lparr>w_loaded := l\<rparr>) = (set_proc i q w' st)\<lparr>w_loaded := l\<rparr>"
  by (simp_all add: set_proc_def)

lemma after_call_any_mode: "after_call a (p\<lparr>pr_mode := m\<rparr>) = after_call a p"
  by (cases a; cases "pr_stage p") simp_all

lemma solo_method:
  assumes i: "i < length (w_ps st)" "p = w_ps st ! i" "pr_mode p = Here" and d: "legal_draw d" "next_call d p = Some c"
    and run: "run_method c (ww st) = Done a w'"
  shows "wh_step\<^sup>*\<^sup>* st ((set_proc i (after_call a p) w' st)
     \<lparr>w_acc := w_acc st @ pushed c a, w_got := w_got st @ popped c a\<rparr>)"
proof -
  obtain w1 w2 s' w3 where m:
    "(case first_sem c of None \<Rightarrow> Done () (ww st) | Some k \<Rightarrow> semOperation k (-1) (ww st)) = Done () w1"
    "lockBelt w1 = Done () w2" "call_body c (shm w2) = Some (a, s')" "unlockBelt (w2\<lparr>shm := s'\<rparr>) = Done () w3"
    "(case last_sem c a of None \<Rightarrow> Done () w3 | Some k \<Rightarrow> semOperation k 1 w3) = Done () w'"
    using run_method_Done [OF run] .
  define lg where "lg = (\<lambda>t :: warehouse. t\<lparr>w_acc := w_acc st @ pushed c a, w_got := w_got st @ popped c a\<rparr>)"
  have "wh_step\<^sup>*\<^sup>* st (set_proc i (p\<lparr>pr_mode := AtLock c\<rparr>) w1 st)"
  proof (cases "first_sem c")
    case None
    then show ?thesis using wh_step.call [OF i d] m(1) by auto
  next
    case (Some k)
    define t where "t = set_proc i (p\<lparr>pr_mode := AtSem c\<rparr>) (ww st) st"
    have "wh_step st t" using wh_step.call [OF i d] Some by (simp add: t_def)
    moreover have "wh_step t (set_proc i (p\<lparr>pr_mode := AtLock c\<rparr>) w1 st)"
      using wh_step.wait [of i t "p\<lparr>pr_mode := AtSem c\<rparr>" c k w1] i m(1) Some by (simp add: t_def)
    ultimately show ?thesis by (metis converse_rtranclp_into_rtranclp r_into_rtranclp)
  qed
  also have "wh_step (set_proc i (p\<lparr>pr_mode := AtLock c\<rparr>) w1 st) (set_proc i (p\<lparr>pr_mode := InBelt c\<rparr>) w2 st)"
    using wh_step.lock [of i "set_proc i (p\<lparr>pr_mode := AtLock c\<rparr>) w1 st" "p\<lparr>pr_mode := AtLock c\<rparr>" c w2] i m(2) by simp
  also have "wh_step (set_proc i (p\<lparr>pr_mode := InBelt c\<rparr>) w2 st)
      (lg (set_proc i (p\<lparr>pr_mode := BeltUnlock c a\<rparr>) (w2\<lparr>shm := s'\<rparr>) st))"
    using wh_step.body [of i "set_proc i (p\<lparr>pr_mode := InBelt c\<rparr>) w2 st" "p\<lparr>pr_mode := InBelt c\<rparr>" c a s'] i m(3)
    by (simp add: lg_def)
  also have "wh_step (lg (set_proc i (p\<lparr>pr_mode := BeltUnlock c a\<rparr>) (w2\<lparr>shm := s'\<rparr>) st))
      (lg (set_proc i (leave_call c a (p\<lparr>pr_mode := BeltUnlock c a\<rparr>)) w3 st))"
    using wh_step.unlock [of i "lg (set_proc i (p\<lparr>pr_mode := BeltUnlock c a\<rparr>) (w2\<lparr>shm := s'\<rparr>) st)"
        "p\<lparr>pr_mode := BeltUnlock c a\<rparr>" c a w3] i m(4) by (simp add: lg_def)
  also have "wh_step\<^sup>*\<^sup>* (lg (set_proc i (leave_call c a (p\<lparr>pr_mode := BeltUnlock c a\<rparr>)) w3 st))
      (lg (set_proc i (after_call a p) w' st))"
  proof (cases "last_sem c a")
    case None
    then show ?thesis using m(5) by (simp add: leave_call_def after_call_any_mode)
  next
    case (Some k)
    then show ?thesis
      using wh_step.post [of i "lg (set_proc i (p\<lparr>pr_mode := BeltPost c a\<rparr>) w3 st)" "p\<lparr>pr_mode := BeltPost c a\<rparr>" c a k w']
        i m(5) by (simp add: leave_call_def lg_def after_call_any_mode)
  qed
  finally show ?thesis by (simp add: lg_def)
qed


text \<open>The sections only wrap the results of the sequential ones.\<close>

definition wrap :: "('a \<Rightarrow> reply) \<Rightarrow> (SharedState \<Rightarrow> ('a \<times> SharedState) option) \<Rightarrow> SharedState \<Rightarrow> (reply \<times> SharedState) option" where
  "wrap f g s = map_option (\<lambda>(x, s'). (f x, s')) (g s)"

lemma bracket_wrap:
  "with_lock l u (on_shm (wrap f g)) w = obind (with_lock l u (on_shm g) w) (\<lambda>x w'. Done (f x) w')"
proof (cases "l w")
  case (Done x w1)
  have "on_shm (wrap f g) w1 = obind (on_shm g w1) (\<lambda>x w'. Done (f x) w')"
    by (auto simp: on_shm_def wrap_def split: option.split)
  then show ?thesis using Done by (simp add: with_lock_def obind_assoc)
qed (simp_all add: with_lock_def)

lemma call_body_wrap:
  "call_body (LoginC n r org m p) = wrap (\<lambda>(ok, c). Session ok c) (login_body n r org m p (-1))"
  "call_body (LogoutC c) = wrap (\<lambda>_. Flag True) (logout_body c)"
  "call_body RegisterC = wrap Flag registerWorker_body"
  "call_body UnregisterC = wrap (\<lambda>_. Flag True) unregisterWorker_body"
  "call_body (SpawnC c) = wrap Flag (trySpawnProcess_body c)"
  "call_body (ReportC c) = wrap (\<lambda>_. Flag True) (reportProcessFinished_body c)"
  "call_body (PushC q) = wrap (\<lambda>(ok, p'). Item ok p') (push_body q)"
  "call_body PopC = wrap (\<lambda>(ok, p'). Item ok p') pop_body"
  by (auto simp: fun_eq_iff wrap_def intro!: arg_cong2 [where f = map_option])

lemma obind_ext: "(\<And>a w. f a w = g a w) \<Longrightarrow> obind m f = obind m g"
  by (cases m) simp_all

lemma method_equations:
  assumes "attached w"
  shows "run_method (LoginC n r org m q) w = obind (login n r org m q (-1) w) (\<lambda>(ok, c) w'. Done (Session ok c) w')"
    "c \<noteq> -1 \<Longrightarrow> run_method (LogoutC c) w = obind (logout c w) (\<lambda>_ w'. Done (Flag True) w')"
    "run_method RegisterC w = obind (registerWorker w) (\<lambda>ok w'. Done (Flag ok) w')"
    "run_method UnregisterC w = obind (unregisterWorker w) (\<lambda>_ w'. Done (Flag True) w')"
    "c \<noteq> -1 \<Longrightarrow> run_method (SpawnC c) w = obind (trySpawnProcess c w) (\<lambda>ok w'. Done (Flag ok) w')"
    "c \<noteq> -1 \<Longrightarrow> run_method (ReportC c) w = obind (reportProcessFinished c w) (\<lambda>_ w'. Done (Flag True) w')"
  using assms
  by (simp_all add: run_method_def call_body_wrap bracket_wrap login_def logout_def registerWorker_def unregisterWorker_def
      trySpawnProcess_def reportProcessFinished_def obind_assoc)
    (auto intro!: obind_ext split: prod.split)

lemma push_pop_equations:
  assumes "attached w"
  shows "push x w = obind (simulateWorkLoad w) (\<lambda>_ w1. obind (run_method (PushC x) w1)
      (\<lambda>a w2. case a of Item ok q \<Rightarrow> Done q w2 | _ \<Rightarrow> UB))"
    "pop w = obind (run_method PopC w) (\<lambda>a w2. case a of Item ok q \<Rightarrow> Done q w2 | _ \<Rightarrow> UB)"
  using assms
  by (auto simp: push_def pop_def run_method_def call_body_wrap bracket_wrap obind_assoc waitForEmptySlot_def
      waitForPackage_def signalPackageAdded_def signalSlotFreed_def intro!: obind_ext split: prod.split)

text \<open>The same for a section at the dock.\<close>

lemma solo_dock:
  assumes i: "i < length (w_ps st)" "p = w_ps st ! i" "pr_mode p = Here" and l: "legal_rolls r" "legal_draws ds"
    and c: "next_dock r ds (running (shm (ww st))) p = Some c"
    and run: "with_lock lockDock unlockDock (dock_section (pr_pid p) c) (ww st) = Done b w'" "kernel (ww st) = []"
  shows "wh_step\<^sup>*\<^sup>* st ((set_proc i (p\<lparr>pr_stage := after_dock b (pr_stage p), pr_mode := Here\<rparr>) w' st)
     \<lparr>w_loaded := w_loaded st @ load_log (ww st) c b\<rparr>)"
proof -
  obtain w1 w2 where m: "lockDock (ww st) = Done () w1" "dock_section (pr_pid p) c w1 = Done b w2" "unlockDock w2 = Done () w'"
    using run(1) by (auto simp: with_lock_def obind_eq_Done_iff)
  have s: "shm w1 = shm (ww st)" using semOperation_DoneD [OF m(1) [unfolded lockDock_def] run(2)] by simp
  have log: "load_log w1 c b = load_log (ww st) c b" by (cases c) (simp_all add: s)
  define t1 t2 t3 where "t1 = set_proc i (p\<lparr>pr_mode := AtDock c\<rparr>) (ww st) st"
    and "t2 = set_proc i (p\<lparr>pr_mode := InDock c\<rparr>) w1 st"
    and "t3 = (set_proc i (p\<lparr>pr_mode := DockUnlock c b\<rparr>) w2 st)\<lparr>w_loaded := w_loaded st @ load_log (ww st) c b\<rparr>"
  have "wh_step\<^sup>*\<^sup>* st t1" using wh_step.dock [OF i l c] by (auto simp: t1_def)
  also have "wh_step t1 t2"
    using wh_step.dlock [of i t1 "p\<lparr>pr_mode := AtDock c\<rparr>" c w1] i m(1) by (simp add: t1_def t2_def)
  also have "wh_step t2 t3"
    using wh_step.dbody [of i t2 "p\<lparr>pr_mode := InDock c\<rparr>" c b w2] i m(2) by (simp add: t2_def t3_def log)
  also have "wh_step t3 ((set_proc i (p\<lparr>pr_stage := after_dock b (pr_stage p), pr_mode := Here\<rparr>) w' st)
     \<lparr>w_loaded := w_loaded st @ load_log (ww st) c b\<rparr>)"
    using wh_step.dunlock [of i t3 "p\<lparr>pr_mode := DockUnlock c b\<rparr>" c b w'] i m(3) by (simp add: t3_def)
  finally show ?thesis by simp
qed


section \<open>The first package\<close>

text \<open>A dispatcher, a truck and a worker, right after the master has started them.\<close>

definition new_process :: "pid_t \<Rightarrow> role_kind \<Rightarrow> process" where
  "new_process p k = \<lparr>pr_pid = p, pr_kind = k, pr_sess = -1, pr_stage = Login, pr_mode = Here\<rparr>"

definition deployed :: warehouse where
  "deployed = \<lparr>w_ps = [new_process 100 DispatcherR, new_process 200 (TruckR 1), new_process 300 (WorkerR 1)],
     ww = boot_world, w_acc = [], w_got = [], w_loaded = [], w_dropped = []\<rparr>"

lemma deployed_reachable: "wh_reachable deployed"
  by (rule reachable.start) (simp add: wh_init_def deployed_def started_def new_process_def)

text \<open>What all steps of the run keep: nobody is inside a section and the session table is in order.\<close>

definition at_rest :: "world \<Rightarrow> bool" where
  "at_rest w \<longleftrightarrow> belt_quiet w \<and> belt_inv (shm w) \<and> sessions_inv (shm w) \<and> running (shm w)
     \<and> sems w SEM_DOCK_MUTEX = 1 \<and> length (filter active (users (shm w))) \<le> 10"

lemma boot_at_rest: "at_rest boot_world"
proof -
  have "current_items_count (shm boot_world) = 0" "running (shm boot_world)" "filter active (users (shm boot_world)) = []"
    by (simp_all add: init_shm_def zero_SharedState_def zero_UserSession_def)
  then show ?thesis using belt_inv_init [of zero_SharedState] sessions_inv_init(1)
    by (simp add: at_rest_def belt_quiet_def init_sems_def)
qed

text \<open>A login in such a world.\<close>

lemma solo_login:
  assumes i: "i < length (w_ps st)" "p = w_ps st ! i" "pr_mode p = Here" "pr_stage p = Login"
    and w: "at_rest (ww st)" "length (filter active (users (shm (ww st)))) < 10"
      "session_of (login_key (fst (credentials (pr_kind p)))) (shm (ww st)) = None"
  shows "\<exists>k s'. wh_step\<^sup>*\<^sup>* st (set_proc i (p\<lparr>pr_sess := k, pr_stage := first_stage (pr_kind p), pr_mode := Here\<rparr>) ((ww st)\<lparr>shm := s'\<rparr>) st)
     \<and> at_rest ((ww st)\<lparr>shm := s'\<rparr>) \<and> s' = (shm (ww st))\<lparr>users := users s'\<rparr>
     \<and> session_of (login_key (fst (credentials (pr_kind p)))) s' = Some (pr_pid p)
     \<and> (\<forall>m. m \<noteq> login_key (fst (credentials (pr_kind p))) \<longrightarrow> session_of m s' = session_of m (shm (ww st)))
     \<and> length (filter active (users s')) = Suc (length (filter active (users (shm (ww st)))))
     \<and> session_index_ok k s' \<and> k \<noteq> -1
     \<and> slot_of k s' = (case credentials (pr_kind p) of (n, r, org, m) \<Rightarrow> new_session n r org m (pr_pid p))"
proof -
  obtain n r org m where c: "credentials (pr_kind p) = (n, r, org, m)" by (cases "credentials (pr_kind p)")
  have m: "0 \<le> m" "m \<le> INT32_MAX" using c by (cases "pr_kind p"; simp add: INT32_MAX_def)+
  have wr: "attached (ww st)" "kernel (ww st) = []" "0 < sems (ww st) SEM_MUTEX_BELT" "sessions_inv (shm (ww st))"
    using w(1) by (simp_all add: at_rest_def belt_quiet_def)
  have free: "\<exists>u \<in> set (users (shm (ww st))). \<not> active u"
    using has_free_slot_iff [OF wr(4)] w(2) by (simp add: has_free_slot_def)
  obtain k s' where k: "login_body n r org m (pr_pid p) (-1) (shm (ww st)) = Some ((True, k), s')" "sessions_inv s'"
    "session_index_ok k s'" "k \<noteq> -1" "\<not> active (users (shm (ww st)) ! nat k)"
    "users s' = (users (shm (ww st)))[nat k := new_session n r org m (pr_pid p)]" "s' = (shm (ww st))\<lparr>users := users s'\<rparr>"
    "session_of (login_key n) s' = Some (pr_pid p)"
    "\<forall>l. l \<noteq> login_key n \<longrightarrow> session_of l s' = session_of l (shm (ww st))"
    using login_body_success [OF wr(4) w(3) [unfolded c fst_conv login_key_def] free m, of r org "pr_pid p" "-1"]
    by (auto simp: login_key_def)
  have in_range: "nat k < length (users (shm (ww st)))" using session_index_range(3) [OF k(2-4)] k(6) by simp
  have cnt: "length (filter active (users s')) = Suc (length (filter active (users (shm (ww st)))))"
    using active_count_update [OF in_range k(5), of "new_session n r org m (pr_pid p)"] k(6) by (simp add: new_session_def)
  have "login n r org m (pr_pid p) (-1) (ww st) = Done (True, k) ((ww st)\<lparr>shm := s'\<rparr>)"
    using k(1) wr by (simp add: login_def belt_mutex.bracket_shm)
  then have "run_method (LoginC n r org m (pr_pid p)) (ww st) = Done (Session True k) ((ww st)\<lparr>shm := s'\<rparr>)"
    by (simp add: method_equations(1) [OF wr(1)])
  from solo_method [OF i(1-3) sample_draw_legal _ this] have
    "wh_step\<^sup>*\<^sup>* st (set_proc i (p\<lparr>pr_sess := k, pr_stage := first_stage (pr_kind p), pr_mode := Here\<rparr>) ((ww st)\<lparr>shm := s'\<rparr>) st)"
    using i(3,4) c by (simp add: set_proc_def)
  moreover have "at_rest ((ww st)\<lparr>shm := s'\<rparr>)"
    using w(1,2) k(2) cnt by (subst k(7)) (simp add: at_rest_def belt_quiet_def belt_inv_def, subst (asm) k(7), auto)
  moreover have "slot_of k s' = new_session n r org m (pr_pid p)" using k(6) in_range by (simp add: slot_of_def)
  ultimately show ?thesis using k cnt c by (intro exI [of _ k] exI [of _ s']) auto
qed


text \<open>Placing and taking a package.\<close>

lemma run_push:
  assumes "belt_quiet w" "belt_inv (shm w)" "current_items_count (shm w) < MAX_BELT_CAPACITY_K" "0 < id_budget (shm w)"
  shows "\<exists>w'. run_method (PushC x) w = Done (Item True (stamp (shm w) x)) w' \<and> belt_quiet w' \<and> belt_inv (shm w')
     \<and> belt_contents (shm w') = belt_contents (shm w) @ [stamp (shm w) x] \<and> same_elsewhere (shm w) (shm w')
     \<and> sems w' SEM_DOCK_MUTEX = sems w SEM_DOCK_MUTEX \<and> msgq w' = msgq w \<and> msg_qbytes w' = msg_qbytes w"
proof -
  obtain s' where s': "push_body x (shm w) = Some ((True, stamp (shm w) x), s')" "belt_inv s'"
    "belt_contents s' = belt_contents (shm w) @ [stamp (shm w) x]" "same_elsewhere (shm w) s'"
    using push_body_accepts [OF assms(2-4), of x] by blast
  have c: "current_items_count s' = current_items_count (shm w) + 1"
    using belt_count [OF assms(2)] belt_count [OF s'(2)] s'(3) by simp
  define w1 where "w1 = w\<lparr>sems := (sems w)(SEM_EMPTY_SLOTS := sems w SEM_EMPTY_SLOTS - 1)\<rparr>"
  define w' where "w' = w1\<lparr>shm := s', sems := (sems w1)(SEM_FULL_SLOTS := sems w1 SEM_FULL_SLOTS + 1)\<rparr>"
  have q: "kernel w = []" "0 < sems w SEM_MUTEX_BELT" "0 < sems w SEM_EMPTY_SLOTS" "0 \<le> sems w SEM_FULL_SLOTS"
    using assms by (simp_all add: belt_quiet_def belt_inv_def)
  have "run_method (PushC x) w = Done (Item True (stamp (shm w) x)) w'"
    using q s'(1) by (simp add: run_method_def semOperation_ok belt_mutex.bracket_shm w1_def w'_def)
  moreover have "belt_quiet w'" using assms(1) c by (simp add: belt_quiet_def w'_def w1_def)
  ultimately show ?thesis using s' by (intro exI [of _ w']) (simp add: w'_def w1_def)
qed

lemma run_pop:
  assumes "belt_quiet w" "belt_inv (shm w)" "belt_contents (shm w) = q # qs"
  shows "\<exists>w'. run_method PopC w = Done (Item True q) w' \<and> belt_quiet w' \<and> belt_inv (shm w')
     \<and> belt_contents (shm w') = qs \<and> same_elsewhere (shm w) (shm w')
     \<and> sems w' SEM_DOCK_MUTEX = sems w SEM_DOCK_MUTEX \<and> msgq w' = msgq w \<and> msg_qbytes w' = msg_qbytes w"
proof -
  have some: "0 < current_items_count (shm w)" using belt_count [OF assms(2)] assms(3) by simp
  obtain s' where s': "pop_body (shm w) = Some ((True, q), s')" "belt_inv s'"
    "belt_contents s' = qs" "same_elsewhere (shm w) s'"
    using pop_body_takes [OF assms(2) some] assms(3) by auto
  have c: "current_items_count s' = current_items_count (shm w) - 1"
    using belt_count [OF assms(2)] belt_count [OF s'(2)] s'(3) assms(3) by simp
  define w1 where "w1 = w\<lparr>sems := (sems w)(SEM_FULL_SLOTS := sems w SEM_FULL_SLOTS - 1)\<rparr>"
  define w' where "w' = w1\<lparr>shm := s', sems := (sems w1)(SEM_EMPTY_SLOTS := sems w1 SEM_EMPTY_SLOTS + 1)\<rparr>"
  have q: "kernel w = []" "0 < sems w SEM_MUTEX_BELT" "0 \<le> sems w SEM_EMPTY_SLOTS" "0 < sems w SEM_FULL_SLOTS"
    using assms some by (simp_all add: belt_quiet_def belt_inv_def)
  have "run_method PopC w = Done (Item True q) w'"
    using q s'(1) by (simp add: run_method_def semOperation_ok belt_mutex.bracket_shm w1_def w'_def)
  moreover have "belt_quiet w'" using assms(1) c by (simp add: belt_quiet_def w'_def w1_def)
  ultimately show ?thesis using s' by (intro exI [of _ w']) (simp add: w'_def w1_def)
qed

text \<open>All three processes have logged in.\<close>

definition proc_at :: "pid_t \<Rightarrow> role_kind \<Rightarrow> int \<Rightarrow> stage \<Rightarrow> process" where
  "proc_at p k c x = \<lparr>pr_pid = p, pr_kind = k, pr_sess = c, pr_stage = x, pr_mode = Here\<rparr>"

definition plant :: "process list \<Rightarrow> world \<Rightarrow> Package list \<Rightarrow> Package list \<Rightarrow> (pid_t \<times> Package) list \<Rightarrow> warehouse" where
  "plant xs w a g l = \<lparr>w_ps = xs, ww = w, w_acc = a, w_got = g, w_loaded = l, w_dropped = []\<rparr>"

lemma plant_simps [simp]:
  "w_ps (plant xs w a g l) = xs" "ww (plant xs w a g l) = w" "w_acc (plant xs w a g l) = a"
  "w_got (plant xs w a g l) = g" "w_loaded (plant xs w a g l) = l"
  "set_proc i p w' (plant xs w a g l) = plant (xs[i := p]) w' a g l"
  "(plant xs w a g l)\<lparr>w_acc := a', w_got := g'\<rparr> = plant xs w a' g' l"
  "(plant xs w a g l)\<lparr>w_loaded := l'\<rparr> = plant xs w a g l'" "(plant xs w a g l)\<lparr>w_dropped := []\<rparr> = plant xs w a g l"
  "w_dropped (plant xs w a g l) = []"
  by (simp_all add: plant_def set_proc_def)

lemma proc_at_simps [simp]:
  "pr_pid (proc_at p k c x) = p" "pr_kind (proc_at p k c x) = k" "pr_sess (proc_at p k c x) = c"
  "pr_stage (proc_at p k c x) = x" "pr_mode (proc_at p k c x) = Here"
  "(proc_at p k c x)\<lparr>pr_stage := y\<rparr> = proc_at p k c y" "(proc_at p k c x)\<lparr>pr_mode := Here\<rparr> = proc_at p k c x"
  "(proc_at p k c x)\<lparr>pr_stage := y, pr_mode := Here\<rparr> = proc_at p k c y"
  "(proc_at p k c x)\<lparr>pr_sess := d, pr_stage := y, pr_mode := Here\<rparr> = proc_at p k d y"
  by (simp_all add: proc_at_def)

lemma deployed_plant:
  "deployed = plant [proc_at 100 DispatcherR (-1) Login, proc_at 200 (TruckR 1) (-1) Login, proc_at 300 (WorkerR 1) (-1) Login]
     boot_world [] [] []"
  by (simp add: deployed_def plant_def proc_at_def new_process_def)

lemma three_keys:
  "login_key ''System-Dispatcher'' = ''System-Dispatcher''" "login_key (''Truck_'' @ to_string 1) = ''Truck_1''"
  "login_key (''Worker_'' @ to_string 1) = ''Worker_1''"
  by code_simp+

lemma all_logged_in:
  "\<exists>w a b c. wh_reachable (plant [proc_at 100 DispatcherR a PopTest, proc_at 200 (TruckR 1) b (Trucking Arriving),
       proc_at 300 (WorkerR 1) c Register] w [] [] [])
     \<and> at_rest w \<and> shm w = (shm boot_world)\<lparr>users := users (shm w)\<rparr> \<and> w = boot_world\<lparr>shm := shm w\<rparr>
     \<and> session_index_ok c (shm w) \<and> c \<noteq> -1
     \<and> slot_of c (shm w) = new_session (''Worker_'' @ to_string 1) Operator 0 10 300"
proof -
  define xs where "xs = [proc_at 100 DispatcherR (-1) Login, proc_at 200 (TruckR 1) (-1) Login, proc_at 300 (WorkerR 1) (-1) Login]"
  have u0: "filter active (users (shm boot_world)) = []"
    by (simp add: init_shm_def zero_SharedState_def zero_UserSession_def)
  note sl = three_keys boot_at_rest boot_sessions(3) u0
  obtain a s1 where a: "wh_step\<^sup>*\<^sup>* (plant xs boot_world [] [] [])
      (plant [proc_at 100 DispatcherR a PopTest, xs ! 1, xs ! 2] (boot_world\<lparr>shm := s1\<rparr>) [] [] [])"
    "at_rest (boot_world\<lparr>shm := s1\<rparr>)" "s1 = (shm boot_world)\<lparr>users := users s1\<rparr>"
    "\<forall>m. m \<noteq> ''System-Dispatcher'' \<longrightarrow> session_of m s1 = None" "length (filter active (users s1)) = 1"
    using solo_login [of 0 "plant xs boot_world [] [] []" "xs ! 0"] sl by (auto simp: xs_def)
  obtain b s2 where b: "wh_step\<^sup>*\<^sup>* (plant [proc_at 100 DispatcherR a PopTest, xs ! 1, xs ! 2] (boot_world\<lparr>shm := s1\<rparr>) [] [] [])
      (plant [proc_at 100 DispatcherR a PopTest, proc_at 200 (TruckR 1) b (Trucking Arriving), xs ! 2] (boot_world\<lparr>shm := s2\<rparr>) [] [] [])"
    "at_rest (boot_world\<lparr>shm := s2\<rparr>)" "s2 = s1\<lparr>users := users s2\<rparr>"
    "\<forall>m. m \<noteq> ''System-Dispatcher'' \<and> m \<noteq> ''Truck_1'' \<longrightarrow> session_of m s2 = None" "length (filter active (users s2)) = 2"
    using solo_login [of 1 "plant [proc_at 100 DispatcherR a PopTest, xs ! 1, xs ! 2] (boot_world\<lparr>shm := s1\<rparr>) [] [] []" "xs ! 1"]
      sl a(2,4,5) by (auto simp: xs_def)
  obtain c s3 where c: "wh_step\<^sup>*\<^sup>* (plant [proc_at 100 DispatcherR a PopTest, proc_at 200 (TruckR 1) b (Trucking Arriving), xs ! 2]
        (boot_world\<lparr>shm := s2\<rparr>) [] [] [])
      (plant [proc_at 100 DispatcherR a PopTest, proc_at 200 (TruckR 1) b (Trucking Arriving), proc_at 300 (WorkerR 1) c Register]
        (boot_world\<lparr>shm := s3\<rparr>) [] [] [])"
    "at_rest (boot_world\<lparr>shm := s3\<rparr>)" "s3 = s2\<lparr>users := users s3\<rparr>" "session_index_ok c s3" "c \<noteq> -1"
    "slot_of c s3 = new_session (''Worker_'' @ to_string 1) Operator 0 10 300"
    using solo_login [of 2 "plant [proc_at 100 DispatcherR a PopTest, proc_at 200 (TruckR 1) b (Trucking Arriving), xs ! 2]
        (boot_world\<lparr>shm := s2\<rparr>) [] [] []" "xs ! 2"] sl b(2,4,5) by (auto simp: xs_def)
  have "s3 = (shm boot_world)\<lparr>users := users s3\<rparr>"
    by (subst c(3), subst b(3), subst a(3)) simp
  moreover have "wh_reachable (plant [proc_at 100 DispatcherR a PopTest, proc_at 200 (TruckR 1) b (Trucking Arriving),
       proc_at 300 (WorkerR 1) c Register] (boot_world\<lparr>shm := s3\<rparr>) [] [] [])"
    using reachable_steps [OF c(1) reachable_steps [OF b(1) reachable_steps [OF a(1)]]] deployed_reachable
    by (simp add: deployed_plant xs_def)
  ultimately show ?thesis using c by (intro exI [of _ "boot_world\<lparr>shm := s3\<rparr>"] exI [of _ a] exI [of _ b] exI [of _ c]) simp
qed


lemma solo_test:
  assumes "wh_reachable (plant xs w a g l)" "i < length xs" "pr_mode (xs ! i) = Here"
    "local_test False (running (shm w)) (pr_stage (xs ! i)) = Some y" "drop_log (pr_stage (xs ! i)) = []"
  shows "wh_reachable (plant (xs[i := (xs ! i)\<lparr>pr_stage := y\<rparr>]) w a g l)"
  using wh_step.test [of i "plant xs w a g l" "xs ! i" False y] assms by (auto intro: reachable.further)

lemma solo_call:
  assumes "wh_reachable (plant xs w a g l)" "i < length xs" "pr_mode (xs ! i) = Here"
    "next_call sample_draw (xs ! i) = Some c" "run_method c w = Done r w'"
  shows "wh_reachable (plant (xs[i := after_call r (xs ! i)]) w' (a @ pushed c r) (g @ popped c r) l)"
  using solo_method [of i "plant xs w a g l" "xs ! i" sample_draw c r w'] assms sample_draw_legal
  by (auto intro: reachable_steps)

lemma batch_legal: "legal_draws (replicate 3 (Fin 2, 0))"
  by (simp add: legal_draws_def is_double_numeral del: is_double.simps)

lemma solo_section:
  assumes "wh_reachable (plant xs w a g l)" "i < length xs" "pr_mode (xs ! i) = Here"
    "next_dock plain_rolls (replicate 3 (Fin 2, 0)) (running (shm w)) (xs ! i) = Some c"
    "with_lock lockDock unlockDock (dock_section (pr_pid (xs ! i)) c) w = Done b w'" "kernel w = []"
  shows "wh_reachable (plant (xs[i := (xs ! i)\<lparr>pr_stage := after_dock b (pr_stage (xs ! i)), pr_mode := Here\<rparr>]) w' a g
     (l @ load_log w c b))"
  using solo_dock [of i "plant xs w a g l" "xs ! i" plain_rolls "replicate 3 (Fin 2, 0)" c b w'] assms
    plain_rolls_legal batch_legal by (auto intro: reachable_steps)

text \<open>The worker places its first package.\<close>

lemma worker_puts:
  assumes r: "wh_reachable (plant [d, t, proc_at 300 (WorkerR 1) c Register] w [] [] [])"
    and w: "at_rest w" "shm w = (shm boot_world)\<lparr>users := users (shm w)\<rparr>" "w = boot_world\<lparr>shm := shm w\<rparr>"
    and c: "session_index_ok c (shm w)" "c \<noteq> -1" "slot_of c (shm w) = new_session (''Worker_'' @ to_string 1) Operator 0 10 300"
  shows "\<exists>w' q. wh_reachable (plant [d, t, proc_at 300 (WorkerR 1) c Report] w' [q] [] [])
     \<and> belt_quiet w' \<and> belt_inv (shm w') \<and> belt_contents (shm w') = [q] \<and> running (shm w') \<and> pkg_id q = 1 \<and> legal_package q
     \<and> sems w' SEM_DOCK_MUTEX = 1 \<and> msgq w' = [] \<and> msg_qbytes w' = 16384 \<and> \<not> is_present (dock_truck (shm w'))"
proof -
  have s: "current_workers_count (shm w) = 0" "current_items_count (shm w) = 0" "total_packages_created (shm w) = 0"
    "running (shm w)" "\<not> is_present (dock_truck (shm w))"
    by (subst w(2), simp add: init_shm_def zero_SharedState_def zero_TruckState_def)+
  have m: "msgq w = []" "msg_qbytes w = 16384" by (subst w(3), simp)+
  have q: "attached w" "belt_quiet w" "belt_inv (shm w)" "sessions_inv (shm w)" "sems w SEM_DOCK_MUTEX = 1"
    using w(1) by (simp_all add: at_rest_def belt_quiet_def)
  define w1 where "w1 = w\<lparr>shm := (shm w)\<lparr>current_workers_count := 1\<rparr>\<rparr>"
  have q1: "attached w1" "belt_quiet w1" "belt_inv (shm w1)" "sessions_inv (shm w1)" "session_index_ok c (shm w1)"
    "slot_of c (shm w1) = slot_of c (shm w)" "running (shm w1)"
    using q c(1) s sessions_cong [of "shm w1" "shm w"]
    by (simp_all add: w1_def belt_quiet_def belt_inv_workers shared_consts)
  have "run_method RegisterC w = Done (Flag True) w1"
    using registerWorker_quiet [OF q(2,3)] s by (simp add: method_equations(3) [OF q(1)] w1_def shared_consts)
  from solo_test [OF solo_call [OF r _ _ _ this, where i = 2], where i = 2 and y = TrySpawn] q1(7)
  have r1: "wh_reachable (plant [d, t, proc_at 300 (WorkerR 1) c TrySpawn] w1 [] [] [])" by (simp add: numeral_2_eq_2)
  define w2 where "w2 = w1\<lparr>shm := set_processes c 1 (shm w1)\<rparr>"
  have "trySpawnProcess c w1 = Done True w2"
    using trySpawn_quiet [OF q1(2,4,5) c(2)] q1(6) c(3) by (simp add: w2_def new_session_def)
  then have "run_method (SpawnC c) w1 = Done (Flag True) w2" by (simp add: method_equations(5) [OF q1(1) c(2)])
  from solo_call [OF r1 _ _ _ this, where i = 2]
  have r2: "wh_reachable (plant [d, t, proc_at 300 (WorkerR 1) c Push] w2 [] [] [])" by (simp add: numeral_2_eq_2)
  have q2: "belt_quiet w2" "belt_inv (shm w2)" "current_items_count (shm w2) < MAX_BELT_CAPACITY_K" "0 < id_budget (shm w2)"
    "belt_contents (shm w2) = []"
    using q1(2,3) s belt_quiet_users [of c 1 w1]
    by (simp_all add: w2_def, simp_all add: w1_def shared_consts id_budget_def INT32_MAX_def belt_contents_def)
  define x where "x = stamp (shm w2) (make_package 300 sample_draw)"
  have x: "pkg_id x = 1" "legal_package x"
    using s make_package_legal [OF sample_draw_legal] by (simp_all add: x_def stamp_def w2_def w1_def)
  obtain w3 where w3: "run_method (PushC (make_package 300 sample_draw)) w2 = Done (Item True x) w3" "belt_quiet w3"
    "belt_inv (shm w3)" "belt_contents (shm w3) = [x]" "same_elsewhere (shm w2) (shm w3)"
    "sems w3 SEM_DOCK_MUTEX = sems w2 SEM_DOCK_MUTEX" "msgq w3 = msgq w2" "msg_qbytes w3 = msg_qbytes w2"
    using run_push [OF q2(1-4), of "make_package 300 sample_draw"] q2(5) by (auto simp: x_def)
  from solo_call [OF r2 _ _ _ w3(1), where i = 2]
  have "wh_reachable (plant [d, t, proc_at 300 (WorkerR 1) c Report] w3 [x] [] [])" by (simp add: numeral_2_eq_2)
  then show ?thesis using w3 x s m q by (intro exI [of _ w3] exI [of _ x]) (simp add: same_elsewhere_def w2_def w1_def)
qed

text \<open>The truck docks and the dispatcher loads the package on it.\<close>

lemma dispatcher_loads:
  assumes r: "wh_reachable (plant [proc_at 100 DispatcherR a PopTest, proc_at 200 (TruckR 1) b (Trucking Arriving), x] w [q] [] [])"
    and w: "belt_quiet w" "belt_inv (shm w)" "belt_contents (shm w) = [q]" "running (shm w)" "pkg_id q = 1"
      "sems w SEM_DOCK_MUTEX = 1" "msgq w = []" "msg_qbytes w = 16384" "\<not> is_present (dock_truck (shm w))"
    and fit: "\<And>t. fits (randomizeTruckSpecs 200 (Fin 300) (Fin 2) t) (weight q) (volume q)"
  shows "\<exists>w'. wh_reachable (plant [proc_at 100 DispatcherR a PopTest, proc_at 200 (TruckR 1) b (Trucking Waiting), x] w' [q] [q] [(200, q)])
     \<and> belt_contents (shm w') = [] \<and> truck_id (dock_truck (shm w')) = 200 \<and> current_load (dock_truck (shm w')) = 1"
proof -
  define T where "T = randomizeTruckSpecs 200 (Fin 300) (Fin 2) (dock_truck (shm w))"
  define w1 where "w1 = w\<lparr>shm := (shm w)\<lparr>dock_truck := T\<rparr>\<rparr>"
  have k: "kernel w = []" "0 < sems w SEM_DOCK_MUTEX" using w by (simp_all add: belt_quiet_def)
  have r1: "wh_reachable (plant [proc_at 100 DispatcherR a Pop, proc_at 200 (TruckR 1) b (Trucking Docking), x] w [q] [] [])"
    using solo_test [OF solo_test [OF r, where i = 1 and y = "Trucking Docking"], where i = 0 and y = Pop] w(4) by simp
  have d: "with_lock lockDock unlockDock (dock_section 200 (DockS plain_rolls)) w = Done True w1"
    using dock_mutex.bracket_shm [OF k, of "dock_body 200 plain_rolls"] w(9)
    by (simp add: dock_body_def w1_def T_def plain_rolls_def dock_section.simps(1) [abs_def])
  have r2: "wh_reachable (plant [proc_at 100 DispatcherR a Pop, proc_at 200 (TruckR 1) b (Trucking Waiting), x] w1 [q] [] [])"
    using solo_section [OF r1, of 1 "DockS plain_rolls" True w1] d k(1) by simp
  have q1: "belt_quiet w1" "belt_inv (shm w1)" "belt_contents (shm w1) = [q]"
    using w(1-3) by (simp_all add: w1_def belt_quiet_def belt_inv_def belt_contents_def)
  obtain w2 where w2: "run_method PopC w1 = Done (Item True q) w2" "belt_contents (shm w2) = []"
    "same_elsewhere (shm w1) (shm w2)" "belt_quiet w2" "sems w2 SEM_DOCK_MUTEX = 1" "msgq w2 = []" "msg_qbytes w2 = 16384"
    using run_pop [OF q1] w(6-8) by (auto simp: w1_def)
  have r3: "wh_reachable (plant [proc_at 100 DispatcherR a (Load q), proc_at 200 (TruckR 1) b (Trucking Waiting), x] w2 [q] [q] [])"
    using solo_call [OF r2 _ _ _ w2(1), where i = 0] w(5) by simp
  have t2: "dock_truck (shm w2) = T" "running (shm w2)" using w2(3) w(4) by (simp_all add: same_elsewhere_def w1_def)
  have k2: "kernel w2 = []" using w2(4) by (simp add: belt_quiet_def)
  have "dock_ready w2" using t2 w2(5-7) k2
    by (simp add: dock_ready_def T_def randomizeTruckSpecs_def msg_room_def in_int32_iff)
  then obtain w3 where w3: "with_lock lockDock unlockDock (dock_section 100 (LoadS q)) w2 = Done True w3"
    "dock_truck (shm w3) = put_package q T" "belt_contents (shm w3) = belt_contents (shm w2)"
    using load_attempt_locked [of w2 q] t2 fit [of "dock_truck (shm w)"]
    by (auto simp: T_def dock_section.simps(5) [abs_def] Let_def depart_sent_def with_truck_def belt_contents_def)
  have "wh_reachable (plant [proc_at 100 DispatcherR a PopTest, proc_at 200 (TruckR 1) b (Trucking Waiting), x] w3 [q] [q] [(200, q)])"
    using solo_section [OF r3, of 0 "LoadS q" True w3] w3(1) k2 t2 by (simp add: T_def randomizeTruckSpecs_def)
  then show ?thesis using w3 w2(2) by (intro exI [of _ w3]) (simp add: put_package_def T_def randomizeTruckSpecs_def)
qed

lemma dadd_0_left: "is_double x \<Longrightarrow> dadd (Fin 0) x = x"
  by (cases x) (simp_all add: to_double_of_is_double del: is_double.simps)

text \<open>Every package a worker can make fits on every truck that has just docked.\<close>

lemma legal_package_fits:
  assumes "legal_package p" "dle (Fin 200) a" "dle (Fin 1) b"
  shows "fits (randomizeTruckSpecs pid a b t) (weight p) (volume p)"
proof -
  have w: "is_double (weight p)" "dle (weight p) (Fin 25)"
    using assms(1) dle_trans [of "weight p" "Fin 8" "Fin 25"] dle_trans [of "weight p" "Fin 16" "Fin 25"]
    by (auto simp: legal_package_def)
  have v: "is_double (volume p)" "dle (volume p) (Fin 1)"
    using assms(1) vol_ok by (auto simp: legal_package_def vol_values)
  have "dle (weight p) a" using dle_trans [OF w(2)] dle_trans [of "Fin 25" "Fin 200" a] assms(2) by simp
  moreover have "dle (volume p) b" using dle_trans [OF v(2) assms(3)] .
  ultimately show ?thesis by (simp add: fits_weight_def fits_volume_def dadd_0_left w(1) v(1))
qed

text \<open>An execution in which the first package of a worker reaches a truck.\<close>

lemma first_package:
  "\<exists>st q. wh_reachable st \<and> w_acc st = [q] \<and> w_loaded st = [(200, q)] \<and> pkg_id q = 1 \<and> legal_package q
     \<and> belt_contents (shm (ww st)) = [] \<and> truck_id (dock_truck (shm (ww st))) = 200
     \<and> current_load (dock_truck (shm (ww st))) = 1 \<and> map pr_kind (w_ps st) = [DispatcherR, TruckR 1, WorkerR 1]
     \<and> map pr_stage (w_ps st) = [PopTest, Trucking Waiting, Report] \<and> map pr_mode (w_ps st) = [Here, Here, Here]"
proof -
  obtain w a b c where l: "wh_reachable (plant [proc_at 100 DispatcherR a PopTest, proc_at 200 (TruckR 1) b (Trucking Arriving),
       proc_at 300 (WorkerR 1) c Register] w [] [] [])"
    "at_rest w" "shm w = (shm boot_world)\<lparr>users := users (shm w)\<rparr>" "w = boot_world\<lparr>shm := shm w\<rparr>"
    "session_index_ok c (shm w)" "c \<noteq> -1" "slot_of c (shm w) = new_session (''Worker_'' @ to_string 1) Operator 0 10 300"
    using all_logged_in by blast
  obtain w1 q where q: "wh_reachable (plant [proc_at 100 DispatcherR a PopTest, proc_at 200 (TruckR 1) b (Trucking Arriving),
       proc_at 300 (WorkerR 1) c Report] w1 [q] [] [])"
    "belt_quiet w1" "belt_inv (shm w1)" "belt_contents (shm w1) = [q]" "running (shm w1)" "pkg_id q = 1" "legal_package q"
    "sems w1 SEM_DOCK_MUTEX = 1" "msgq w1 = []" "msg_qbytes w1 = 16384" "\<not> is_present (dock_truck (shm w1))"
    using worker_puts [OF l] by blast
  have "fits (randomizeTruckSpecs 200 (Fin 300) (Fin 2) t) (weight q) (volume q)" for t
    by (rule legal_package_fits [OF q(7)]) simp_all
  from dispatcher_loads [OF q(1-6,8-11) this] q(6,7) show ?thesis by fastforce
qed

lemma item_reply:
  assumes "obind m (\<lambda>a w2. case a of Item ok q \<Rightarrow> Done q w2 | _ \<Rightarrow> UB) = Done q w'"
  shows "\<exists>ok. m = Done (Item ok q) w'"
proof -
  obtain a w2 where "m = Done a w2" using assms by (cases m) auto
  then show ?thesis using assms by (cases a) auto
qed

section \<open>Properties\<close>

text \<open>
  C23: the interleaved programs are the sequential methods cut into steps.  When a process is about to
  call a method of the belt or of the session manager and nobody else acts, its steps lead exactly to
  the world and the result that the method of the sequential theories returns; \<open>push\<close> first sleeps in
  \<open>simulateWorkLoad\<close>, which is not a step of the system.
\<close>

theorem uninterrupted_method:
  assumes "attached (ww st)" "i < length (w_ps st)" "p = w_ps st ! i" "pr_mode p = Here" "pr_sess p \<noteq> -1 \<or> pr_stage p = Login"
    and "legal_draw d" "next_call d p = Some c"
  shows "case c of
     LoginC n r org m q \<Rightarrow> \<forall>ok k w'. login n r org m q (-1) (ww st) = Done (ok, k) w' \<longrightarrow>
        wh_step\<^sup>*\<^sup>* st (set_proc i (after_call (Session ok k) p) w' st)
   | LogoutC k \<Rightarrow> \<forall>u w'. logout k (ww st) = Done u w' \<longrightarrow> wh_step\<^sup>*\<^sup>* st (set_proc i (after_call (Flag True) p) w' st)
   | RegisterC \<Rightarrow> \<forall>ok w'. registerWorker (ww st) = Done ok w' \<longrightarrow> wh_step\<^sup>*\<^sup>* st (set_proc i (after_call (Flag ok) p) w' st)
   | UnregisterC \<Rightarrow> \<forall>u w'. unregisterWorker (ww st) = Done u w' \<longrightarrow> wh_step\<^sup>*\<^sup>* st (set_proc i (after_call (Flag True) p) w' st)
   | SpawnC k \<Rightarrow> \<forall>ok w'. trySpawnProcess k (ww st) = Done ok w' \<longrightarrow> wh_step\<^sup>*\<^sup>* st (set_proc i (after_call (Flag ok) p) w' st)
   | ReportC k \<Rightarrow> \<forall>u w'. reportProcessFinished k (ww st) = Done u w' \<longrightarrow> wh_step\<^sup>*\<^sup>* st (set_proc i (after_call (Flag True) p) w' st)
   | PushC x \<Rightarrow> \<forall>q w1 w'. simulateWorkLoad (ww st) = Done () w1 \<and> push x (ww st) = Done q w' \<longrightarrow>
        (\<exists>ok. wh_step\<^sup>*\<^sup>* (st\<lparr>ww := w1\<rparr>) ((set_proc i (after_call (Item ok q) p) w' st)\<lparr>w_acc := w_acc st @ pushed c (Item ok q), w_got := w_got st\<rparr>))
   | PopC \<Rightarrow> \<forall>q w'. pop (ww st) = Done q w' \<longrightarrow>
        (\<exists>ok. wh_step\<^sup>*\<^sup>* st ((set_proc i (after_call (Item ok q) p) w' st)\<lparr>w_acc := w_acc st, w_got := w_got st @ popped c (Item ok q)\<rparr>))"
proof -
  note m = method_equations [OF assms(1)] and pp = push_pop_equations [OF assms(1)]
    and solo = solo_method [OF assms(2-4,6,7)]
  have c: "calls p c" using assms(6,7) by (auto simp: calls_def)
  have same: "(set_proc i x w' st)\<lparr>w_acc := w_acc st, w_got := w_got st\<rparr> = set_proc i x w' st" for x w'
    by (simp add: set_proc_def)
  show ?thesis
  proof (cases c)
    case (PushC x)
    have "\<exists>ok. wh_step\<^sup>*\<^sup>* (st\<lparr>ww := w1\<rparr>) ((set_proc i (after_call (Item ok q) p) w' st)
        \<lparr>w_acc := w_acc st @ pushed c (Item ok q), w_got := w_got st\<rparr>)"
      if "simulateWorkLoad (ww st) = Done () w1" "push x (ww st) = Done q w'" for q w1 w'
    proof -
      have "\<exists>ok. run_method c w1 = Done (Item ok q) w'"
        using that pp(1) [of x] PushC by (intro item_reply) simp
      then obtain ok where "run_method c w1 = Done (Item ok q) w'" by blast
      then have "wh_step\<^sup>*\<^sup>* (st\<lparr>ww := w1\<rparr>) ((set_proc i (after_call (Item ok q) p) w' (st\<lparr>ww := w1\<rparr>))
          \<lparr>w_acc := w_acc st @ pushed c (Item ok q), w_got := w_got st @ popped c (Item ok q)\<rparr>)"
        using solo_method [of i "st\<lparr>ww := w1\<rparr>" p d c "Item ok q" w'] assms(2-4,6,7) by simp
      moreover have "popped c (Item ok q) = []" by (simp add: PushC)
      moreover have "set_proc i (after_call (Item ok q) p) w' (st\<lparr>ww := w1\<rparr>) = set_proc i (after_call (Item ok q) p) w' st"
        by (simp add: set_proc_def)
      ultimately show ?thesis by (intro exI [of _ ok]) (simp del: after_call.simps)
    qed
    then show ?thesis using PushC by simp
  next
    case PopC
    have "\<exists>ok. run_method c (ww st) = Done (Item ok q) w'" if "pop (ww st) = Done q w'" for q w'
      using that pp(2) PopC by (intro item_reply) simp
    moreover have "pushed c (Item ok q) = []" for ok q by (simp add: PopC)
    ultimately have "\<exists>ok. wh_step\<^sup>*\<^sup>* st ((set_proc i (after_call (Item ok q) p) w' st)
        \<lparr>w_acc := w_acc st, w_got := w_got st @ popped c (Item ok q)\<rparr>)" if "pop (ww st) = Done q w'" for q w'
      using solo [of "Item _ q" w'] that by (metis append_Nil2)
    then show ?thesis using PopC by simp
  qed (use c m solo assms(5) same in \<open>auto simp: calls_stage\<close>)
qed

theorem uninterrupted_method_witness:
  "\<exists>ok k w'. login ''System-Dispatcher'' Operator 0 1 100 (-1) boot_world = Done (ok, k) w'
     \<and> wh_step\<^sup>*\<^sup>* deployed (set_proc 0 (after_call (Session ok k) (new_process 100 DispatcherR)) w' deployed)"
proof -
  obtain k s' where "login ''System-Dispatcher'' Operator 0 1 100 (-1) boot_world = Done (True, k) (boot_world\<lparr>shm := s'\<rparr>)"
    using login_step [of boot_world "''System-Dispatcher''" 1 Operator 0 100] boot_sessions
      boot_at_rest by (auto simp: at_rest_def INT32_MAX_def init_shm_def zero_SharedState_def zero_UserSession_def)
  moreover have "next_call sample_draw (new_process 100 DispatcherR) = Some (LoginC ''System-Dispatcher'' Operator 0 1 100)"
    by (simp add: new_process_def)
  ultimately show ?thesis
    using uninterrupted_method [of deployed 0 "new_process 100 DispatcherR" sample_draw
        "LoginC ''System-Dispatcher'' Operator 0 1 100"] sample_draw_legal
    by (fastforce simp: deployed_def new_process_def)
qed

end
