(* ===== verification/Warehouse_Packages.thy ===== *)
theory Warehouse_Packages
  imports Warehouse_Run "HOL-Library.Multiset"
begin

text \<open>
  Where the packages go.  Every package that the belt has accepted is on the belt, in the hands of a
  dispatcher, on a truck, or was dropped at shutdown; it is in exactly one of these places.
\<close>

section \<open>Packages in the hands of a process\<close>

definition hand :: "process \<Rightarrow> Package list" where
  "hand p = (case pr_mode p of
     BeltUnlock c a \<Rightarrow> popped c a
   | BeltPost c a \<Rightarrow> popped c a
   | DockUnlock (LoadS pkg) b \<Rightarrow> (if b then [] else [pkg])
   | _ \<Rightarrow> (case pr_stage p of Load pkg \<Rightarrow> [pkg] | _ \<Rightarrow> []))"

definition in_hands :: "warehouse \<Rightarrow> Package multiset" where
  "in_hands st = mset (concat (map hand (w_ps st)))"

lemma concat_update_mset:
  "i < length xs \<Longrightarrow> mset (concat (map f (xs[i := y]))) + mset (f (xs ! i)) = mset (concat (map f xs)) + mset (f y)"
proof (induction xs arbitrary: i)
  case Nil
  then show ?case by simp
next
  case (Cons x xs)
  show ?case
  proof (cases i)
    case (Suc j)
    then show ?thesis using Cons.IH [of j] Cons.prems by (simp add: add.assoc)
  qed (simp add: add_ac)
qed

definition packages_inv :: "warehouse \<Rightarrow> bool" where
  "packages_inv st \<longleftrightarrow> mset (w_got st) = mset (map snd (w_loaded st)) + mset (w_dropped st) + in_hands st
     \<and> (running (shm (ww st)) \<longrightarrow> w_dropped st = [])
     \<and> (\<forall>q \<in> set (w_acc st). legal_package q)
     \<and> (\<forall>x \<in> set (w_loaded st). \<exists>p n. p \<in> set (w_ps st) \<and> pr_pid p = fst x \<and> pr_kind p = TruckR n)"

lemma packages_inv_balance:
  assumes "packages_inv st" "i < length (w_ps st)" "w_ps st' = (w_ps st)[i := p]"
    "w_got st' = w_got st @ g" "w_loaded st' = w_loaded st @ l" "w_dropped st' = w_dropped st @ d"
    "mset g + mset (hand (w_ps st ! i)) = mset (map snd l) + mset d + mset (hand p)"
  shows "mset (w_got st') = mset (map snd (w_loaded st')) + mset (w_dropped st') + in_hands st'"
proof -
  have "in_hands st' + mset (hand (w_ps st ! i)) = in_hands st + mset (hand p)"
    using concat_update_mset [OF assms(2), of hand p] by (simp add: in_hands_def assms(3))
  then have "mset (w_got st) + mset g + mset (hand (w_ps st ! i))
      = mset (map snd (w_loaded st)) + mset (w_dropped st) + mset (map snd l) + mset d + (in_hands st' + mset (hand (w_ps st ! i)))"
    using assms(1,7) unfolding packages_inv_def
    by (metis (no_types, lifting) add.assoc add.commute)
  then show ?thesis using assms(4-6) by (simp add: add_ac)
qed


section \<open>What the steps do to the packages in hand\<close>

lemma hand_stage:
  assumes "dholds (pr_mode p) = 0" "\<forall>c a. pr_mode p \<noteq> BeltUnlock c a \<and> pr_mode p \<noteq> BeltPost c a"
  shows "hand p = drop_log (pr_stage p)"
  using assms by (cases "pr_mode p"; cases "pr_stage p") (auto simp: hand_def)

lemma hand_mode [simp]:
  "hand (p\<lparr>pr_mode := AtSem c\<rparr>) = drop_log (pr_stage p)" "hand (p\<lparr>pr_mode := AtLock c\<rparr>) = drop_log (pr_stage p)"
  "hand (p\<lparr>pr_mode := InBelt c\<rparr>) = drop_log (pr_stage p)" "hand (p\<lparr>pr_mode := AtDock d\<rparr>) = drop_log (pr_stage p)"
  "hand (p\<lparr>pr_mode := InDock d\<rparr>) = drop_log (pr_stage p)"
  "hand (p\<lparr>pr_mode := BeltUnlock c a\<rparr>) = popped c a"
  by (cases "pr_stage p"; simp add: hand_def)+

lemma InDock_hand: "pr_mode p = InDock c \<Longrightarrow> hand p = drop_log (pr_stage p)"
  by (cases "pr_stage p") (simp_all add: hand_def)

lemma calls_no_load: "calls p c \<Longrightarrow> drop_log (pr_stage p) = []"
  by (cases c) (auto simp: calls_stage)

lemma hand_leave_call:
  assumes "calls p c" "reply_ok c a"
  shows "hand (leave_call c a p) = popped c a"
proof (cases "last_sem c a")
  case None
  with assms have "drop_log (pr_stage (after_call a p)) = []" "popped c a = []"
    by (cases c; auto simp: calls_stage; cases "pr_kind p"; auto)+
  then show ?thesis using None hand_stage [of "after_call a p"] by (simp add: leave_call_def)
qed (simp add: leave_call_def hand_def)

lemma hand_after_call:
  assumes "calls p c" "reply_ok c a" "last_sem c a = Some k" "\<forall>q \<in> set (popped c a). pkg_id q \<noteq> 0"
  shows "hand (after_call a p) = popped c a"
proof -
  have "drop_log (pr_stage (after_call a p)) = popped c a"
    using assms by (cases c) (auto simp: calls_stage split: if_splits)
  then show ?thesis using hand_stage [of "after_call a p"] by simp
qed

lemma dock_hand:
  assumes "docks p c"
  shows "drop_log (pr_stage p) = (case c of LoadS pkg \<Rightarrow> [pkg] | _ \<Rightarrow> [])"
    "hand (p\<lparr>pr_mode := DockUnlock c b\<rparr>) = (case c of LoadS pkg \<Rightarrow> if b then [] else [pkg] | _ \<Rightarrow> [])"
    "drop_log (after_dock b (pr_stage p)) = (case c of LoadS pkg \<Rightarrow> if b then [] else [pkg] | _ \<Rightarrow> [])"
  using docks_stage [OF assms] by (cases c; auto simp: hand_def)+

lemma load_log_snd: "map snd (load_log w c b) = (case c of LoadS pkg \<Rightarrow> if b then [pkg] else [] | _ \<Rightarrow> [])"
  by (cases c) simp_all

lemma test_hand:
  assumes "local_test stop run x = Some y"
  shows "drop_log y = []" "drop_log x \<noteq> [] \<Longrightarrow> \<not> run"
proof -
  show "drop_log y = []"
    using assms by (cases "(stop, run, x)" rule: local_test.cases) (auto split: if_splits)
  show "drop_log x \<noteq> [] \<Longrightarrow> \<not> run" using assms by (cases x) auto
qed

lemma signal_hand: "after_signal sig run x = Some y \<Longrightarrow> drop_log x = [] \<and> drop_log y = []"
  by (cases "(sig, run, x)" rule: after_signal.cases) auto

lemma hand_got:
  assumes "packages_inv st" "p \<in> set (w_ps st)" "q \<in> set (hand p)"
  shows "q \<in> set (w_got st)"
proof -
  have "q \<in># in_hands st" using assms(2,3) by (auto simp: in_hands_def)
  then have "q \<in># mset (w_got st)" using assms(1) by (simp add: packages_inv_def)
  then show ?thesis by simp
qed

lemma got_numbered:
  assumes "wh_reachable st" "q \<in> set (w_got st)"
  shows "0 < pkg_id q"
proof -
  have "queue_inv (abs_belt st)" using conc_reachable_inv belt_refinement.abs_reachable assms(1) by blast
  then have n: "numbered (w_acc st)" "q \<in> set (w_acc st)" using assms(2) by (auto simp: queue_inv_def)
  then have "pkg_id q \<in> set (map (\<lambda>k. int k + 1) [0..<length (w_acc st)])"
    unfolding numbered_def by (metis image_eqI image_set)
  then show ?thesis by auto
qed

lemma balance_step:
  assumes reach: "wh_reachable st" and inv: "packages_inv st" and step: "wh_step st st'"
  shows "mset (w_got st') = mset (map snd (w_loaded st')) + mset (w_dropped st') + in_hands st'"
proof -
  note okn = procs_ok_nth [OF wh_procs.inv_reachable [OF reach]]
  note bal = packages_inv_balance [OF inv, where st' = st']
  from step show ?thesis
  proof cases
    case (call i p d c)
    then show ?thesis by (intro bal [of i _ "[]" "[]" "[]"]) (auto simp: hand_stage)
  next
    case (wait i p c k w')
    then show ?thesis by (intro bal [of i _ "[]" "[]" "[]"]) (auto simp: hand_stage)
  next
    case (lock i p c w')
    then show ?thesis by (intro bal [of i _ "[]" "[]" "[]"]) (auto simp: hand_stage)
  next
    case (body i p c a s')
    then have "calls p c" using okn [OF body(2)] by (simp add: proc_ok_def mode_ok_def)
    then show ?thesis using body calls_no_load
      by (intro bal [of i _ "popped c a" "[]" "[]"]) (auto simp: hand_stage)
  next
    case (unlock i p c a w')
    then have "calls p c" "reply_ok c a" using okn [OF unlock(2)] by (simp_all add: proc_ok_def mode_ok_def)
    then show ?thesis using unlock hand_leave_call
      by (intro bal [of i _ "[]" "[]" "[]"]) (auto simp: hand_def)
  next
    case (post i p c a k w')
    then have p: "calls p c" "reply_ok c a" "hand p = popped c a"
      using okn [OF post(2)] by (simp_all add: proc_ok_def mode_ok_def hand_def)
    have "\<forall>q \<in> set (popped c a). pkg_id q \<noteq> 0"
      using got_numbered [OF reach hand_got [OF inv]] post(2,3) p(3) by (metis less_irrefl nth_mem)
    from hand_after_call [OF p(1,2) post(5) this] show ?thesis using post p(3)
      by (intro bal [of i _ "[]" "[]" "[]"]) auto
  next
    case (dock i p r ds c)
    then show ?thesis by (intro bal [of i _ "[]" "[]" "[]"]) (auto simp: hand_stage)
  next
    case (dlock i p c w')
    then show ?thesis by (intro bal [of i _ "[]" "[]" "[]"]) (auto simp: hand_stage InDock_hand)
  next
    case (dbody i p c b w')
    then have "docks p c" using okn [OF dbody(2)] by (simp add: proc_ok_def mode_ok_def)
    then show ?thesis using dbody
      by (intro bal [of i _ "[]" "load_log (ww st) c b" "[]"])
        (auto simp: InDock_hand dock_hand load_log_snd split: dock_call.split)
  next
    case (dunlock i p c b w')
    then have d: "docks p c" using okn [OF dunlock(2)] by (simp add: proc_ok_def mode_ok_def)
    moreover have "p = p\<lparr>pr_mode := DockUnlock c b\<rparr>" using dunlock(4) by simp
    ultimately have "hand p = drop_log (after_dock b (pr_stage p))" using dock_hand(2,3) by metis
    then show ?thesis using dunlock by (intro bal [of i _ "[]" "[]" "[]"]) (auto simp: hand_stage)
  next
    case (test i p stop x)
    then show ?thesis using test_hand(1)
      by (intro bal [of i _ "[]" "[]" "drop_log (pr_stage p)"]) (auto simp: hand_stage)
  next
    case (receive i p w1 sig w' x)
    then show ?thesis using signal_hand
      by (intro bal [of i _ "[]" "[]" "[]"]) (auto simp: hand_stage)
  next
    case (command i p cmd r out act w')
    then show ?thesis by (intro bal [of i _ "[]" "[]" "[]"]) (auto simp: hand_stage)
  next
    case (halt i p r)
    then show ?thesis by (intro bal [of i _ "[]" "[]" "[]"]) (auto simp: hand_stage)
  next
    case (notify i p n u w')
    then show ?thesis by (intro bal [of i _ "[]" "[]" "[]"]) (auto simp: hand_stage)
  next
    case (halted i p)
    then show ?thesis by (intro bal [of i _ "[]" "[]" "[]"]) (auto simp: hand_stage)
  next
    case master
    then show ?thesis using inv by (simp add: packages_inv_def in_hands_def)
  qed
qed


text \<open>The rest of the invariant.\<close>

lemma after_call_ids [simp]:
  "pr_pid (after_call a p) = pr_pid p" "pr_kind (after_call a p) = pr_kind p"
  "pr_pid (leave_call c a p) = pr_pid p" "pr_kind (leave_call c a p) = pr_kind p"
proof -
  show *: "pr_pid (after_call a p) = pr_pid p" "pr_kind (after_call a p) = pr_kind p"
    by (cases a; simp split: stage.splits)+
  show "pr_pid (leave_call c a p) = pr_pid p" "pr_kind (leave_call c a p) = pr_kind p"
    using * by (simp_all add: leave_call_def)
qed

text \<open>Processes keep their identity, \<open>running\<close> is never set again, and the logs only grow.\<close>

definition names :: "warehouse \<Rightarrow> (pid_t \<times> role_kind) list" where
  "names st = map (\<lambda>p. (pr_pid p, pr_kind p)) (w_ps st)"

lemma names_set_proc:
  "i < length (w_ps st) \<Longrightarrow> pr_pid p = pr_pid (w_ps st ! i) \<Longrightarrow> pr_kind p = pr_kind (w_ps st ! i) \<Longrightarrow>
   names (set_proc i p w st) = names st"
  by (simp add: names_def map_update) (metis (no_types, lifting) length_map list_update_id nth_map)

lemma names_ghosts [simp]:
  "names (st\<lparr>w_loaded := x\<rparr>) = names st" "names (st\<lparr>w_dropped := y\<rparr>) = names st"
  "names (st\<lparr>w_acc := a, w_got := b\<rparr>) = names st" "names (st\<lparr>ww := w\<rparr>) = names st"
  by (simp_all add: names_def)

lemma names_step: "wh_step st st' \<Longrightarrow> names st' = names st"
  by (cases rule: wh_step.cases) (auto simp: names_set_proc)

lemma running_step:
  assumes reach: "wh_reachable st" and step: "wh_step st st'" and run: "running (shm (ww st'))"
  shows "running (shm (ww st))"
proof -
  note k = wh_world(1) [OF reach]
  have sem: "shm w' = shm (ww st)" if "semOperation j v (ww st) = Done () w'" for j v w'
    using semOperation_DoneD [OF that k] by simp
  from step run show ?thesis
  proof cases
    case (body i p c a s')
    then show ?thesis using run call_body_dock [OF body(5)] by simp
  next
    case (dbody i p c b w')
    then show ?thesis using run dock_section_frame [OF k dbody(5)] by (simp add: dock_frame_def)
  next
    case (receive i p w1 sig w' x)
    then show ?thesis using run receive_msg_frame [OF k receive(5,6)] by (simp add: msg_frame_def)
  next
    case (command i p cmd r out act w')
    then show ?thesis using run command_msg_frame [OF k command(6,8)] by (simp add: msg_frame_def)
  next
    case (notify i p n u w')
    then show ?thesis using run send_msg_frame [OF k, of "session_pid u"] by (auto simp: msg_frame_def split: if_splits)
  qed (use run sem in \<open>auto simp: lockBelt_def unlockBelt_def lockDock_def unlockDock_def\<close>)
qed

lemma dropped_step:
  assumes "wh_step st st'"
  shows "w_dropped st' = w_dropped st \<or> \<not> running (shm (ww st')) \<and> ww st' = ww st"
  using assms
proof cases
  case (test i p stop x)
  then show ?thesis using test_hand(2) [OF test(5)] by (cases "drop_log (pr_stage p) = []") auto
qed auto

lemma pushed_legal:
  assumes "call_body c s = Some (a, s')" "calls p c" "q \<in> set (pushed c a)"
  shows "legal_package q"
proof -
  from assms obtain x d where c: "c = PushC x" "a = Item True q" "legal_draw d" "x = make_package (pr_pid p) d"
    by (cases "(c, a)" rule: pushed.cases) (auto simp: calls_stage split: if_splits)
  then have "push_body x s = Some ((True, q), s')" using assms(1) by auto
  then obtain n where "q = x\<lparr>pkg_id := n\<rparr>"
    by (auto simp: push_body_def Let_def bind_eq_Some_conv split: if_splits)
  then show ?thesis using c make_package_legal by simp
qed

lemma load_attempt_present: "load_attempt pkg w = Done True w' \<Longrightarrow> is_present (dock_truck (shm w))"
  by (auto simp: load_attempt_def Let_def split: if_splits)

lemma at_dock_truck:
  assumes "proc_ok p" "at_dock (fleet_pc p)"
  shows "\<exists>n. pr_kind p = TruckR n"
  using assms
  by (cases "pr_kind p"; cases "pr_stage p"; cases "pr_mode p")
    (auto simp: fleet_pc_def proc_ok_def kind_stage_def mode_ok_def dest!: docks_stage split: dock_call.splits if_splits)

lemma docked_by_truck:
  assumes "wh_reachable st" "is_present (dock_truck (shm (ww st)))"
  shows "\<exists>p n. p \<in> set (w_ps st) \<and> pr_pid p = truck_id (dock_truck (shm (ww st))) \<and> pr_kind p = TruckR n"
proof -
  have "fleet_inv (abs_fleet st)" using fleet_system.inv_reachable fleet_refinement.abs_reachable assms(1) by blast
  then obtain p where "p \<in> set (w_ps st)" "at_dock (fleet_pc p)" "pr_pid p = truck_id (dock_truck (shm (ww st)))"
    using assms(2) by (auto simp: fleet_inv_def abs_fleet_def)
  then show ?thesis using at_dock_truck wh_procs.inv_reachable [OF assms(1)] by (auto simp: procs_ok_def)
qed


lemma accepted_step:
  assumes reach: "wh_reachable st" and step: "wh_step st st'" and "\<forall>q \<in> set (w_acc st). legal_package q"
  shows "\<forall>q \<in> set (w_acc st'). legal_package q"
  using step
proof cases
  case (body i p c a s')
  then have "calls p c"
    using procs_ok_nth [OF wh_procs.inv_reachable [OF reach] body(2)] by (simp add: proc_ok_def mode_ok_def)
  then show ?thesis using body assms(3) pushed_legal [OF body(5)] by auto
qed (use assms(3) in auto)

lemma loaded_step:
  assumes reach: "wh_reachable st" and step: "wh_step st st'"
    and "\<forall>x \<in> set (w_loaded st). \<exists>n. (fst x, TruckR n) \<in> set (names st)"
  shows "\<forall>x \<in> set (w_loaded st'). \<exists>n. (fst x, TruckR n) \<in> set (names st')"
proof -
  have "\<forall>x \<in> set (w_loaded st'). \<exists>n. (fst x, TruckR n) \<in> set (names st)"
    using step
  proof cases
    case (dbody i p c b w')
    have "\<exists>n. (t, TruckR n) \<in> set (names st)" if "(t, q) \<in> set (load_log (ww st) c b)" for t q
    proof -
      from that obtain pkg where "c = LoadS pkg" "b" "t = truck_id (dock_truck (shm (ww st)))"
        by (cases c) (auto split: if_splits)
      with dbody(5) have "is_present (dock_truck (shm (ww st)))" by (auto dest: load_attempt_present)
      from docked_by_truck [OF reach this] show ?thesis
        using \<open>t = _\<close> by (force simp: names_def)
    qed
    then show ?thesis using dbody assms(3) by auto
  qed (use assms(3) in auto)
  then show ?thesis by (simp add: names_step [OF step])
qed

lemma names_iff: "(\<exists>p n. p \<in> set (w_ps st) \<and> pr_pid p = t \<and> pr_kind p = TruckR n) \<longleftrightarrow> (\<exists>n. (t, TruckR n) \<in> set (names st))"
  by (auto simp: names_def image_iff) metis+

lemma packages_inv_step:
  assumes reach: "wh_reachable st" and inv: "packages_inv st" and step: "wh_step st st'"
  shows "packages_inv st'"
proof -
  note i = inv [unfolded packages_inv_def names_iff]
  have "running (shm (ww st')) \<longrightarrow> w_dropped st' = []"
    using dropped_step [OF step] running_step [OF reach step] i by auto
  moreover have "\<forall>q \<in> set (w_acc st'). legal_package q" using accepted_step [OF reach step] i by blast
  moreover have "\<forall>x \<in> set (w_loaded st'). \<exists>n. (fst x, TruckR n) \<in> set (names st')"
    using loaded_step [OF reach step] i by blast
  ultimately show ?thesis using balance_step [OF reach inv step] unfolding packages_inv_def names_iff by blast
qed

interpretation wh_packages: inductive_invariant wh_init wh_step packages_inv
proof unfold_locales
  show "packages_inv st" if "wh_init st" for st
  proof -
    have "map hand (w_ps st) = map (\<lambda>_. []) (w_ps st)" using that by (auto simp: wh_init_def started_def hand_def)
    then have "in_hands st = {#}" by (simp only: in_hands_def) (simp add: map_replicate_const concat_replicate_trivial)
    then show ?thesis using that by (simp add: packages_inv_def wh_init_def)
  qed
qed (use packages_inv_step in blast)

text \<open>Every accepted package is in exactly one place.\<close>

lemma all_places:
  assumes "wh_reachable st"
  shows "mset (w_acc st) = mset (map snd (w_loaded st)) + mset (w_dropped st) + in_hands st + mset (belt_contents (shm (ww st)))"
    and "numbered (w_acc st)"
proof -
  have q: "queue_inv (abs_belt st)" using conc_reachable_inv belt_refinement.abs_reachable assms by blast
  show "numbered (w_acc st)" using q unfolding queue_inv_def abs_belt_simps by blast
  have "w_acc st = w_got st @ belt_contents (shm (ww st))" using q by (simp add: queue_inv_def)
  then show "mset (w_acc st) = mset (map snd (w_loaded st)) + mset (w_dropped st) + in_hands st + mset (belt_contents (shm (ww st)))"
    using wh_packages.inv_reachable [OF assms] by (simp add: packages_inv_def)
qed

lemma numbered_distinct: "numbered ps \<Longrightarrow> distinct ps"
proof -
  assume "numbered ps"
  then have "distinct (map pkg_id ps)" by (simp add: numbered_def distinct_map inj_on_def)
  then show ?thesis by (simp add: distinct_map)
qed

lemma mset_distinct_part: "distinct xs \<Longrightarrow> mset xs = mset ys + A \<Longrightarrow> distinct ys"
  unfolding distinct_count_atmost_1
proof
  fix a
  assume d: "\<forall>a. count (mset xs) a = (if a \<in> set xs then 1 else 0)" and e: "mset xs = mset ys + A"
  have "count (mset ys) a \<le> count (mset xs) a" by (simp add: e)
  also have "\<dots> \<le> 1" using d by simp
  finally show "count (mset ys) a = (if a \<in> set ys then 1 else 0)"
    using count_mset_0_iff [of ys a] by (cases "count (mset ys) a") auto
qed


section \<open>Properties\<close>

text \<open>
  C1: no package is lost or duplicated.  In every reachable state of the whole system, under every
  interleaving of workers, dispatchers, trucks, express worker, monitor, console and master, the
  packages accepted by the belt are exactly those loaded on trucks, those dropped at shutdown, those in
  the hands of a dispatcher and those on the belt.  Each of them is in one place only, no package is
  loaded twice, it is loaded on a truck of the fleet, and as long as the system runs none is dropped.
\<close>

theorem package_conservation:
  assumes "wh_reachable st"
  shows "mset (w_acc st) = mset (map snd (w_loaded st)) + mset (w_dropped st) + in_hands st + mset (belt_contents (shm (ww st)))
     \<and> map pkg_id (w_acc st) = map (\<lambda>k. int k + 1) [0..<length (w_acc st)]
     \<and> distinct (map snd (w_loaded st)) \<and> (\<forall>q \<in> set (w_acc st). legal_package q)
     \<and> (\<forall>(t, q) \<in> set (w_loaded st). \<exists>p n. p \<in> set (w_ps st) \<and> pr_pid p = t \<and> pr_kind p = TruckR n)
     \<and> (running (shm (ww st)) \<longrightarrow> w_dropped st = [])"
proof -
  note a = all_places [OF assms] and inv = wh_packages.inv_reachable [OF assms, unfolded packages_inv_def]
  have "distinct (map snd (w_loaded st))"
    using mset_distinct_part [OF numbered_distinct [OF a(2)], of "map snd (w_loaded st)"] a(1) by (simp add: add.assoc)
  moreover have "\<forall>(t, q) \<in> set (w_loaded st). \<exists>p n. p \<in> set (w_ps st) \<and> pr_pid p = t \<and> pr_kind p = TruckR n"
    using inv by fastforce
  ultimately show ?thesis using a(1) a(2) [unfolded numbered_def] inv by blast
qed

theorem package_conservation_witness:
  "\<exists>st q. wh_reachable st \<and> w_loaded st = [(200, q)] \<and> w_acc st = [q]
     \<and> {#q#} = {#q#} + mset (w_dropped st) + in_hands st + mset (belt_contents (shm (ww st))) \<and> pkg_id q = 1"
proof -
  obtain st q where "wh_reachable st" "w_acc st = [q]" "w_loaded st = [(200, q)]" "pkg_id q = 1"
    using first_package by blast
  with package_conservation [of st] show ?thesis by (intro exI [of _ st] exI [of _ q]) simp
qed

text \<open>
  C2: the dock in the whole system.  At most one process is inside a section under the dock mutex; the
  dock is marked as occupied exactly while one truck process is between docking and departing, under
  that truck's pid; two trucks never are; and what is on the docked truck is within its limits.
\<close>

theorem warehouse_dock:
  assumes "wh_reachable st"
  shows "(\<forall>i < length (w_ps st). \<forall>j < length (w_ps st).
          dholds (pr_mode (w_ps st ! i)) = 1 \<and> dholds (pr_mode (w_ps st ! j)) = 1 \<longrightarrow> i = j)
     \<and> (is_present (dock_truck (shm (ww st))) \<longleftrightarrow> (\<exists>p \<in> set (w_ps st). at_dock (fleet_pc p)))
     \<and> (\<forall>p \<in> set (w_ps st). at_dock (fleet_pc p) \<longrightarrow>
          pr_pid p = truck_id (dock_truck (shm (ww st))) \<and> (\<exists>n. pr_kind p = TruckR n))
     \<and> (\<forall>p \<in> set (w_ps st). \<forall>q \<in> set (w_ps st). at_dock (fleet_pc p) \<and> at_dock (fleet_pc q) \<longrightarrow> p = q)
     \<and> truck_ok (dock_truck (shm (ww st)))"
proof -
  have ok: "procs_ok st" and f: "fleet_inv (abs_fleet st)"
    using wh_procs.inv_reachable fleet_system.inv_reachable fleet_refinement.abs_reachable assms by blast+
  have "i = j" if "i < length (w_ps st)" "j < length (w_ps st)" "dholds (pr_mode (w_ps st ! i)) = 1"
    "dholds (pr_mode (w_ps st ! j)) = 1" for i j
  proof (rule ccontr)
    assume "i \<noteq> j"
    then have "2 \<le> dtally st"
      using sum_list_map_ge_two [of "\<lambda>p. dholds (pr_mode p)" i "w_ps st" j] dholds_nonneg that by (simp add: dtally_def)
    then show False using wh_dock.inv_reachable [OF assms] wh_world(3) [OF assms, of SEM_DOCK_MUTEX]
      by (simp add: dock_inv_def)
  qed
  moreover have d: "pr_pid p = truck_id (dock_truck (shm (ww st)))" "\<exists>n. pr_kind p = TruckR n"
    "is_present (dock_truck (shm (ww st)))" if "p \<in> set (w_ps st)" "at_dock (fleet_pc p)" for p
    using f that ok at_dock_truck [of p] by (auto simp: fleet_inv_def abs_fleet_def procs_ok_def)
  moreover have "p = q" if "p \<in> set (w_ps st)" "q \<in> set (w_ps st)" "at_dock (fleet_pc p)" "at_dock (fleet_pc q)" for p q
  proof (rule inj_onD [of pr_pid "set (w_ps st)"])
    show "inj_on pr_pid (set (w_ps st))" using ok by (simp add: procs_ok_def distinct_map)
  qed (simp_all add: d(1) that)
  moreover have "\<exists>p \<in> set (w_ps st). at_dock (fleet_pc p)" if "is_present (dock_truck (shm (ww st)))"
    using f that by (auto simp: fleet_inv_def abs_fleet_def)
  moreover have "truck_ok (dock_truck (shm (ww st)))" using f by (simp add: fleet_inv_def)
  ultimately show ?thesis by blast
qed

theorem warehouse_dock_witness:
  "\<exists>st. wh_reachable st \<and> map pr_stage (w_ps st) = [PopTest, Trucking Waiting, Report]
     \<and> is_present (dock_truck (shm (ww st))) \<and> truck_ok (dock_truck (shm (ww st)))"
proof -
  from first_package obtain st where st: "wh_reachable st" "map pr_stage (w_ps st) = [PopTest, Trucking Waiting, Report]"
    "map pr_mode (w_ps st) = [Here, Here, Here]" by (elim exE conjE)
  then obtain b where "b \<in> set (w_ps st)" "pr_stage b = Trucking Waiting" "pr_mode b = Here" by (fastforce simp: map_eq_Cons_conv)
  then have "b \<in> set (w_ps st)" "at_dock (fleet_pc b)" by (simp_all add: fleet_pc_def)
  then have "is_present (dock_truck (shm (ww st))) \<and> truck_ok (dock_truck (shm (ww st)))"
    using warehouse_dock [OF st(1)] by metis
  with st(1,2) show ?thesis by metis
qed

end
