(* ===== verification/Warehouse_Sessions.thy ===== *)
theory Warehouse_Sessions
  imports Warehouse_Run
begin

text \<open>
  The session table and the worker count in the whole system.

  Every process determines what it has in the shared tables: its slot of the session table with the
  complete contents of that slot, and whether it counts as a worker of the belt.  In every reachable
  state the shared tables are exactly what the processes say.  So a session belongs to one process,
  an index a process keeps is valid whenever it is used, and no method under the belt mutex is
  undefined.
\<close>

section \<open>What a process has in the tables\<close>

fun logged_in :: "stage \<Rightarrow> bool" where
  "logged_in Login = False"
| "logged_in Failed = False"
| "logged_in Finished = False"
| "logged_in _ = True"

fun on_shift :: "stage \<Rightarrow> bool" where
  "on_shift WorkTest = True"
| "on_shift TrySpawn = True"
| "on_shift Push = True"
| "on_shift Report = True"
| "on_shift Unregister = True"
| "on_shift _ = False"

text \<open>The index of the slot, the process count in it, and the share of the worker count.\<close>

definition slot :: "process \<Rightarrow> int option" where
  "slot p = (case pr_mode p of
     BeltUnlock (LoginC n r org m q) (Session ok k) \<Rightarrow> if ok then Some k else None
   | BeltUnlock (LogoutC k) a \<Rightarrow> None
   | _ \<Rightarrow> if logged_in (pr_stage p) then Some (pr_sess p) else None)"

definition busy :: "process \<Rightarrow> int" where
  "busy p = (case pr_mode p of
     BeltUnlock (SpawnC k) (Flag ok) \<Rightarrow> if ok then 1 else 0
   | BeltUnlock (ReportC k) a \<Rightarrow> 0
   | _ \<Rightarrow> if pr_stage p = Push \<or> pr_stage p = Report then 1 else 0)"

definition registered :: "process \<Rightarrow> int" where
  "registered p = (case pr_mode p of
     BeltUnlock RegisterC (Flag ok) \<Rightarrow> if ok then 1 else 0
   | BeltUnlock UnregisterC a \<Rightarrow> 0
   | _ \<Rightarrow> if on_shift (pr_stage p) then 1 else 0)"

lemmas share_defs = slot_def busy_def registered_def

definition share :: "process \<Rightarrow> int option \<times> int \<times> int \<times> pid_t \<times> role_kind" where
  "share p = (slot p, busy p, registered p, pr_pid p, pr_kind p)"

definition entry :: "process \<Rightarrow> UserSession" where
  "entry p = (case credentials (pr_kind p) of (n, r, org, m) \<Rightarrow>
     (new_session n r org m (pr_pid p))\<lparr>current_processes := busy p\<rparr>)"

definition sess_inv :: "warehouse \<Rightarrow> bool" where
  "sess_inv st \<longleftrightarrow> sessions_inv (shm (ww st))
     \<and> (\<forall>p \<in> set (w_ps st). \<forall>k. slot p = Some k \<longrightarrow>
          0 \<le> k \<and> k < MAX_USERS_SESSIONS \<and> users (shm (ww st)) ! nat k = entry p)
     \<and> (\<forall>k < length (users (shm (ww st))). active (users (shm (ww st)) ! k) \<longrightarrow>
          (\<exists>p \<in> set (w_ps st). slot p = Some (int k)))
     \<and> current_workers_count (shm (ww st)) = sum_list (map registered (w_ps st))"

lemma entry_simps [simp]:
  "active (entry p)" "session_pid (entry p) = pr_pid p" "role (entry p) = fst (snd (credentials (pr_kind p)))"
  "current_processes (entry p) = busy p" "cname (entry p) = login_key (fst (credentials (pr_kind p)))"
proof -
  obtain n r org m where c: "credentials (pr_kind p) = (n, r, org, m)" by (cases "credentials (pr_kind p)")
  show "active (entry p)" "session_pid (entry p) = pr_pid p" "role (entry p) = fst (snd (credentials (pr_kind p)))"
    "current_processes (entry p) = busy p"
    by (simp_all add: entry_def c new_session_def)
  show "cname (entry p) = login_key (fst (credentials (pr_kind p)))"
    using cname_new_session [of n r org m "pr_pid p"] by (simp add: entry_def c login_key_def cname_def)
qed

section \<open>Steps outside the sections\<close>

text \<open>Only a section under the belt mutex changes the tables or the share of a process in them.\<close>

fun plain_mode :: "mode \<Rightarrow> bool" where
  "plain_mode (BeltUnlock c a) = False"
| "plain_mode _ = True"

lemma share_mode: "plain_mode (pr_mode p) \<Longrightarrow> plain_mode m \<Longrightarrow> share (p\<lparr>pr_mode := m\<rparr>) = share p"
  by (cases m; cases "pr_mode p") (simp_all add: share_def share_defs)

lemma first_stage_share [simp]:
  "logged_in (first_stage k)" "\<not> on_shift (first_stage k)" "first_stage k \<noteq> Push" "first_stage k \<noteq> Report"
  by (cases k; simp)+

lemma share_stage:
  assumes "pr_mode p = Here" "logged_in x = logged_in (pr_stage p)" "on_shift x = on_shift (pr_stage p)"
    "x = Push \<or> x = Report \<longleftrightarrow> pr_stage p = Push \<or> pr_stage p = Report"
  shows "share (p\<lparr>pr_stage := x\<rparr>) = share p"
  using assms by (auto simp: share_def share_defs)

lemma share_after_call:
  assumes "calls p c" "reply_ok c a" "pr_mode p = BeltPost c a" "last_sem c a = Some k"
  shows "share (after_call a p) = share p"
  using assms by (cases c) (auto simp: calls_stage share_def share_defs split: if_splits)

lemma share_leave_call:
  assumes "calls p c" "reply_ok c a" "pr_mode p = BeltUnlock c a"
  shows "share (leave_call c a p) = share p"
  using assms by (cases c) (auto simp: calls_stage leave_call_def share_def share_defs split: if_splits)

lemma share_after_dock:
  assumes "docks p c" "pr_mode p = DockUnlock c b"
  shows "share (p\<lparr>pr_stage := after_dock b (pr_stage p), pr_mode := Here\<rparr>) = share p"
  using assms docks_stage [OF assms(1)]
  by (cases c) (auto simp: share_def share_defs split: if_splits)

lemma share_local_test:
  assumes "local_test stop run (pr_stage p) = Some x" "pr_mode p = Here"
  shows "share (p\<lparr>pr_stage := x\<rparr>) = share p"
  using assms by (intro share_stage; cases "(stop, run, pr_stage p)" rule: local_test.cases) (auto split: if_splits)

lemma share_after_signal:
  assumes "after_signal sig run (pr_stage p) = Some x" "pr_mode p = Here"
  shows "share (p\<lparr>pr_stage := x\<rparr>) = share p"
  using assms by (intro share_stage; cases "(sig, run, pr_stage p)" rule: after_signal.cases) (auto split: if_splits)

lemma map_share_set:
  "i < length ps \<Longrightarrow> share p = share (ps ! i) \<Longrightarrow> map share (ps[i := p]) = map share ps"
  by (metis list_update_id map_update)

lemma same_belt_fields_refl [simp]: "same_belt_fields s s" "same_belt_fields s (s\<lparr>running := b\<rparr>)"
  by (simp_all add: same_belt_fields_def)

lemma share_step:
  assumes reach: "wh_reachable st" and step: "wh_step st st'"
  shows "(\<exists>i c a s'. i < length (w_ps st) \<and> pr_mode (w_ps st ! i) = InBelt c \<and> call_body c (shm (ww st)) = Some (a, s')
       \<and> w_ps st' = (w_ps st)[i := (w_ps st ! i)\<lparr>pr_mode := BeltUnlock c a\<rparr>] \<and> shm (ww st') = s')
     \<or> map share (w_ps st') = map share (w_ps st) \<and> same_belt_fields (shm (ww st)) (shm (ww st'))"
proof -
  note k = wh_world(1) [OF reach] and okn = procs_ok_nth [OF wh_procs.inv_reachable [OF reach]]
  have sem: "same_belt_fields (shm (ww st)) (shm w')" if "semOperation j v (ww st) = Done () w'" for j v w'
    using semOperation_DoneD [OF that k] by simp
  from step show ?thesis
  proof cases
    case (call i p d c)
    then show ?thesis using share_mode [of p] by (intro disjI2 conjI) (auto intro!: map_share_set)
  next
    case (wait i p c j w')
    then show ?thesis using share_mode [of p] sem by (intro disjI2 conjI) (auto intro!: map_share_set)
  next
    case (lock i p c w')
    then show ?thesis using share_mode [of p] sem
      by (intro disjI2 conjI) (auto simp: lockBelt_def intro!: map_share_set)
  next
    case (body i p c a s')
    then show ?thesis by (intro disjI1 exI [of _ i] exI [of _ c] exI [of _ a] exI [of _ s']) simp
  next
    case (unlock i p c a w')
    then have "calls p c" "reply_ok c a" using okn [OF unlock(2)] by (auto simp: proc_ok_def mode_ok_def)
    then show ?thesis using unlock share_leave_call sem
      by (intro disjI2 conjI) (auto simp: unlockBelt_def intro!: map_share_set)
  next
    case (post i p c a j w')
    then have "calls p c" "reply_ok c a" using okn [OF post(2)] by (auto simp: proc_ok_def mode_ok_def)
    then show ?thesis using post share_after_call sem by (intro disjI2 conjI) (auto intro!: map_share_set)
  next
    case (dock i p r ds c)
    then show ?thesis using share_mode [of p] by (intro disjI2 conjI) (auto intro!: map_share_set)
  next
    case (dlock i p c w')
    then show ?thesis using share_mode [of p] sem
      by (intro disjI2 conjI) (auto simp: lockDock_def intro!: map_share_set)
  next
    case (dbody i p c b w')
    then show ?thesis using share_mode [of p] dock_section_frame [OF k dbody(5)]
      by (intro disjI2 conjI) (auto simp: dock_frame_def intro!: map_share_set)
  next
    case (dunlock i p c b w')
    then have "docks p c" using okn [OF dunlock(2)] by (auto simp: proc_ok_def mode_ok_def)
    then show ?thesis using dunlock share_after_dock sem
      by (intro disjI2 conjI) (auto simp: unlockDock_def intro!: map_share_set)
  next
    case (test i p stop x)
    then show ?thesis using share_local_test by (intro disjI2 conjI) (auto intro!: map_share_set)
  next
    case (receive i p w1 sig w' x)
    then show ?thesis using share_after_signal receive_msg_frame [OF k receive(5,6)]
      by (intro disjI2 conjI) (auto simp: msg_frame_def intro!: map_share_set)
  next
    case (command i p cmd r out act w')
    then show ?thesis using command_msg_frame [OF k command(6,8)]
      by (intro disjI2 conjI) (auto simp: msg_frame_def intro!: map_share_set share_stage)
  next
    case (halt i p r)
    then show ?thesis by (intro disjI2 conjI) (auto intro!: map_share_set share_stage)
  next
    case (notify i p n u w')
    then have "shm w' = shm (ww st)"
      using send_msg_frame [OF k, of "session_pid u"] by (auto simp: msg_frame_def split: if_splits)
    then show ?thesis using notify by (intro disjI2 conjI) (auto intro!: map_share_set share_stage)
  next
    case (halted i p)
    then show ?thesis by (intro disjI2 conjI) (auto intro!: map_share_set share_stage)
  next
    case master
    then show ?thesis by simp
  qed
qed

text \<open>The invariant depends on the shares and on the tables only.\<close>

lemma sess_inv_cong:
  assumes "map share (w_ps st') = map share (w_ps st)" "same_belt_fields (shm (ww st)) (shm (ww st'))"
  shows "sess_inv st' \<longleftrightarrow> sess_inv st"
proof -
  define row where "row = (\<lambda>us (x :: int option \<times> int \<times> int \<times> pid_t \<times> role_kind). \<forall>k. fst x = Some k \<longrightarrow>
     0 \<le> k \<and> k < MAX_USERS_SESSIONS \<and> us ! nat k = (case credentials (snd (snd (snd (snd x)))) of (n, r, org, m) \<Rightarrow>
       (new_session n r org m (fst (snd (snd (snd x)))))\<lparr>current_processes := fst (snd x)\<rparr>))"
  have sm: "sess_inv st \<longleftrightarrow> sessions_inv (shm (ww st)) \<and> (\<forall>x \<in> set (map share (w_ps st)). row (users (shm (ww st))) x)
     \<and> (\<forall>k < length (users (shm (ww st))). active (users (shm (ww st)) ! k) \<longrightarrow> (\<exists>x \<in> set (map share (w_ps st)). fst x = Some (int k)))
     \<and> current_workers_count (shm (ww st)) = sum_list (map (fst \<circ> snd \<circ> snd) (map share (w_ps st)))" for st
    by (simp add: sess_inv_def row_def share_def entry_def comp_def)
  show ?thesis unfolding sm assms(1) using assms(2) by (simp add: same_belt_fields_def sessions_inv_def)
qed

section \<open>The sections\<close>

lemma sess_row:
  assumes "sess_inv st" "p \<in> set (w_ps st)" "slot p = Some k"
  shows "0 \<le> k" "k < MAX_USERS_SESSIONS" "users (shm (ww st)) ! nat k = entry p" "nat k < length (users (shm (ww st)))"
  using assms by (auto simp: sess_inv_def sessions_inv_def)

lemma slot_unique:
  assumes "sess_inv st" "procs_ok st" "p \<in> set (w_ps st)" "q \<in> set (w_ps st)" "slot p = Some k" "slot q = Some k"
  shows "p = q"
proof (rule inj_onD [of pr_pid "set (w_ps st)"])
  show "inj_on pr_pid (set (w_ps st))" using assms(2) by (simp add: procs_ok_def distinct_map)
  have "entry p = entry q" using sess_row(3) [OF assms(1)] assms(3-6) by metis
  then show "pr_pid p = pr_pid q" by (metis entry_simps(2))
qed (use assms in auto)

text \<open>A section changes at most the row of its process.\<close>

lemma sess_inv_row:
  assumes inv: "sess_inv st" and ok: "procs_ok st" and i: "i < length (w_ps st)"
    and ps: "w_ps st' = (w_ps st)[i := p']"
    and tab: "sessions_inv (shm (ww st'))"
    and mine: "\<And>k. slot p' = Some k \<Longrightarrow>
        0 \<le> k \<and> k < MAX_USERS_SESSIONS \<and> users (shm (ww st')) ! nat k = entry p'"
    and rest: "\<And>k. active (users (shm (ww st)) ! k) \<Longrightarrow> slot (w_ps st ! i) \<noteq> Some (int k) \<Longrightarrow>
        users (shm (ww st')) ! k = users (shm (ww st)) ! k"
    and other: "\<And>k. k < length (users (shm (ww st))) \<Longrightarrow> active (users (shm (ww st')) ! k) \<Longrightarrow>
        slot p' = Some (int k) \<or> active (users (shm (ww st)) ! k) \<and> slot (w_ps st ! i) \<noteq> Some (int k)"
    and count: "current_workers_count (shm (ww st')) =
        current_workers_count (shm (ww st)) - registered (w_ps st ! i) + registered p'"
  shows "sess_inv st'"
proof -
  have len: "length (users (shm (ww st'))) = length (users (shm (ww st)))"
    using inv tab by (simp add: sess_inv_def sessions_inv_def)
  have p: "w_ps st ! i \<in> set (w_ps st)" using i by simp
  have row: "0 \<le> k \<and> k < MAX_USERS_SESSIONS \<and> users (shm (ww st')) ! nat k = entry q"
    if q: "q \<in> set (w_ps st')" "slot q = Some k" for q k
  proof (cases "q = p'")
    case False
    then obtain j where j: "j < length (w_ps st)" "j \<noteq> i" "q = w_ps st ! j"
      using q(1) i unfolding ps by (auto simp: in_set_conv_nth nth_list_update split: if_splits)
    then have qin: "q \<in> set (w_ps st)" "q \<noteq> w_ps st ! i"
      using ok i nth_eq_iff_index_eq [of "map pr_pid (w_ps st)" j i] by (auto simp: procs_ok_def)
    note r = sess_row [OF inv qin(1) q(2)]
    have "slot (w_ps st ! i) \<noteq> Some (int (nat k))" using slot_unique [OF inv ok qin(1) p q(2)] qin(2) r(1) by auto
    then show ?thesis using r rest [of "nat k"] by simp
  qed (use mine q in blast)
  have "\<exists>q \<in> set (w_ps st'). slot q = Some (int k)"
    if k: "k < length (users (shm (ww st)))" "active (users (shm (ww st')) ! k)" for k
    using other [OF k]
  proof
    assume "slot p' = Some (int k)"
    then show ?thesis using set_update_memI [OF i, of p'] ps by auto
  next
    assume a: "active (users (shm (ww st)) ! k) \<and> slot (w_ps st ! i) \<noteq> Some (int k)"
    then obtain q where "q \<in> set (w_ps st)" "slot q = Some (int k)" using inv k(1) by (auto simp: sess_inv_def)
    with a obtain j where "j < length (w_ps st)" "j \<noteq> i" "slot (w_ps st ! j) = Some (int k)"
      by (auto simp: in_set_conv_nth)
    then show ?thesis unfolding ps by (metis length_list_update nth_list_update_neq nth_mem)
  qed
  moreover have "sum_list (map registered (w_ps st')) = sum_list (map registered (w_ps st)) - registered (w_ps st ! i) + registered p'"
    unfolding ps using i by (simp add: sum_list_map_update)
  ultimately show ?thesis using tab row count inv len by (auto simp: sess_inv_def)
qed

text \<open>The row of a logged-in process, as the session manager sees it.\<close>

lemma row_index_ok:
  assumes "sess_inv st" "p \<in> set (w_ps st)" "slot p = Some k"
  shows "session_index_ok k (shm (ww st))" "k \<noteq> -1" "slot_of k (shm (ww st)) = entry p"
  using sess_row [OF assms] by (auto simp: session_index_ok_def slot_of_def)

lemma credentials_quota: "credentials k = (n, r, org, m) \<Longrightarrow> 0 \<le> m \<and> m \<le> INT32_MAX"
  by (cases k) (auto simp: INT32_MAX_def)

lemma sess_body_login:
  assumes inv: "sess_inv st" and ok: "procs_ok st" and i: "i < length (w_ps st)" "p = w_ps st ! i"
    and c: "c = LoginC n r org m q" "calls p c" "pr_mode p = InBelt c"
    and b: "call_body c (shm (ww st)) = Some (a, s')"
    and st': "w_ps st' = (w_ps st)[i := p\<lparr>pr_mode := BeltUnlock c a\<rparr>]" "shm (ww st') = s'"
  shows "sess_inv st'"
proof -
  define s where "s = shm (ww st)"
  have cr: "pr_stage p = Login" "credentials (pr_kind p) = (n, r, org, m)" "q = pr_pid p"
    using c by (auto simp: calls_stage)
  have s: "sessions_inv s" using inv by (simp add: sess_inv_def s_def)
  have none: "slot p = None" "registered p = 0" using cr(1) c(3) by (simp_all add: share_defs)
  obtain ok' k where a: "a = Session ok' k" "login_body n r org m q (-1) s = Some ((ok', k), s')"
    using b c(1) by (auto simp: s_def)
  have reg: "registered (p\<lparr>pr_mode := BeltUnlock c a\<rparr>) = 0" using cr(1) a c(1) by (simp add: share_defs)
  show ?thesis
  proof (cases ok')
    case False
    then have "s' = s" using a(2) login_body_cases [OF s, of n r org m q "-1"] by (auto simp: Let_def split: if_splits)
    moreover have "slot (p\<lparr>pr_mode := BeltUnlock c a\<rparr>) = None" using False a c(1) by (simp add: slot_def)
    ultimately show ?thesis
      using none reg st' s i by (intro sess_inv_row [OF inv ok i(1) st'(1)]) (auto simp: s_def)
  next
    case True
    then have "session_of (take 31 (c_str n)) s = None" "\<exists>u \<in> set (users s). \<not> active u"
      using a(2) login_body_cases [OF s, of n r org m q "-1"] by (auto simp: Let_def split: if_splits)
    from login_body_success [OF s this, of m r org q "-1"] credentials_quota [OF cr(2)]
    have l: "sessions_inv s'" "session_index_ok k s'" "k \<noteq> -1" "\<not> active (users s ! nat k)"
      "users s' = (users s)[nat k := new_session n r org m q]" "s' = s\<lparr>users := users s'\<rparr>"
      using a(2) True by auto
    have sl: "slot (p\<lparr>pr_mode := BeltUnlock c a\<rparr>) = Some k" using True a c(1) by (simp add: slot_def)
    have en: "entry (p\<lparr>pr_mode := BeltUnlock c a\<rparr>) = new_session n r org m q"
      using cr a c(1) by (simp add: entry_def busy_def new_session_def)
    have k: "0 \<le> k" "k < MAX_USERS_SESSIONS" "nat k < length (users s)"
      using l(2,3) s by (auto simp: session_index_ok_def sessions_inv_def)
    show ?thesis
    proof (rule sess_inv_row [OF inv ok i(1) st'(1)])
      show "sessions_inv (shm (ww st'))" using l(1) st'(2) by simp
      show "0 \<le> j \<and> j < MAX_USERS_SESSIONS \<and> users (shm (ww st')) ! nat j = entry (p\<lparr>pr_mode := BeltUnlock c a\<rparr>)"
        if "slot (p\<lparr>pr_mode := BeltUnlock c a\<rparr>) = Some j" for j
        using that sl k l(5) st'(2) by (simp add: en)
      show "users (shm (ww st')) ! j = users (shm (ww st)) ! j" if "active (users (shm (ww st)) ! j)" for j
        using that l(4,5) st'(2) k(3) by (auto simp: nth_list_update s_def)
      show "slot (p\<lparr>pr_mode := BeltUnlock c a\<rparr>) = Some (int j) \<or>
          active (users (shm (ww st)) ! j) \<and> slot (w_ps st ! i) \<noteq> Some (int j)"
        if "j < length (users (shm (ww st)))" "active (users (shm (ww st')) ! j)" for j
        using that l(5) st'(2) sl none i(2) k by (auto simp: nth_list_update s_def split: if_splits)
      show "current_workers_count (shm (ww st')) = current_workers_count (shm (ww st)) - registered (w_ps st ! i)
          + registered (p\<lparr>pr_mode := BeltUnlock c a\<rparr>)"
        using l(6) none(2) reg i(2) st'(2) by (metis SharedState.select_convs(4) SharedState.surjective SharedState.update_convs(12) s_def add_0_right diff_zero)
    qed
  qed
qed

lemma sess_body_logout:
  assumes inv: "sess_inv st" and ok: "procs_ok st" and i: "i < length (w_ps st)" "p = w_ps st ! i"
    and c: "c = LogoutC k" "calls p c" "pr_mode p = InBelt c"
    and b: "call_body c (shm (ww st)) = Some (a, s')"
    and st': "w_ps st' = (w_ps st)[i := p\<lparr>pr_mode := BeltUnlock c a\<rparr>]" "shm (ww st') = s'"
  shows "sess_inv st'"
proof -
  define s where "s = shm (ww st)"
  have p: "pr_stage p = Logout" "k = pr_sess p" "p \<in> set (w_ps st)" using c i by (auto simp: calls_stage)
  have sl: "slot p = Some k" "registered p = 0" using p c(3) by (simp_all add: share_defs)
  have s: "sessions_inv s" using inv by (simp add: sess_inv_def s_def)
  note r = sess_row [OF inv p(3) sl(1)]
  obtain x where "logout_body k s = Some (x, s')" using b c(1) by (auto simp: s_def)
  note l0 = this
  have "sessions_inv s'" using logout_body_spec [OF s, of k] row_index_ok [OF inv p(3) sl(1)] l0 by (auto simp: s_def)
  moreover have "\<exists>u. \<not> active u \<and> s' = s\<lparr>users := (users s)[nat k := u]\<rparr>"
    using l0 by (intro exI [of _ "(users s ! nat k)\<lparr>active := False, role := UserRole_None, orgId := 0, current_processes := 0\<rparr>"])
      (auto simp: logout_body_def bind_eq_Some_conv aget_eq_Some_iff aset_eq_Some_iff)
  ultimately have l: "sessions_inv s'" "\<exists>u. \<not> active u \<and> s' = s\<lparr>users := (users s)[nat k := u]\<rparr>" by blast+
  have none: "slot (p\<lparr>pr_mode := BeltUnlock c a\<rparr>) = None" "registered (p\<lparr>pr_mode := BeltUnlock c a\<rparr>) = 0"
    using c(1) p(1) by (simp_all add: share_defs)
  show ?thesis using l r none sl i(2) st'(2)
    by (intro sess_inv_row [OF inv ok i(1) st'(1)]) (auto simp: s_def nth_list_update split: if_splits)
qed

text \<open>The quota: a worker has one process in its slot while it makes a package, and none otherwise.\<close>

lemma sess_body_quota:
  assumes inv: "sess_inv st" and ok: "procs_ok st" and i: "i < length (w_ps st)" "p = w_ps st ! i"
    and c: "c = SpawnC k \<or> c = ReportC k" "calls p c" "pr_mode p = InBelt c"
    and b: "call_body c (shm (ww st)) = Some (a, s')"
    and st': "w_ps st' = (w_ps st)[i := p\<lparr>pr_mode := BeltUnlock c a\<rparr>]" "shm (ww st') = s'"
  shows "sess_inv st'"
proof -
  define s where "s = shm (ww st)"
  define n :: int where "n = (if c = SpawnC k then 1 else 0)"
  have p: "k = pr_sess p" "p \<in> set (w_ps st)" "pr_stage p = (if c = SpawnC k then TrySpawn else Report)"
    using c(1,2) i by (auto simp: calls_stage)
  have sl: "slot p = Some k" "registered p = 1" "busy p = 1 - n"
    using p c(1,3) by (auto simp: share_defs n_def)
  have s: "sessions_inv s" using inv by (simp add: sess_inv_def s_def)
  note r = sess_row [OF inv p(2) sl(1)] and x = row_index_ok [OF inv p(2) sl(1), folded s_def]
  obtain w where kind: "pr_kind p = WorkerR w"
    using ok p(2,3) c(1) by (fastforce simp: procs_ok_def proc_ok_def kind_stage_def split: if_splits)
  have e: "current_processes (entry p) = 1 - n" "max_processes (entry p) = 10"
    using sl(3) by (simp_all add: entry_def kind new_session_def)
  have "s' = set_processes k n s \<and> a = Flag True"
    using b c(1) e x(3) trySpawnProcess_body_spec [OF s x(1,2)] reportProcessFinished_body_spec [OF s x(1,2)]
    by (auto simp: s_def n_def)
  then have s': "s' = set_processes k n s" "a = Flag True" by simp_all
  have sl': "slot (p\<lparr>pr_mode := BeltUnlock c a\<rparr>) = Some k" "registered (p\<lparr>pr_mode := BeltUnlock c a\<rparr>) = 1"
    "busy (p\<lparr>pr_mode := BeltUnlock c a\<rparr>) = n"
    using p c(1) s'(2) by (auto simp: share_defs n_def)
  have en: "entry (p\<lparr>pr_mode := BeltUnlock c a\<rparr>) = (entry p)\<lparr>current_processes := n\<rparr>"
    by (simp add: entry_def sl' split: prod.split)
  have tab: "sessions_inv s'" unfolding s'(1) by (rule sessions_inv_set_processes [OF s x(1,2)]) (simp_all add: n_def x(3) e)
  show ?thesis using tab r sl sl' i(2) st'(2) en x(3)
    by (intro sess_inv_row [OF inv ok i(1) st'(1)])
      (auto simp: s_def s'(1) set_processes_def nth_list_update split: if_splits)
qed

text \<open>The methods of the belt leave the session table alone; registration counts the worker.\<close>

lemma belt_reachable_inv:
  assumes "wh_reachable st"
  shows "belt_inv (shm (ww st))"
  using conc_reachable_inv [OF belt_refinement.abs_reachable [OF assms]] by (simp add: queue_inv_def)

lemma registered_nonneg: "0 \<le> registered p" "registered p \<le> 1"
  by (auto simp: registered_def split: mode.split mcall.split reply.split)

lemma sess_body_belt:
  assumes reach: "wh_reachable st" and inv: "sess_inv st" and i: "i < length (w_ps st)" "p = w_ps st ! i"
    and c: "c = RegisterC \<or> c = UnregisterC \<or> c = PopC \<or> (\<exists>x. c = PushC x)" "calls p c" "pr_mode p = InBelt c"
    and b: "call_body c (shm (ww st)) = Some (a, s')"
    and st': "w_ps st' = (w_ps st)[i := p\<lparr>pr_mode := BeltUnlock c a\<rparr>]" "shm (ww st') = s'"
  shows "sess_inv st'"
proof -
  define s where "s = shm (ww st)"
  note ok = wh_procs.inv_reachable [OF reach] and belt = belt_reachable_inv [OF reach, folded s_def]
  have us: "users s' = users s"
    using b c(1) by (auto simp: s_def registerWorker_body_def unregisterWorker_body_def push_body_def pop_body_def
        Let_def bind_eq_Some_conv split: if_splits)
  have one: "registered p \<le> current_workers_count s"
    using inv sum_list_map_ge_member [of registered i "w_ps st"] registered_nonneg i by (simp add: sess_inv_def s_def)
  have count: "current_workers_count s' = current_workers_count s - registered p
      + registered (p\<lparr>pr_mode := BeltUnlock c a\<rparr>)"
    using c(1)
  proof (elim disjE exE)
    assume "c = RegisterC"
    then show ?thesis using b c(2,3) registerWorker_body_spec [OF belt]
      by (auto simp: s_def calls_stage share_defs split: if_splits)
  next
    assume "c = UnregisterC"
    then show ?thesis using b c(2,3) unregisterWorker_body_spec [OF belt] one
      by (auto simp: s_def calls_stage share_defs)
  qed (use b c(2,3) in \<open>auto simp: s_def calls_stage share_defs push_body_def pop_body_def Let_def bind_eq_Some_conv
      split: if_splits\<close>)
  have sl: "slot (p\<lparr>pr_mode := BeltUnlock c a\<rparr>) = slot p" "busy (p\<lparr>pr_mode := BeltUnlock c a\<rparr>) = busy p"
    using c by (auto simp: share_defs)
  then have en: "entry (p\<lparr>pr_mode := BeltUnlock c a\<rparr>) = entry p" by (simp add: entry_def)
  have p: "p \<in> set (w_ps st)" using i by simp
  show ?thesis using inv us count sl en i(2) st'(2) sess_row [OF inv p]
    by (intro sess_inv_row [OF inv ok i(1) st'(1)]) (auto simp: s_def sess_inv_def sessions_inv_def)
qed

lemma sess_inv_body:
  assumes reach: "wh_reachable st" and inv: "sess_inv st" and i: "i < length (w_ps st)"
    and m: "pr_mode (w_ps st ! i) = InBelt c" and b: "call_body c (shm (ww st)) = Some (a, s')"
    and st': "w_ps st' = (w_ps st)[i := (w_ps st ! i)\<lparr>pr_mode := BeltUnlock c a\<rparr>]" "shm (ww st') = s'"
  shows "sess_inv st'"
proof -
  note ok = wh_procs.inv_reachable [OF reach]
  have c: "calls (w_ps st ! i) c" using procs_ok_nth [OF ok i] m by (simp add: proc_ok_def mode_ok_def)
  show ?thesis
  proof (cases c)
    case (LoginC n r org mx q)
    show ?thesis by (rule sess_body_login [OF inv ok i refl LoginC c m b st'])
  next
    case (LogoutC k)
    show ?thesis by (rule sess_body_logout [OF inv ok i refl LogoutC c m b st'])
  next
    case (SpawnC k)
    show ?thesis by (rule sess_body_quota [OF inv ok i refl disjI1 [OF SpawnC] c m b st'])
  next
    case (ReportC k)
    show ?thesis by (rule sess_body_quota [OF inv ok i refl disjI2 [OF ReportC] c m b st'])
  qed (use sess_body_belt [OF reach inv i refl _ c m b st'] in blast)+
qed

interpretation wh_sessions: inductive_invariant wh_init wh_step sess_inv
proof unfold_locales
  show "sess_inv st" if "wh_init st" for st
  proof -
    have p: "slot p = None" "registered p = 0" if "p \<in> set (w_ps st)" for p
      using that \<open>wh_init st\<close> by (auto simp: wh_init_def started_def share_defs)
    then have "map registered (w_ps st) = map (\<lambda>p. 0) (w_ps st)" by simp
    then have "sum_list (map registered (w_ps st)) = 0" by (simp only:) simp
    then show ?thesis using that p boot_sessions
      by (auto simp: wh_init_def sess_inv_def sessions_inv_init init_shm_def zero_SharedState_def zero_UserSession_def)
  qed
  show "sess_inv st'" if "reachable wh_init wh_step st" "sess_inv st" "wh_step st st'" for st st'
    using share_step [OF that(1,3)] sess_inv_body [OF that(1,2)] sess_inv_cong [of st' st] that(2) by metis
qed

section \<open>Properties\<close>

lemma quiet_slot:
  "pr_mode p = Here \<Longrightarrow> logged_in (pr_stage p) \<Longrightarrow> slot p = Some (pr_sess p)"
  by (simp add: slot_def)

lemma row_session_of:
  assumes "sess_inv st" "p \<in> set (w_ps st)" "slot p = Some k"
  shows "session_of (login_key (fst (credentials (pr_kind p)))) (shm (ww st)) = Some (pr_pid p)"
proof -
  note r = sess_row [OF assms]
  have "sessions_inv (shm (ww st))" using assms(1) by (simp add: sess_inv_def)
  from session_of_active [OF this r(4)] show ?thesis by (simp add: r(3))
qed

lemma current_role:
  assumes "wh_reachable st" "p \<in> set (w_ps st)" "pr_mode p = Here" "logged_in (pr_stage p)"
  shows "getCurrentRole (pr_sess p) (ww st) = Some (fst (snd (credentials (pr_kind p))))"
proof -
  note s = wh_sessions.inv_reachable [OF assms(1)]
  note r = sess_row [OF s assms(2) quiet_slot [OF assms(3,4)]]
  have "pr_sess p < int (length (users (shm (ww st))))" using r(1,4) by linarith
  then show ?thesis using r wh_world(2) [OF assms(1)] by (simp add: getCurrentRole_def aget_def)
qed

text \<open>
  C4: sessions in the whole system.  Under every interleaving, a process that is logged in has exactly
  one slot of the session table, with its own name, role and pid, and the console finds its pid under
  its name; the quota counter of the slot counts the package a worker has in progress.  Every active
  slot belongs to exactly one process, and two processes are never logged in under the same name.  The
  worker count of the belt is the number of workers on shift.
\<close>

theorem warehouse_sessions:
  assumes "wh_reachable st"
  shows "(\<forall>p \<in> set (w_ps st). \<forall>k. slot p = Some k \<longrightarrow> 0 \<le> k \<and> k < MAX_USERS_SESSIONS
          \<and> active (users (shm (ww st)) ! nat k) \<and> session_pid (users (shm (ww st)) ! nat k) = pr_pid p
          \<and> role (users (shm (ww st)) ! nat k) = fst (snd (credentials (pr_kind p)))
          \<and> current_processes (users (shm (ww st)) ! nat k) = busy p
          \<and> session_of (login_key (fst (credentials (pr_kind p)))) (shm (ww st)) = Some (pr_pid p))
     \<and> (\<forall>k < length (users (shm (ww st))). active (users (shm (ww st)) ! k) \<longrightarrow>
          (\<exists>!p. p \<in> set (w_ps st) \<and> slot p = Some (int k)))
     \<and> (\<forall>p \<in> set (w_ps st). \<forall>q \<in> set (w_ps st). slot p \<noteq> None \<and> slot q \<noteq> None
          \<and> login_key (fst (credentials (pr_kind p))) = login_key (fst (credentials (pr_kind q))) \<longrightarrow> p = q)
     \<and> current_workers_count (shm (ww st)) = sum_list (map registered (w_ps st))
     \<and> current_workers_count (shm (ww st)) \<le> MAX_WORKERS_PER_BELT"
proof -
  note s = wh_sessions.inv_reachable [OF assms] and ok = wh_procs.inv_reachable [OF assms]
  have row: "0 \<le> k \<and> k < MAX_USERS_SESSIONS \<and> active (users (shm (ww st)) ! nat k)
      \<and> session_pid (users (shm (ww st)) ! nat k) = pr_pid p
      \<and> role (users (shm (ww st)) ! nat k) = fst (snd (credentials (pr_kind p)))
      \<and> current_processes (users (shm (ww st)) ! nat k) = busy p
      \<and> session_of (login_key (fst (credentials (pr_kind p)))) (shm (ww st)) = Some (pr_pid p)"
    if "p \<in> set (w_ps st)" "slot p = Some k" for p k
    using sess_row [OF s that] row_session_of [OF s that] by simp
  have "\<exists>!p. p \<in> set (w_ps st) \<and> slot p = Some (int k)"
    if "k < length (users (shm (ww st)))" "active (users (shm (ww st)) ! k)" for k
    using that s slot_unique [OF s ok] unfolding sess_inv_def by blast
  moreover have "p = q" if "p \<in> set (w_ps st)" "q \<in> set (w_ps st)" "slot p \<noteq> None" "slot q \<noteq> None"
    "login_key (fst (credentials (pr_kind p))) = login_key (fst (credentials (pr_kind q)))" for p q
  proof (rule inj_onD [of pr_pid "set (w_ps st)"])
    show "inj_on pr_pid (set (w_ps st))" using ok by (simp add: procs_ok_def distinct_map)
    show "pr_pid p = pr_pid q" using that row_session_of [OF s] by (metis option.exhaust option.inject)
  qed (use that in auto)
  moreover have "current_workers_count (shm (ww st)) = sum_list (map registered (w_ps st))"
    using s by (simp add: sess_inv_def)
  moreover have "current_workers_count (shm (ww st)) \<le> MAX_WORKERS_PER_BELT"
    using belt_reachable_inv [OF assms] by (simp add: belt_inv_def)
  ultimately show ?thesis using row by simp
qed

theorem warehouse_sessions_witness:
  "\<exists>st. wh_reachable st \<and> map pr_kind (w_ps st) = [DispatcherR, TruckR 1, WorkerR 1]
     \<and> current_workers_count (shm (ww st)) = 1"
proof -
  from first_package obtain st where st: "wh_reachable st" "map pr_kind (w_ps st) = [DispatcherR, TruckR 1, WorkerR 1]"
    "map pr_stage (w_ps st) = [PopTest, Trucking Waiting, Report]" "map pr_mode (w_ps st) = [Here, Here, Here]"
    by (elim exE conjE)
  then obtain x y z where "w_ps st = [x, y, z]" "pr_stage x = PopTest" "pr_stage y = Trucking Waiting" "pr_stage z = Report"
    "pr_mode x = Here" "pr_mode y = Here" "pr_mode z = Here" by (auto simp: map_eq_Cons_conv)
  then have "map registered (w_ps st) = [0, 0, 1]" by (simp add: registered_def)
  with warehouse_sessions [OF st(1)] st show ?thesis by (intro exI [of _ st]) simp
qed

text \<open>What a section of the belt or of the quota cannot refuse.\<close>

fun granted :: "mcall \<Rightarrow> reply \<Rightarrow> bool" where
  "granted (PushC x) (Item ok q) = ok"
| "granted PopC (Item ok q) = ok"
| "granted (SpawnC k) (Flag ok) = ok"
| "granted c a = True"

lemma section_defined:
  assumes reach: "wh_reachable st" and p: "p \<in> set (w_ps st)" and m: "pr_mode p = InBelt c"
  shows "(\<exists>x. c = PushC x) \<and> total_packages_created (shm (ww st)) = INT32_MAX
     \<or> (\<exists>a s'. call_body c (shm (ww st)) = Some (a, s') \<and> granted c a)"
proof -
  note s = wh_sessions.inv_reachable [OF reach] and ok = wh_procs.inv_reachable [OF reach]
  note belt = belt_reachable_inv [OF reach] and conc = conc_reachable_inv [OF belt_refinement.abs_reachable [OF reach]]
  have tab: "sessions_inv (shm (ww st))" using s by (simp add: sess_inv_def)
  have pok: "proc_ok p" using ok p by (simp add: procs_ok_def)
  then have c: "calls p c" using m by (simp add: proc_ok_def mode_ok_def)
  have slot: "slot p = Some (pr_sess p)" if "logged_in (pr_stage p)" using that m by (simp add: slot_def)
  obtain i where i: "i < length (procs (abs_belt st))" "procs (abs_belt st) ! i = Inside (belt_of c)"
    using p m by (auto simp: in_set_conv_nth)
  show ?thesis
  proof (cases c)
    case (LoginC n r org mx q)
    then show ?thesis using login_body_cases [OF tab, of n r org mx q "-1"] by (auto simp: Let_def)
  next
    case (LogoutC k)
    then have "slot p = Some k" using c slot by (simp add: calls_stage)
    from logout_body_spec [OF tab, of k] row_index_ok [OF s p this] LogoutC show ?thesis by auto
  next
    case (SpawnC k)
    then have st: "slot p = Some k" "pr_stage p = TrySpawn" using c slot by (auto simp: calls_stage)
    then obtain w where "pr_kind p = WorkerR w" using pok by (auto simp: proc_ok_def kind_stage_def)
    then have "current_processes (entry p) < max_processes (entry p)"
      using m st by (simp add: entry_def busy_def new_session_def)
    then show ?thesis using trySpawnProcess_body_spec [OF tab row_index_ok(1,2) [OF s p st(1)]] SpawnC
      row_index_ok(3) [OF s p st(1)] by simp
  next
    case (ReportC k)
    then have "slot p = Some k" using c slot by (simp add: calls_stage)
    from reportProcessFinished_body_spec [OF tab row_index_ok(1,2) [OF s p this]] ReportC show ?thesis by simp
  next
    case (PushC x)
    then have room: "current_items_count (shm (ww st)) < MAX_BELT_CAPACITY_K" using inside_push_room [OF _ i(1)] conc i(2) by simp
    show ?thesis
    proof (cases "0 < id_budget (shm (ww st))")
      case True
      from push_body_accepts [OF belt room True, of x] PushC show ?thesis by auto
    next
      case False
      then show ?thesis using PushC belt by (auto simp: id_budget_def belt_inv_def)
    qed
  next
    case PopC
    then have "0 < current_items_count (shm (ww st))" using inside_pop_some [OF _ i(1)] conc i(2) by simp
    from pop_body_takes [OF belt this] obtain s' where "pop_body (shm (ww st)) = Some ((True, hd (belt_contents (shm (ww st)))), s')" by blast
    then show ?thesis using PopC by (intro disjI2 exI [of _ "Item True (hd (belt_contents (shm (ww st))))"] exI [of _ s']) simp
  qed (use registerWorker_body_spec [OF belt] unregisterWorker_body_spec [OF belt] in auto)
qed

text \<open>
  C11: no undefined behaviour under the belt mutex.  In every reachable state of the whole system, a
  process inside a critical section of the belt or of the session manager completes it: all indices
  are valid and no counter overflows.  The only exception is \<open>push\<close> after the total number of packages
  has reached the largest \<open>int\<close>.  A section of \<open>push\<close> or \<open>pop\<close> never has to refuse, a logged-in worker
  always gets its quota, and the role the console looks up is its own.
\<close>

theorem warehouse_sections_defined:
  assumes "wh_reachable st" "p \<in> set (w_ps st)"
  shows "(pr_mode p = InBelt c \<longrightarrow>
          (\<exists>x. c = PushC x) \<and> total_packages_created (shm (ww st)) = INT32_MAX
          \<or> (\<exists>a s'. call_body c (shm (ww st)) = Some (a, s') \<and> granted c a))
     \<and> (pr_mode p = Here \<and> logged_in (pr_stage p) \<longrightarrow>
          getCurrentRole (pr_sess p) (ww st) = Some (fst (snd (credentials (pr_kind p)))))"
proof -
  have "pr_mode p = InBelt c \<longrightarrow> (\<exists>x. c = PushC x) \<and> total_packages_created (shm (ww st)) = INT32_MAX
          \<or> (\<exists>a s'. call_body c (shm (ww st)) = Some (a, s') \<and> granted c a)" using section_defined [OF assms] by blast
  then show ?thesis using current_role [OF assms] by blast
qed

theorem warehouse_sections_defined_witness:
  "\<exists>st p c a s'. wh_reachable st \<and> p \<in> set (w_ps st) \<and> pr_mode p = InBelt c
     \<and> call_body c (shm (ww st)) = Some (a, s') \<and> granted c a"
proof -
  define p where "p = new_process 100 DispatcherR"
  define c where "c = LoginC ''System-Dispatcher'' Operator 0 1 100"
  define t where "t = set_proc 0 (p\<lparr>pr_mode := AtLock c\<rparr>) boot_world deployed"
  obtain w' where w': "lockBelt boot_world = Done () w'"
    by (auto simp: lockBelt_def semOperation_def init_sems_def)
  have "wh_step deployed t" using wh_step.call [of 0 deployed p sample_draw c] sample_draw_legal
    by (simp add: t_def p_def c_def deployed_def new_process_def)
  moreover have t: "0 < length (w_ps t)" "p\<lparr>pr_mode := AtLock c\<rparr> = w_ps t ! 0" "lockBelt (ww t) = Done () w'"
    using w' by (simp_all only: t_def set_proc_simps) (simp_all add: deployed_def)
  have "wh_step t (set_proc 0 (p\<lparr>pr_mode := InBelt c\<rparr>) w' t)"
    using wh_step.lock [OF t(1,2) _ t(3), of c] by simp
  ultimately have r: "wh_reachable (set_proc 0 (p\<lparr>pr_mode := InBelt c\<rparr>) w' t)" (is "wh_reachable ?st")
    using deployed_reachable reachable.further by metis
  have m: "p\<lparr>pr_mode := InBelt c\<rparr> \<in> set (w_ps ?st)" by (simp add: t_def deployed_def)
  from warehouse_sections_defined [OF r m, of c] obtain a s' where "call_body c (shm (ww ?st)) = Some (a, s')" "granted c a"
    by (auto simp: c_def)
  then show ?thesis using r m
    by (intro exI [of _ ?st] exI [of _ "p\<lparr>pr_mode := InBelt c\<rparr>"] exI [of _ c] exI [of _ a] exI [of _ s'] conjI) simp_all
qed

end
