(* ===== verification/Warehouse_Shutdown.thy ===== *)
theory Warehouse_Shutdown
  imports Warehouse_Packages Warehouse_Sessions
begin

text \<open>
  What happens after \<open>running\<close> was cleared, by the stop command of the console or by the master.

  Every process has a bounded number of steps left: a measure per process decreases with each of its
  steps.  When no step is possible any more, every process has left its \<open>main\<close> or waits: for the belt, or
  for a signal that has not been sent.  Which of them are left after a stop is said in \<open>Warehouse_Stop\<close>.
\<close>

section \<open>The steps that are left\<close>

text \<open>
  Steps of a process from a place of its program to the end of \<open>main\<close>, when \<open>running\<close> is false: six for
  a method under the belt mutex, four for a section at the dock, one for each slot the stop command
  looks at.
\<close>

fun steps_left :: "stage \<Rightarrow> nat" where
  "steps_left Failed = 0" | "steps_left Finished = 0" | "steps_left Logout = 6"
| "steps_left Login = 26"
| "steps_left Unregister = 12" | "steps_left WorkTest = 13" | "steps_left Report = 19" | "steps_left Push = 25"
| "steps_left TrySpawn = 31" | "steps_left Register = 19"
| "steps_left PopTest = 7" | "steps_left (Load p) = 8" | "steps_left Pop = 14"
| "steps_left (Trucking pc) = (case pc of Ended \<Rightarrow> 0 | Leaving \<Rightarrow> 10 | Arriving \<Rightarrow> 11 | ShuttingDown \<Rightarrow> 14
     | Departing \<Rightarrow> 15 | Waiting \<Rightarrow> 16 | Docking \<Rightarrow> 20)"
| "steps_left ExpTest = 7" | "steps_left ExpDeliver = 11" | "steps_left ExpWait = 12"
| "steps_left MonitorTest = 7"
| "steps_left ConsoleTest = 7" | "steps_left ConsoleRead = 218" | "steps_left (Halting n) = 7 + (210 - n)"

text \<open>A load attempt that has begun before the stop may return to the place it came from.\<close>

fun mode_left :: "stage \<Rightarrow> mode \<Rightarrow> nat" where
  "mode_left x Here = steps_left x"
| "mode_left x (AtSem c) = steps_left x - 1"
| "mode_left x (AtLock c) = steps_left x - 2"
| "mode_left x (InBelt c) = steps_left x - 3"
| "mode_left x (BeltUnlock c a) = steps_left x - 4"
| "mode_left x (BeltPost c a) = steps_left x - 5"
| "mode_left (Load p) (AtDock d) = 11"
| "mode_left (Load p) (InDock d) = 10"
| "mode_left (Load p) (DockUnlock d b) = 9"
| "mode_left x (AtDock d) = steps_left x - 1"
| "mode_left x (InDock d) = steps_left x - 2"
| "mode_left x (DockUnlock d b) = steps_left x - 3"

definition proc_left :: "process \<Rightarrow> nat" where
  "proc_left p = mode_left (pr_stage p) (pr_mode p)"

definition work_left :: "warehouse \<Rightarrow> nat" where
  "work_left st = sum_list (map proc_left (w_ps st))"

lemma steps_left_bound: "steps_left x \<le> 218"
  by (cases x) (auto split: truck_pc.split)

lemma mode_left_bound: "mode_left x m \<le> 218"
  using steps_left_bound [of x] by (cases "(x, m)" rule: mode_left.cases) auto

lemma work_left_bound: "work_left st \<le> 218 * length (w_ps st)"
proof -
  have "work_left st \<le> sum_list (map (\<lambda>_. 218) (w_ps st))"
    unfolding work_left_def by (intro sum_list_mono) (simp add: proc_left_def mode_left_bound)
  then show ?thesis by (simp add: sum_list_triv)
qed

lemma sum_list_map_less:
  fixes f :: "'a \<Rightarrow> nat"
  shows "i < length xs \<Longrightarrow> f y < f (xs ! i) \<Longrightarrow> sum_list (map f (xs[i := y])) < sum_list (map f xs)"
  by (induction xs arbitrary: i) (auto simp: nth_Cons split: nat.splits)

lemma work_less:
  "i < length (w_ps st) \<Longrightarrow> proc_left p < proc_left (w_ps st ! i) \<Longrightarrow> work_left (set_proc i p w st) < work_left st"
  by (simp add: work_left_def sum_list_map_less)

lemma work_ghosts [simp]:
  "work_left (st\<lparr>w_loaded := x\<rparr>) = work_left st" "work_left (st\<lparr>w_dropped := y\<rparr>) = work_left st"
  "work_left (st\<lparr>w_acc := a, w_got := b\<rparr>) = work_left st"
  by (simp_all add: work_left_def)

section \<open>Every step uses one up\<close>

lemma left_call:
  assumes "calls p c"
  shows "6 \<le> steps_left (pr_stage p)" "mode_left (pr_stage p) (AtDock d) = steps_left (pr_stage p) - 1"
  using assms by (cases c; simp add: calls_stage)+

lemma left_after_call:
  assumes "calls p c" "reply_ok c a"
  shows "proc_left (after_call a p) + 6 \<le> steps_left (pr_stage p)"
  using assms by (cases c; cases "pr_kind p") (auto simp: calls_stage proc_left_def split: if_splits)

lemma left_leave_call:
  assumes "calls p c" "reply_ok c a"
  shows "proc_left (leave_call c a p) + 5 \<le> steps_left (pr_stage p)"
  using left_after_call [OF assms] left_call(1) [OF assms(1)] by (simp add: leave_call_def proc_left_def)

lemma left_after_dock:
  assumes "docks p c"
  shows "steps_left (after_dock b (pr_stage p)) < mode_left (pr_stage p) (DockUnlock c b)"
    "mode_left (pr_stage p) (DockUnlock c b) < mode_left (pr_stage p) (InDock c)"
    "mode_left (pr_stage p) (InDock c) < mode_left (pr_stage p) (AtDock c)"
  using docks_stage [OF assms] by (cases c; simp)+

lemma left_dock: "next_dock r ds False p = Some c \<Longrightarrow> mode_left (pr_stage p) (AtDock c) < steps_left (pr_stage p)"
  by (cases "pr_stage p") (auto split: truck_pc.splits)

lemma left_test: "local_test stop False x = Some y \<Longrightarrow> steps_left y < steps_left x"
  by (cases "(stop, False, x)" rule: local_test.cases) auto

lemma left_signal: "after_signal sig False x = Some y \<Longrightarrow> steps_left y < steps_left x"
  by (cases "(sig, False, x)" rule: after_signal.cases) (auto split: if_splits)

text \<open>Steps in which a process moves on inside a method.\<close>

lemma left_modes:
  assumes "proc_ok p"
  shows "pr_mode p = AtSem c \<Longrightarrow> proc_left (p\<lparr>pr_mode := AtLock c\<rparr>) < proc_left p"
    "pr_mode p = AtLock c \<Longrightarrow> proc_left (p\<lparr>pr_mode := InBelt c\<rparr>) < proc_left p"
    "pr_mode p = InBelt c \<Longrightarrow> proc_left (p\<lparr>pr_mode := BeltUnlock c a\<rparr>) < proc_left p"
    "pr_mode p = BeltUnlock c a \<Longrightarrow> proc_left (leave_call c a p) < proc_left p"
    "pr_mode p = BeltPost c a \<Longrightarrow> proc_left (after_call a p) < proc_left p"
    "pr_mode p = AtDock d \<Longrightarrow> proc_left (p\<lparr>pr_mode := InDock d\<rparr>) < proc_left p"
    "pr_mode p = InDock d \<Longrightarrow> proc_left (p\<lparr>pr_mode := DockUnlock d b\<rparr>) < proc_left p"
    "pr_mode p = DockUnlock d b \<Longrightarrow>
       proc_left (p\<lparr>pr_stage := after_dock b (pr_stage p), pr_mode := Here\<rparr>) < proc_left p"
proof -
  note m = assms [unfolded proc_ok_def mode_ok_def] and lc = left_call(1) [of p c]
  show "pr_mode p = AtSem c \<Longrightarrow> proc_left (p\<lparr>pr_mode := AtLock c\<rparr>) < proc_left p"
    "pr_mode p = AtLock c \<Longrightarrow> proc_left (p\<lparr>pr_mode := InBelt c\<rparr>) < proc_left p"
    "pr_mode p = InBelt c \<Longrightarrow> proc_left (p\<lparr>pr_mode := BeltUnlock c a\<rparr>) < proc_left p"
    using m lc by (simp_all add: proc_left_def)
  show "pr_mode p = BeltUnlock c a \<Longrightarrow> proc_left (leave_call c a p) < proc_left p"
    using m left_leave_call [of p c a] by (simp add: proc_left_def)
  show "pr_mode p = BeltPost c a \<Longrightarrow> proc_left (after_call a p) < proc_left p"
    using m left_after_call [of p c a] by (simp add: proc_left_def)
  show "pr_mode p = AtDock d \<Longrightarrow> proc_left (p\<lparr>pr_mode := InDock d\<rparr>) < proc_left p"
    "pr_mode p = InDock d \<Longrightarrow> proc_left (p\<lparr>pr_mode := DockUnlock d b\<rparr>) < proc_left p"
    using m left_after_dock [of p d] by (simp_all add: proc_left_def)
  show "pr_mode p = DockUnlock d b \<Longrightarrow>
       proc_left (p\<lparr>pr_stage := after_dock b (pr_stage p), pr_mode := Here\<rparr>) < proc_left p"
    using m left_after_dock(1) [of p d b] by (simp add: proc_left_def)
qed

lemma work_step:
  assumes reach: "wh_reachable st" and stop: "\<not> running (shm (ww st))" and step: "wh_step st st'"
  shows "st' = st \<or> work_left st' < work_left st"
proof -
  note okn = procs_ok_nth [OF wh_procs.inv_reachable [OF reach]]
  have len: "length (users (shm (ww st))) = 210"
    using wh_sessions.inv_reachable [OF reach] by (simp add: sess_inv_def sessions_inv_def shared_consts)
  from step show ?thesis
  proof cases
    case (call i p d c)
    then have "calls p c" by (auto simp: calls_def)
    then show ?thesis using call left_call(1) [of p c]
      by (intro disjI2) (auto intro!: work_less simp: proc_left_def)
  next
    case (wait i p c k w')
    then show ?thesis using left_modes(1) [OF okn [OF wait(2)]] by (auto intro!: work_less)
  next
    case (lock i p c w')
    then show ?thesis using left_modes(2) [OF okn [OF lock(2)]] by (auto intro!: work_less)
  next
    case (body i p c a s')
    then show ?thesis using left_modes(3) [OF okn [OF body(2)]] by (auto intro!: work_less)
  next
    case (unlock i p c a w')
    then show ?thesis using left_modes(4) [OF okn [OF unlock(2)]] by (auto intro!: work_less)
  next
    case (post i p c a k w')
    then show ?thesis using left_modes(5) [OF okn [OF post(2)]] by (auto intro!: work_less)
  next
    case (dock i p r ds c)
    then show ?thesis using stop left_dock [of r ds p c] by (auto intro!: work_less simp: proc_left_def)
  next
    case (dlock i p c w')
    then show ?thesis using left_modes(6) [OF okn [OF dlock(2)]] by (auto intro!: work_less)
  next
    case (dbody i p c b w')
    then show ?thesis using left_modes(7) [OF okn [OF dbody(2)]] by (auto intro!: work_less)
  next
    case (dunlock i p c b w')
    then show ?thesis using left_modes(8) [OF okn [OF dunlock(2)]] by (auto intro!: work_less)
  next
    case (test i p stop' x)
    then show ?thesis using stop left_test by (auto intro!: work_less simp: proc_left_def)
  next
    case (receive i p w1 sig w' x)
    then have "shm w' = shm (ww st)"
      using receive_msg_frame [OF wh_world(1) [OF reach] receive(5,6)] by (simp add: msg_frame_def)
    then show ?thesis using stop receive left_signal by (auto intro!: work_less simp: proc_left_def)
  next
    case (command i p cmd r out act w')
    then show ?thesis by (auto intro!: work_less simp: proc_left_def)
  next
    case (halt i p r)
    then show ?thesis by (auto intro!: work_less simp: proc_left_def)
  next
    case (notify i p n u w')
    then show ?thesis using len by (auto intro!: work_less simp: proc_left_def)
  next
    case (halted i p)
    then show ?thesis by (auto intro!: work_less simp: proc_left_def)
  next
    case master
    have "(shm (ww st))\<lparr>running := False\<rparr> = shm (ww st)" using stop by (cases "shm (ww st)") simp
    then show ?thesis using master by simp
  qed
qed

lemma stopped_steps:
  assumes "wh_step\<^sup>*\<^sup>* st st'" "wh_reachable st" "\<not> running (shm (ww st))"
  shows "wh_reachable st' \<and> \<not> running (shm (ww st'))"
  using assms by (induction rule: rtranclp_induct) (auto intro: reachable.further dest: running_step)

text \<open>An execution as a sequence of states, each of which is followed by a step or stays as it is.\<close>

definition execution :: "(nat \<Rightarrow> warehouse) \<Rightarrow> bool" where
  "execution f \<longleftrightarrow> (\<forall>n. wh_step (f n) (f (Suc n)) \<or> f (Suc n) = f n)"

lemma execution_reachable:
  assumes "execution f" "wh_reachable (f 0)" "\<not> running (shm (ww (f 0)))"
  shows "wh_reachable (f n) \<and> \<not> running (shm (ww (f n)))"
proof (induction n)
  case (Suc n)
  then show ?case using assms(1) stopped_steps [of "f n" "f (Suc n)"] unfolding execution_def by (metis r_into_rtranclp)
qed (use assms in simp)

text \<open>The number of times an execution has moved so far.\<close>

lemma execution_moves:
  assumes "execution f" "wh_reachable (f 0)" "\<not> running (shm (ww (f 0)))"
  shows "card {k. k < n \<and> f (Suc k) \<noteq> f k} + work_left (f n) \<le> work_left (f 0)"
proof (induction n)
  case (Suc n)
  have s: "{k. k < Suc n \<and> f (Suc k) \<noteq> f k} = {k. k < n \<and> f (Suc k) \<noteq> f k} \<union> (if f (Suc n) \<noteq> f n then {n} else {})"
    by (auto simp: less_Suc_eq)
  note r = execution_reachable [OF assms, of n]
  show ?case
  proof (cases "f (Suc n) = f n")
    case False
    then have "work_left (f (Suc n)) < work_left (f n)"
      using work_step [OF conjunct1 [OF r] conjunct2 [OF r]] assms(1) by (auto simp: execution_def)
    then show ?thesis using Suc False unfolding s by (subst card_Un_disjoint) auto
  qed (use Suc s in simp)
qed simp

section \<open>When no step is possible\<close>

text \<open>The loop of the stop command stays within the session table.\<close>

definition halting_inv :: "warehouse \<Rightarrow> bool" where
  "halting_inv st \<longleftrightarrow> (\<forall>p \<in> set (w_ps st). \<forall>n. pr_stage p = Halting n \<longrightarrow> n \<le> 210)"

lemma no_new_halting:
  "after_call a p = q \<Longrightarrow> pr_stage q = Halting n \<Longrightarrow> pr_stage p = Halting n"
  "leave_call c a p = q \<Longrightarrow> pr_stage q = Halting n \<Longrightarrow> pr_stage p = Halting n"
  "after_dock b x = Halting n \<Longrightarrow> x = Halting n" "local_test stop run x = Some y \<Longrightarrow> y \<noteq> Halting n"
  "after_signal sig run x = Some y \<Longrightarrow> y \<noteq> Halting n"
proof -
  show ac: "after_call a p = q \<Longrightarrow> pr_stage q = Halting n \<Longrightarrow> pr_stage p = Halting n" for q
    by (cases a; cases "pr_kind p") (auto split: stage.splits if_splits)
  show "leave_call c a p = q \<Longrightarrow> pr_stage q = Halting n \<Longrightarrow> pr_stage p = Halting n"
    using ac by (auto simp: leave_call_def split: if_splits)
  show "after_dock b x = Halting n \<Longrightarrow> x = Halting n" by (cases "(b, x)" rule: after_dock.cases) (auto split: if_splits)
  show "local_test stop run x = Some y \<Longrightarrow> y \<noteq> Halting n"
    by (cases "(stop, run, x)" rule: local_test.cases) (auto split: if_splits)
  show "after_signal sig run x = Some y \<Longrightarrow> y \<noteq> Halting n"
    by (cases "(sig, run, x)" rule: after_signal.cases) (auto split: if_splits)
qed

lemma halting_inv_set:
  assumes "halting_inv st" "i < length (w_ps st)" "\<And>n. pr_stage p = Halting n \<Longrightarrow> pr_stage (w_ps st ! i) = Halting n \<or> n \<le> 210"
  shows "halting_inv (set_proc i p w st)"
  using assms set_update_cases [of _ "w_ps st" i p] nth_mem [OF assms(2)] by (fastforce simp: halting_inv_def)

lemma halting_inv_step:
  assumes reach: "wh_reachable st" and inv: "halting_inv st" and step: "wh_step st st'"
  shows "halting_inv st'"
proof -
  have len: "length (users (shm (ww st))) = 210"
    using wh_sessions.inv_reachable [OF reach] by (simp add: sess_inv_def sessions_inv_def shared_consts)
  have g: "halting_inv (st\<lparr>w_acc := a, w_got := b\<rparr>) = halting_inv st" "halting_inv (st\<lparr>w_loaded := c\<rparr>) = halting_inv st"
    "halting_inv (st\<lparr>w_dropped := d\<rparr>) = halting_inv st" "halting_inv (st\<lparr>ww := w\<rparr>) = halting_inv st" for st a b c d w
    by (simp_all add: halting_inv_def)
  note set = halting_inv_set [OF inv]
  from step show ?thesis
  proof cases
    case (unlock i p c a w')
    then show ?thesis using no_new_halting(2) [OF refl, of c a p] by (auto intro!: set)
  next
    case (post i p c a k w')
    then show ?thesis using no_new_halting(1) [OF refl, of a p] by (auto intro!: set)
  next
    case (dunlock i p c b w')
    then show ?thesis using no_new_halting(3) [of b "pr_stage p"] by (auto intro!: set)
  next
    case (test i p stop x)
    then show ?thesis unfolding test(1) g using no_new_halting(4) by (intro set) auto
  next
    case (receive i p w1 sig w' x)
    then show ?thesis unfolding receive(1) using no_new_halting(5) by (intro set) auto
  next
    case (notify i p n u w')
    then show ?thesis unfolding notify(1) using len by (intro set) auto
  next
    case (body i p c a s')
    then show ?thesis unfolding body(1) g by (intro set) auto
  next
    case (dbody i p c b w')
    then show ?thesis unfolding dbody(1) g by (intro set) auto
  next
    case master
    then show ?thesis using inv by (simp add: g)
  qed (simp only:, rule set; simp split: if_splits)+
qed

interpretation wh_halting: inductive_invariant wh_init wh_step halting_inv
proof unfold_locales
  show "halting_inv st" if "wh_init st" for st
    using that by (auto simp: wh_init_def started_def halting_inv_def)
qed (use halting_inv_step in blast)

text \<open>The resources that are needed: space in the message queue and counters below their limit.\<close>

definition resources :: "world \<Rightarrow> bool" where
  "resources w \<longleftrightarrow> msg_room w \<and> in_int32 (trucks_completed (shm w) + 1)
     \<and> in_int32 (current_load (dock_truck (shm w)) + 1) \<and> total_packages_created (shm w) < INT32_MAX"

lemma sendSignal_room: "kernel w = [] \<Longrightarrow> msg_room w \<Longrightarrow> \<exists>w'. sendSignal p sig w = Done () w'"
  by (auto simp: sendSignal_def Let_def msg_room_def)

lemma express_loop_room: "kernel w = [] \<Longrightarrow> msg_room w \<Longrightarrow> \<exists>w'. express_loop ds w = Done () w'"
  by (induction ds arbitrary: w) (auto simp: Let_def msg_room_def intro: sendSignal_room [unfolded msg_room_def])

lemma dock_section_room:
  assumes "kernel w = []" "resources w"
  shows "\<exists>b w'. dock_section p c w = Done b w'"
proof (cases c)
  case (LoadS pkg)
  have *: "\<exists>w'. sendSignal q sig (w\<lparr>shm := s\<rparr>) = Done () w'" for q sig s
    using assms by (intro sendSignal_room) (simp_all add: resources_def msg_room_def)
  have "\<exists>w'. sendSignal q sig w = Done () w'" for q sig
    using assms by (intro sendSignal_room) (simp_all add: resources_def)
  then show ?thesis using * assms LoadS by (auto simp: load_attempt_def Let_def resources_def cadd_def) (metis obind.simps(1))+
next
  case (ExpressS ds)
  obtain w' where "express_loop ds w = Done () w'" using express_loop_room assms by (auto simp: resources_def)
  then show ?thesis using ExpressS by (cases "is_present (dock_truck (shm w))") auto
qed (use assms in \<open>auto simp: on_shm_def dock_body_def shutdown_body_def depart_body_def leave_body_def
      resources_def cadd_def\<close>)

text \<open>
  A process that is blocked in \<open>receiveSignalBlocking\<close> because there is no message for it.  In the model it
  can still move when a Unix signal interrupts it; the system stands still when no process can move in
  any other way.
\<close>

definition waits_for_signal :: "process \<Rightarrow> world \<Rightarrow> bool" where
  "waits_for_signal p w \<longleftrightarrow> pr_mode p = Here \<and> (pr_stage p = Trucking Waiting \<or> pr_stage p = ExpWait)
     \<and> mailbox (pr_pid p) (msgq w) = []"

lemma not_waiting_mode [simp]: "pr_mode p \<noteq> Here \<Longrightarrow> \<not> waits_for_signal p w"
  by (simp add: waits_for_signal_def)

definition can_move :: "warehouse \<Rightarrow> bool" where
  "can_move st \<longleftrightarrow> (\<exists>i < length (w_ps st). \<exists>st'. wh_step st st' \<and> w_ps st' ! i \<noteq> w_ps st ! i
     \<and> \<not> waits_for_signal (w_ps st ! i) (ww st))"

lemma can_moveI:
  "wh_step st st' \<Longrightarrow> i < length (w_ps st) \<Longrightarrow> w_ps st' ! i \<noteq> w_ps st ! i \<Longrightarrow> \<not> waits_for_signal (w_ps st ! i) (ww st) \<Longrightarrow>
   can_move st"
  by (auto simp: can_move_def)

lemma process_neqI: "pr_mode p \<noteq> pr_mode q \<Longrightarrow> p \<noteq> q" "pr_stage p \<noteq> pr_stage q \<Longrightarrow> p \<noteq> q"
  by auto

lemma post_sem_done:
  assumes "kernel w = []" "0 \<le> sems w k"
  shows "\<exists>w'. semOperation k 1 w = Done () w'"
  using assms by (simp add: semOperation_def)

lemma wait_sem_done:
  assumes "kernel w = []" "0 < sems w k"
  shows "\<exists>w'. semOperation k (-1) w = Done () w'"
  using assms by (simp add: semOperation_def)

text \<open>A process that is past its locks can always move.\<close>

lemma inside_moves:
  assumes reach: "wh_reachable st" and res: "resources (ww st)" and i: "i < length (w_ps st)"
    and m: "case pr_mode (w_ps st ! i) of InBelt c \<Rightarrow> True | BeltUnlock c a \<Rightarrow> True | BeltPost c a \<Rightarrow> True
      | InDock d \<Rightarrow> True | DockUnlock d b \<Rightarrow> True | _ \<Rightarrow> False"
  shows "can_move st"
proof -
  define p where "p = w_ps st ! i"
  note w = wh_world [OF reach] and posted = post_sem_done [OF w(1) w(3)]
  have ok: "proc_ok p" using procs_ok_nth [OF wh_procs.inv_reachable [OF reach] i] by (simp add: p_def)
  show ?thesis
  proof (cases "pr_mode p")
    case (InBelt c)
    have "\<not> total_packages_created (shm (ww st)) = INT32_MAX" using res by (simp add: resources_def)
    then obtain a s' where "call_body c (shm (ww st)) = Some (a, s')"
      using section_defined [OF reach nth_mem [OF i]] InBelt by (auto simp: p_def)
    from wh_step.body [OF i p_def InBelt this] show ?thesis
      by (rule can_moveI [OF _ i]) (use i InBelt in \<open>auto simp: p_def [symmetric] intro!: process_neqI(1)\<close>)
  next
    case (BeltUnlock c a)
    obtain w' where "unlockBelt (ww st) = Done () w'" using posted by (auto simp: unlockBelt_def)
    from wh_step.unlock [OF i p_def BeltUnlock this] show ?thesis
      by (rule can_moveI [OF _ i]) (use i BeltUnlock in \<open>auto simp: p_def [symmetric] leave_call_def intro!: process_neqI(1)\<close>)
  next
    case (BeltPost c a)
    then obtain k where k: "last_sem c a = Some k" using ok by (auto simp: proc_ok_def mode_ok_def)
    obtain w' where "semOperation k 1 (ww st) = Done () w'" using posted by blast
    note this = k this
    from wh_step.post [OF i p_def BeltPost this] show ?thesis
      by (rule can_moveI [OF _ i]) (use i BeltPost in \<open>auto simp: p_def [symmetric] intro!: process_neqI(1)\<close>)
  next
    case (InDock d)
    obtain b w' where "dock_section (pr_pid p) d (ww st) = Done b w'" using dock_section_room [OF w(1) res] by blast
    from wh_step.dbody [OF i p_def InDock this] show ?thesis
      by (rule can_moveI [OF _ i]) (use i InDock in \<open>auto simp: p_def [symmetric] intro!: process_neqI(1)\<close>)
  next
    case (DockUnlock d b)
    obtain w' where "unlockDock (ww st) = Done () w'" using posted by (auto simp: unlockDock_def)
    from wh_step.dunlock [OF i p_def DockUnlock this] show ?thesis
      by (rule can_moveI [OF _ i]) (use i DockUnlock in \<open>auto simp: p_def [symmetric] intro!: process_neqI(1)\<close>)
  qed (use m in \<open>auto simp: p_def\<close>)
qed

text \<open>A process at a lock can move, or the one that has the lock can.\<close>

lemma sum_list_map_pos:
  fixes f :: "'a \<Rightarrow> int"
  assumes "0 < sum_list (map f xs)"
  shows "\<exists>i < length xs. 0 < f (xs ! i)"
proof (rule ccontr)
  assume "\<not> ?thesis"
  then have "\<forall>x \<in> set xs. f x \<le> 0" by (metis in_set_conv_nth not_less)
  then have "sum_list (map f xs) \<le> 0" by (intro sum_list_nonpos) auto
  then show False using assms by simp
qed

lemma lock_moves:
  assumes reach: "wh_reachable st" and res: "resources (ww st)" and i: "i < length (w_ps st)"
    and m: "pr_mode (w_ps st ! i) = AtLock c"
  shows "can_move st"
proof (cases "0 < sems (ww st) SEM_MUTEX_BELT")
  case True
  obtain w' where "lockBelt (ww st) = Done () w'"
    using wait_sem_done [OF wh_world(1) [OF reach] True] by (auto simp: lockBelt_def)
  from wh_step.lock [OF i refl m this] show ?thesis
    by (rule can_moveI [OF _ i]) (use i m in \<open>auto intro!: process_neqI(1)\<close>)
next
  case False
  have "sems (ww st) SEM_MUTEX_BELT + tally holds (abs_belt st) = 1"
    using sem_invD(4) [OF conjunct1 [OF conc_reachable_inv [OF belt_refinement.abs_reachable [OF reach]]]] by simp
  then have "0 < sum_list (map (\<lambda>p. holds (belt_pc (pr_mode p))) (w_ps st))"
    using False by (simp add: tally_def abs_belt_def comp_def)
  from sum_list_map_pos [OF this] obtain j where j: "j < length (w_ps st)" "0 < holds (belt_pc (pr_mode (w_ps st ! j)))"
    by blast
  then show ?thesis by (intro inside_moves [OF reach res j(1)]) (auto split: mode.split)
qed

lemma dock_lock_moves:
  assumes reach: "wh_reachable st" and res: "resources (ww st)" and i: "i < length (w_ps st)"
    and m: "pr_mode (w_ps st ! i) = AtDock c"
  shows "can_move st"
proof (cases "0 < sems (ww st) SEM_DOCK_MUTEX")
  case True
  obtain w' where "lockDock (ww st) = Done () w'"
    using wait_sem_done [OF wh_world(1) [OF reach] True] by (auto simp: lockDock_def)
  from wh_step.dlock [OF i refl m this] show ?thesis
    by (rule can_moveI [OF _ i]) (use i m in \<open>auto intro!: process_neqI(1)\<close>)
next
  case False
  then have "0 < sum_list (map (\<lambda>p. dholds (pr_mode p)) (w_ps st))"
    using wh_dock.inv_reachable [OF reach] by (simp add: dock_inv_def dtally_def)
  from sum_list_map_pos [OF this] obtain j where j: "j < length (w_ps st)" "0 < dholds (pr_mode (w_ps st ! j))" by blast
  then show ?thesis by (intro inside_moves [OF reach res j(1)]) (auto split: mode.split)
qed

text \<open>Outside the methods, only a process that has left its \<open>main\<close> or waits for a signal cannot move.\<close>

lemma here_moves:
  assumes reach: "wh_reachable st" and res: "resources (ww st)" and stop: "\<not> running (shm (ww st))"
    and i: "i < length (w_ps st)" "p = w_ps st ! i" and m: "pr_mode p = Here" "pr_stage p \<noteq> Finished" "pr_stage p \<noteq> Failed"
      "\<not> waits_for_signal p (ww st)"
  shows "can_move st"
proof -
  note w = wh_world [OF reach]
  have ok: "proc_ok p" using procs_ok_nth [OF wh_procs.inv_reachable [OF reach] i(1)] i(2) by simp
  have len: "length (users (shm (ww st))) = 210"
    using wh_sessions.inv_reachable [OF reach] by (simp add: sess_inv_def sessions_inv_def shared_consts)
  have call: "can_move st" if "next_call sample_draw p = Some c" for c
    using wh_step.call [OF i m(1) sample_draw_legal that]
    by (rule can_moveI [OF _ i(1)]) (use i m in \<open>auto intro!: process_neqI(1)\<close>)
  have test: "can_move st" if "local_test False False (pr_stage p) = Some x" "x \<noteq> pr_stage p" for x
    using wh_step.test [OF i m(1), of False x] stop that(1)
    by (intro can_moveI [OF _ i(1)]) (use i m that(2) in \<open>auto intro!: process_neqI(2)\<close>)
  have dock: "can_move st" if "next_dock plain_rolls (replicate 3 (Fin 2, 0)) False p = Some c" for c
    using wh_step.dock [OF i m(1) plain_rolls_legal batch_legal, of c] stop that
    by (intro can_moveI [OF _ i(1)]) (use i m in \<open>auto intro!: process_neqI(1)\<close>)
  have recv: "can_move st" if "pr_stage p = Trucking Waiting \<or> pr_stage p = ExpWait"
  proof -
    have "mailbox (pr_pid p) (msgq (ww st)) \<noteq> []" "0 < pr_pid p" using m that ok by (auto simp: waits_for_signal_def proc_ok_def)
    then obtain sig q where "msg_recv (pr_pid p) (msgq (ww st)) = Some (sig, q)"
      using queue_channel.recv_None [of "pr_pid p" "msgq (ww st)"] by (cases "msg_recv (pr_pid p) (msgq (ww st))") auto
    then have d: "receiveSignalBlocking (pr_pid p) (ww st) = Done sig ((ww st)\<lparr>msgq := q\<rparr>)"
      using w(1) by (simp add: receiveSignalBlocking_alt)
    have "\<exists>x. after_signal sig False (pr_stage p) = Some x \<and> x \<noteq> pr_stage p" using that by (elim disjE) simp_all
    then obtain x where "after_signal sig False (pr_stage p) = Some x" "x \<noteq> pr_stage p" by blast
    then show ?thesis using wh_step.receive [OF i m(1) disjI1 [OF refl] d, of x] stop
      by (intro can_moveI [OF _ i(1)]) (use i m in \<open>auto intro!: process_neqI(2)\<close>)
  qed
  show ?thesis
  proof (cases "pr_stage p")
    case (Trucking pc)
    then show ?thesis using ok test dock recv by (cases pc) (auto simp: proc_ok_def kind_stage_def)
  next
    case Login
    then show ?thesis using call by (cases "credentials (pr_kind p)") auto
  next
    case ConsoleRead
    obtain r where "getCurrentRole (pr_sess p) (ww st) = Some r"
      using current_role [OF reach _ m(1)] i ConsoleRead by auto
    from wh_step.command [OF i m(1) ConsoleRead _ this, of Exit "[]" False "ww st"] show ?thesis
      by (intro can_moveI [OF _ i(1)]) (use i m ConsoleRead in \<open>auto simp: run_command_def intro!: process_neqI(2)\<close>)
  next
    case (Halting n)
    have "n \<le> 210" using wh_halting.inv_reachable [OF reach] Halting i by (auto simp: halting_inv_def)
    show ?thesis
    proof (cases "n = 210")
      case True
      then show ?thesis using wh_step.halted [OF i m(1)] Halting len
        by (intro can_moveI [OF _ i(1)]) (use i m(4) in \<open>auto intro!: process_neqI(2)\<close>)
    next
      case False
      have "msg_room (ww st)" using res by (simp add: resources_def)
      then obtain w' where "(if active (users (shm (ww st)) ! n) then sendSignal (session_pid (users (shm (ww st)) ! n))
          SIGNAL_END_WORK (ww st) else Done () (ww st)) = Done () w'"
        using sendSignal_room [OF w(1)] by (cases "active (users (shm (ww st)) ! n)") auto
      then show ?thesis using wh_step.notify [OF i m(1) Halting _ refl] len \<open>n \<le> 210\<close> False Halting
        by (intro can_moveI [OF _ i(1)]) (use i m(4) in \<open>auto intro!: process_neqI(2)\<close>)
    qed
  qed (use call test dock recv m in \<open>auto split: prod.splits\<close>)
qed

text \<open>Who is left, and where.\<close>

definition waits_for_belt :: "process \<Rightarrow> world \<Rightarrow> bool" where
  "waits_for_belt p w \<longleftrightarrow> pr_mode p = AtSem PopC \<and> sems w SEM_FULL_SLOTS = 0
     \<or> (\<exists>x. pr_mode p = AtSem (PushC x)) \<and> sems w SEM_EMPTY_SLOTS = 0"

lemma stuck_process:
  assumes reach: "wh_reachable st" and res: "resources (ww st)" and stop: "\<not> running (shm (ww st))"
    and stuck: "\<not> can_move st" and p: "p \<in> set (w_ps st)"
  shows "pr_mode p = Here \<and> (pr_stage p = Finished \<or> pr_stage p = Failed) \<or> waits_for_belt p (ww st) \<or> waits_for_signal p (ww st)"
proof -
  obtain i where i: "i < length (w_ps st)" "p = w_ps st ! i" using p by (auto simp: in_set_conv_nth)
  note w = wh_world [OF reach]
  have ok: "proc_ok p" using wh_procs.inv_reachable [OF reach] p by (simp add: procs_ok_def)
  show ?thesis
  proof (cases "pr_mode p")
    case Here
    then show ?thesis using here_moves [OF reach res stop i] stuck by blast
  next
    case (AtSem c)
    then obtain k where k: "first_sem c = Some k" using ok by (auto simp: proc_ok_def mode_ok_def)
    have "sems (ww st) k = 0"
    proof (rule ccontr)
      assume "sems (ww st) k \<noteq> 0"
      then have "0 < sems (ww st) k" using w(3) [of k] by simp
      then obtain w' where "semOperation k (-1) (ww st) = Done () w'" using wait_sem_done [OF w(1)] by blast
      from wh_step.wait [OF i AtSem k this] have "can_move st"
        by (rule can_moveI [OF _ i(1)]) (use i AtSem in \<open>auto intro!: process_neqI(1)\<close>)
      then show False using stuck by contradiction
    qed
    then show ?thesis using k AtSem by (cases c) (auto simp: waits_for_belt_def)
  qed (use lock_moves [OF reach res i(1)] dock_lock_moves [OF reach res i(1)] inside_moves [OF reach res i(1)] stuck i(2)
      in auto)
qed

lemma stuck_belt:
  assumes reach: "wh_reachable st" and left: "\<forall>p \<in> set (w_ps st). pr_mode p = Here \<or> waits_for_belt p (ww st)"
  shows "sems (ww st) SEM_FULL_SLOTS = int (length (belt_contents (shm (ww st))))"
    "sems (ww st) SEM_EMPTY_SLOTS = 10 - int (length (belt_contents (shm (ww st))))"
proof -
  note c = conc_reachable_inv [OF belt_refinement.abs_reachable [OF reach]]
  have "claims k (belt_pc (pr_mode p)) = 0" if "p \<in> set (w_ps st)" for k p
    using left that by (auto simp: waits_for_belt_def)
  then have "map (claims k) (procs (abs_belt st)) = map (\<lambda>_. 0) (w_ps st)" for k by (simp add: abs_belt_def)
  then have "tally (claims k) (abs_belt st) = 0" for k unfolding tally_def by (simp only:) simp
  then show "sems (ww st) SEM_FULL_SLOTS = int (length (belt_contents (shm (ww st))))"
    "sems (ww st) SEM_EMPTY_SLOTS = 10 - int (length (belt_contents (shm (ww st))))"
    using sem_invD(5,6) [OF conjunct1 [OF c]] belt_count [OF belt_reachable_inv [OF reach]]
    by (simp_all add: shared_consts)
qed

section \<open>Properties\<close>

text \<open>
  C6: the shutdown ends.  Once \<open>running\<close> is false, an execution of the whole system moves at most 218
  times per process, in whatever order the processes act; so it comes to rest.
\<close>

theorem shutdown_terminates:
  assumes "execution f" "wh_reachable (f 0)" "\<not> running (shm (ww (f 0)))"
  shows "finite {k. f (Suc k) \<noteq> f k} \<and> card {k. f (Suc k) \<noteq> f k} \<le> 218 * length (w_ps (f 0))
     \<and> (\<exists>N. \<forall>n \<ge> N. f n = f N)"
proof -
  define B where "B = 218 * length (w_ps (f 0))"
  have b: "card {k. k < n \<and> f (Suc k) \<noteq> f k} \<le> B" for n
    using execution_moves [OF assms, of n] work_left_bound [of "f 0"] by (simp add: B_def)
  have fin: "finite {k. f (Suc k) \<noteq> f k}"
  proof (rule ccontr)
    assume "infinite {k. f (Suc k) \<noteq> f k}"
    then obtain S where S: "S \<subseteq> {k. f (Suc k) \<noteq> f k}" "card S = Suc B" "finite S"
      using infinite_arbitrarily_large by blast
    then have "S \<subseteq> {k. k < Suc (Max S) \<and> f (Suc k) \<noteq> f k}" by (auto simp: less_Suc_eq_le)
    then have "card S \<le> card {k. k < Suc (Max S) \<and> f (Suc k) \<noteq> f k}" by (intro card_mono) auto
    then show False using b [of "Suc (Max S)"] S(2) by simp
  qed
  then obtain N where N: "\<forall>k. f (Suc k) \<noteq> f k \<longrightarrow> k < N" by (metis (mono_tags, lifting) finite_nat_set_iff_bounded mem_Collect_eq)
  have "f (N + n) = f N" for n
  proof (induction n)
    case (Suc n)
    have "f (Suc (N + n)) = f (N + n)" using N by (metis not_add_less1)
    then show ?case using Suc by simp
  qed simp
  then have "\<exists>N. \<forall>n \<ge> N. f n = f N" by (metis le_Suc_ex)
  moreover have "{k. f (Suc k) \<noteq> f k} = {k. k < N \<and> f (Suc k) \<noteq> f k}" using N by blast
  ultimately show ?thesis using fin b [of N] by (simp add: B_def)
qed

text \<open>The deployment is stopped before anybody has logged in; the dispatcher then begins its login.\<close>

theorem shutdown_terminates_witness:
  "\<exists>f. execution f \<and> f 1 \<noteq> f 0 \<and> length (w_ps (f 0)) = 3 \<and> card {k. f (Suc k) \<noteq> f k} \<le> 654 \<and> (\<exists>N. \<forall>n \<ge> N. f n = f N)"
proof -
  define st where "st = deployed\<lparr>ww := (ww deployed)\<lparr>shm := (shm (ww deployed))\<lparr>running := False\<rparr>\<rparr>\<rparr>"
  define p where "p = w_ps st ! 0"
  obtain c where c: "next_call sample_draw p = Some c" by (simp add: p_def st_def deployed_def new_process_def)
  define st1 where "st1 = set_proc 0 (p\<lparr>pr_mode := (if first_sem c = None then AtLock c else AtSem c)\<rparr>) (ww st) st"
  define f where "f = (\<lambda>n :: nat. if n = 0 then st else st1)"
  have r: "wh_reachable st" unfolding st_def by (rule reachable.further [OF deployed_reachable wh_step.master])
  have i: "0 < length (w_ps st)" "length (w_ps st) = 3" "pr_mode p = Here"
    by (simp_all add: p_def st_def deployed_def new_process_def)
  have "wh_step st st1" unfolding st1_def by (rule wh_step.call [OF i(1) p_def i(3) sample_draw_legal c])
  then have e: "execution f" by (auto simp: execution_def f_def)
  have "w_ps st1 ! 0 \<noteq> w_ps st ! 0" using i unfolding st1_def p_def [symmetric] by (auto intro!: process_neqI(1))
  then have "f 1 \<noteq> f 0" by (auto simp: f_def)
  moreover have "\<not> running (shm (ww (f 0)))" "wh_reachable (f 0)" using r by (simp_all add: f_def st_def)
  note shutdown_terminates [OF e this(2,1)]
  moreover have "length (w_ps (f 0)) = 3" using i by (simp add: f_def)
  ultimately show ?thesis using e by (intro exI [of _ f]) simp
qed

end
