(* ===== verification/Warehouse_Stop.thy ===== *)
theory Warehouse_Stop
  imports Warehouse_Shutdown
begin

text \<open>
  Who is left when a stopped system stands still.

  Clearing \<open>running\<close> alone wakes nobody: a dispatcher at an empty belt, a worker at a full belt, and a truck
  or the express worker that waits for a signal stay where they are.  The stop command of the console
  does more, it sends \<open>SIGNAL_END_WORK\<close> to every active session.  This theory follows that loop through the
  session table while all other processes go on, and shows that afterwards nobody is left waiting for a
  signal; no step of the argument uses that a Unix signal may interrupt a wait.
\<close>

section \<open>Processes that will wait for a signal\<close>

definition bound_to_wait :: "process \<Rightarrow> bool" where
  "bound_to_wait p \<longleftrightarrow> pr_stage p = Trucking Docking \<or> pr_stage p = Trucking Waiting \<or> pr_stage p = ExpWait"

text \<open>Each of them has a message, or its slot is one that the stop command has not looked at yet.\<close>

definition notified :: "nat \<Rightarrow> warehouse \<Rightarrow> bool" where
  "notified n st \<longleftrightarrow> (\<forall>p \<in> set (w_ps st). bound_to_wait p \<longrightarrow>
     mailbox (pr_pid p) (msgq (ww st)) \<noteq> [] \<or> int n \<le> pr_sess p)"

lemma notified_ghosts [simp]:
  "notified n (st\<lparr>w_loaded := x\<rparr>) = notified n st" "notified n (st\<lparr>w_dropped := y\<rparr>) = notified n st"
  "notified n (st\<lparr>w_acc := a, w_got := b\<rparr>) = notified n st"
  by (simp_all add: notified_def)

lemma bound_mode [simp]: "bound_to_wait (p\<lparr>pr_mode := m\<rparr>) = bound_to_wait p"
  by (simp add: bound_to_wait_def)

definition mail_kept :: "world \<Rightarrow> world \<Rightarrow> bool" where
  "mail_kept w w' \<longleftrightarrow> (\<forall>q. mailbox q (msgq w) \<noteq> [] \<longrightarrow> mailbox q (msgq w') \<noteq> [])"

lemma mail_kept_same [simp]: "msgq w' = msgq w \<Longrightarrow> mail_kept w w'"
  by (simp add: mail_kept_def)

lemma mail_kept_shm [simp]: "mail_kept (w\<lparr>shm := s\<rparr>) w' = mail_kept w w'"
  by (simp add: mail_kept_def)

lemma mail_kept_trans: "mail_kept w w1 \<Longrightarrow> mail_kept w1 w2 \<Longrightarrow> mail_kept w w2"
  by (simp add: mail_kept_def)

lemma mail_sem: "semOperation k v w = Done () w' \<Longrightarrow> kernel w = [] \<Longrightarrow> mail_kept w w'"
  using semOperation_DoneD(2) [of k v w w'] by simp

lemma mail_send: "sendSignal p sig w = Done u w' \<Longrightarrow> kernel w = [] \<Longrightarrow> mail_kept w w'"
  by (auto simp: sendSignal_def Let_def mail_kept_def mailbox_def split: if_splits)

lemma mail_express: "express_loop ds w = Done u w' \<Longrightarrow> kernel w = [] \<Longrightarrow> mail_kept w w'"
proof (induction ds arbitrary: w)
  case (Cons d ds)
  show ?case using Cons.prems Cons.IH [of "w\<lparr>shm := (shm w)\<lparr>dock_truck := put_express d (dock_truck (shm w))\<rparr>\<rparr>"]
    by (auto simp: Let_def split: if_splits dest: mail_send)
qed simp

lemma mail_dock: "dock_section p c w = Done b w' \<Longrightarrow> kernel w = [] \<Longrightarrow> mail_kept w w'"
proof (cases c)
  case (LoadS pkg)
  assume "dock_section p c w = Done b w'" "kernel w = []"
  then show ?thesis using LoadS
    by (auto simp: load_attempt_def Let_def obind_eq_Done_iff split: if_splits option.splits
        dest!: mail_send)
qed (auto simp: on_shm_def obind_eq_Done_iff dest: mail_express split: option.splits if_splits)

lemma mail_command:
  "run_command idx cmd r go w = Done (out, go') w' \<Longrightarrow> cmd \<noteq> Stop \<Longrightarrow> kernel w = [] \<Longrightarrow> mail_kept w w'"
  by (cases cmd) (auto simp: run_command_def handleVip_def handleDepart_def Let_def obind_eq_Done_iff
      dest: mail_send split: if_splits)

lemma mail_receive:
  assumes "kernel w = []" "0 < p" "w1 = w \<or> w1 = w\<lparr>kernel := [Some EINTR]\<rparr>" "receiveSignalBlocking p w1 = Done sig w'" "q \<noteq> p"
  shows "mailbox q (msgq w') = mailbox q (msgq w)"
  using assms(3)
proof
  assume "w1 = w"
  then show ?thesis using assms queue_channel.recv_Some [OF assms(2), of "msgq w"]
    by (auto simp: receiveSignalBlocking_alt split: option.splits)
qed (use assms in \<open>auto simp: receiveSignalBlocking_def\<close>)

text \<open>A step that puts a process somewhere else and keeps all mail but its own.\<close>

lemma notified_set:
  assumes inv: "notified n st" and i: "i < length (w_ps st)" and d: "distinct (map pr_pid (w_ps st))"
    and own: "bound_to_wait p' \<Longrightarrow> mail_kept (ww st) w' \<and> bound_to_wait (w_ps st ! i)
        \<and> pr_pid p' = pr_pid (w_ps st ! i) \<and> pr_sess p' = pr_sess (w_ps st ! i)"
    and mail: "\<And>q. q \<noteq> pr_pid (w_ps st ! i) \<Longrightarrow> mailbox q (msgq (ww st)) \<noteq> [] \<Longrightarrow> mailbox q (msgq w') \<noteq> []"
  shows "notified n (set_proc i p' w' st)"
  unfolding notified_def
proof (intro ballI impI)
  fix x
  assume x: "x \<in> set (w_ps (set_proc i p' w' st))" "bound_to_wait x"
  then obtain j where j: "j < length (w_ps st)" "x = (w_ps st)[i := p'] ! j" by (auto simp: in_set_conv_nth)
  show "mailbox (pr_pid x) (msgq (ww (set_proc i p' w' st))) \<noteq> [] \<or> int n \<le> pr_sess x"
  proof (cases "j = i")
    case True
    then have "x = p'" using j i by simp
    then show ?thesis using own x(2) inv nth_mem [OF i] by (auto simp: notified_def mail_kept_def)
  next
    case False
    then have "x = w_ps st ! j" using j by simp
    moreover have "pr_pid (w_ps st ! j) \<noteq> pr_pid (w_ps st ! i)"
      using d False i j(1) by (metis distinct_conv_nth length_map nth_map)
    ultimately show ?thesis using inv x(2) nth_mem [OF j(1)] mail by (auto simp: notified_def)
  qed
qed

lemma notified_kept:
  assumes "notified n st" "i < length (w_ps st)" "distinct (map pr_pid (w_ps st))" "mail_kept (ww st) w'"
    and "bound_to_wait p' \<Longrightarrow> bound_to_wait (w_ps st ! i) \<and> pr_pid p' = pr_pid (w_ps st ! i) \<and> pr_sess p' = pr_sess (w_ps st ! i)"
  shows "notified n (set_proc i p' w' st)"
  using notified_set [OF assms(1-3)] assms(4,5) by (simp add: mail_kept_def)

text \<open>Once the system is stopped nobody becomes bound to wait.\<close>

lemma bound_after_call:
  "bound_to_wait (after_call a p) \<Longrightarrow> bound_to_wait p \<and> pr_sess (after_call a p) = pr_sess p"
  by (cases a; cases "pr_kind p") (auto simp: bound_to_wait_def split: stage.splits if_splits)

lemma pid_after_call [simp]: "pr_pid (after_call a p) = pr_pid p" "pr_pid (leave_call c a p) = pr_pid p"
proof -
  show "pr_pid (after_call a p) = pr_pid p" by (cases a) (auto split: stage.split)
  then show "pr_pid (leave_call c a p) = pr_pid p" by (simp add: leave_call_def)
qed

lemma bound_leave_call:
  "bound_to_wait (leave_call c a p) \<Longrightarrow> bound_to_wait p \<and> pr_sess (leave_call c a p) = pr_sess p"
  using bound_after_call [of a p] by (auto simp: leave_call_def split: if_splits)

lemma bound_after_dock: "bound_to_wait (p\<lparr>pr_stage := after_dock b (pr_stage p), pr_mode := m\<rparr>) \<Longrightarrow> bound_to_wait p"
  by (cases "(b, pr_stage p)" rule: after_dock.cases) (auto simp: bound_to_wait_def split: if_splits)

lemma bound_stages:
  "local_test stop False x = Some y \<Longrightarrow> \<not> bound_to_wait (p\<lparr>pr_stage := y\<rparr>)"
  "after_signal sig False x = Some y \<Longrightarrow> \<not> bound_to_wait (p\<lparr>pr_stage := y\<rparr>)"
  by (cases "(stop, False, x)" rule: local_test.cases; auto simp: bound_to_wait_def)
    (cases "(sig, False, x)" rule: after_signal.cases; auto simp: bound_to_wait_def split: if_splits)

lemma notified_step:
  assumes reach: "wh_reachable st" and stop: "\<not> running (shm (ww st))" and inv: "notified n st" and step: "wh_step st st'"
  shows "notified n st'"
proof -
  note k = wh_world(1) [OF reach]
  have d: "distinct (map pr_pid (w_ps st))" using wh_procs.inv_reachable [OF reach] by (simp add: procs_ok_def)
  note kept = notified_kept [OF inv _ d] and mail = mail_sem [OF _ k]
  from step show ?thesis
  proof cases
    case (call i p dr c)
    then show ?thesis by (auto intro!: kept)
  next
    case (wait i p c j w')
    then show ?thesis using mail by (auto intro!: kept)
  next
    case (lock i p c w')
    then show ?thesis using mail by (auto simp: lockBelt_def intro!: kept)
  next
    case (body i p c a s')
    then show ?thesis by (auto intro!: kept)
  next
    case (unlock i p c a w')
    then show ?thesis using mail bound_leave_call by (auto simp: unlockBelt_def intro!: kept)
  next
    case (post i p c a j w')
    then show ?thesis using mail bound_after_call by (auto intro!: kept)
  next
    case (dock i p r ds c)
    then show ?thesis by (auto intro!: kept)
  next
    case (dlock i p c w')
    then show ?thesis using mail by (auto simp: lockDock_def intro!: kept)
  next
    case (dbody i p c b w')
    then show ?thesis using mail_dock [OF _ k] by (auto intro!: kept)
  next
    case (dunlock i p c b w')
    then show ?thesis using mail bound_after_dock by (auto simp: unlockDock_def intro!: kept)
  next
    case (test i p fl x)
    then show ?thesis using bound_stages(1) stop by (auto intro!: kept)
  next
    case (receive i p w1 sig w' x)
    have run: "\<not> running (shm w')" using receive_msg_frame [OF k receive(5,6)] stop by (simp add: msg_frame_def)
    have pid: "0 < pr_pid p" using procs_ok_nth [OF wh_procs.inv_reachable [OF reach] receive(2)] receive(3) by (simp add: proc_ok_def)
    note mail_receive [OF k pid receive(5,6)]
    then show ?thesis unfolding receive(1) using receive(2,3,7) run bound_stages(2)
      by (intro notified_set [OF inv _ d]) auto
  next
    case (command i p cmd r out go w')
    then show ?thesis using mail_command [OF _ _ k] by (auto simp: bound_to_wait_def intro!: kept)
  next
    case (halt i p r)
    then show ?thesis by (auto simp: bound_to_wait_def intro!: kept)
  next
    case (notify i p m u w')
    then show ?thesis using mail_send [OF _ k] by (auto simp: bound_to_wait_def intro!: kept split: if_splits)
  next
    case (halted i p)
    then show ?thesis by (auto simp: bound_to_wait_def intro!: kept)
  next
    case master
    then show ?thesis using inv by (simp add: notified_def)
  qed
qed

section \<open>The loop of the stop command\<close>

text \<open>A process that will wait for a signal is in the session table, under its pid.\<close>

lemma bound_slot: "proc_ok p \<Longrightarrow> bound_to_wait p \<Longrightarrow> slot p = Some (pr_sess p)"
  by (cases "pr_mode p") (auto simp: slot_def bound_to_wait_def proc_ok_def mode_ok_def calls_stage split: mcall.splits)

lemma mail_sent: "sendSignal p sig w = Done () w' \<Longrightarrow> kernel w = [] \<Longrightarrow> 0 < p \<Longrightarrow> mailbox p (msgq w') \<noteq> []"
  by (auto simp: sendSignal_def Let_def mailbox_def split: if_splits)

lemma notified_next:
  assumes reach: "wh_reachable st" and inv: "notified n (set_proc i p' w' st)" and p': "\<not> bound_to_wait p'"
    and u: "active (users (shm (ww st)) ! n) \<Longrightarrow> 0 < session_pid (users (shm (ww st)) ! n) \<Longrightarrow>
      mailbox (session_pid (users (shm (ww st)) ! n)) (msgq w') \<noteq> []"
  shows "notified (Suc n) (set_proc i p' w' st)"
  unfolding notified_def
proof (intro ballI impI)
  fix x
  assume x: "x \<in> set (w_ps (set_proc i p' w' st))" "bound_to_wait x"
  then have xs: "x \<in> set (w_ps st)" using p' set_update_cases [of x "w_ps st" i p'] by auto
  have ok: "proc_ok x" using wh_procs.inv_reachable [OF reach] xs by (simp add: procs_ok_def)
  note row = sess_row [OF wh_sessions.inv_reachable [OF reach] xs bound_slot [OF ok x(2)]]
  show "mailbox (pr_pid x) (msgq (ww (set_proc i p' w' st))) \<noteq> [] \<or> int (Suc n) \<le> pr_sess x"
  proof (cases "pr_sess x = int n")
    case True
    then show ?thesis using row(3) u ok by (simp add: proc_ok_def)
  next
    case False
    then show ?thesis using inv x by (auto simp: notified_def)
  qed
qed

text \<open>While a console is in the loop, and from then on.\<close>

definition stop_inv :: "nat \<Rightarrow> warehouse \<Rightarrow> bool" where
  "stop_inv i st \<longleftrightarrow> i < length (w_ps st) \<and> \<not> running (shm (ww st)) \<and>
     (case pr_stage (w_ps st ! i) of
        Halting n \<Rightarrow> notified n st
      | Logout \<Rightarrow> notified 210 st
      | Finished \<Rightarrow> notified 210 st
      | _ \<Rightarrow> False)"

lemma stop_inv_start:
  assumes "wh_reachable st" "i < length (w_ps st)" "pr_stage (w_ps st ! i) = Halting 0" "\<not> running (shm (ww st))"
  shows "stop_inv i st"
proof -
  have "0 \<le> pr_sess p" if "p \<in> set (w_ps st)" "bound_to_wait p" for p
    using sess_row(1) [OF wh_sessions.inv_reachable [OF assms(1)] that(1) bound_slot] that wh_procs.inv_reachable [OF assms(1)]
    by (auto simp: procs_ok_def)
  then show ?thesis using assms by (auto simp: stop_inv_def notified_def)
qed

text \<open>The process that runs the command goes through the table, then logs out and returns.\<close>

fun stopping :: "stage \<Rightarrow> bool" where
  "stopping (Halting n) = True"
| "stopping Logout = True"
| "stopping Finished = True"
| "stopping _ = False"

lemma stopping_calls:
  "stopping (pr_stage p) \<Longrightarrow> calls p c \<Longrightarrow> pr_stage p = Logout \<and> c = LogoutC (pr_sess p)"
  "stopping (pr_stage p) \<Longrightarrow> \<not> docks p d"
  by (cases c; simp add: calls_stage) (cases "pr_stage p"; simp add: docks_def)

lemma stopping_moves:
  assumes reach: "wh_reachable st" and step: "wh_step st st'" and i: "i < length (w_ps st)" and x: "stopping (pr_stage (w_ps st ! i))"
  shows "pr_stage (w_ps st' ! i) = pr_stage (w_ps st ! i)
     \<or> pr_stage (w_ps st ! i) = Logout \<and> pr_stage (w_ps st' ! i) = Finished
     \<or> pr_stage (w_ps st ! i) = Halting 210 \<and> pr_stage (w_ps st' ! i) = Logout
     \<or> (\<exists>n w'. pr_stage (w_ps st ! i) = Halting n \<and> st' = set_proc i ((w_ps st ! i)\<lparr>pr_stage := Halting (Suc n)\<rparr>) w' st
         \<and> (active (users (shm (ww st)) ! n) \<longrightarrow> sendSignal (session_pid (users (shm (ww st)) ! n)) SIGNAL_END_WORK (ww st) = Done () w'))"
proof -
  have ok: "proc_ok (w_ps st ! i)" by (rule procs_ok_nth [OF wh_procs.inv_reachable [OF reach] i])
  note sc = stopping_calls [OF x] and m = ok [unfolded proc_ok_def mode_ok_def]
  have len: "length (users (shm (ww st))) = 210"
    using wh_sessions.inv_reachable [OF reach] by (simp add: sess_inv_def sessions_inv_def shared_consts)
  from step show ?thesis
  proof cases
    case (call j p dr c)
    then show ?thesis using i by (cases "j = i") auto
  next
    case (wait j p c k w')
    then show ?thesis using i by (cases "j = i") auto
  next
    case (lock j p c w')
    then show ?thesis using i by (cases "j = i") auto
  next
    case (body j p c a s')
    then show ?thesis using i by (cases "j = i") auto
  next
    case (unlock j p c a w')
    then show ?thesis using i m sc(1) [of c] by (cases "j = i") (auto simp: leave_call_def)
  next
    case (post j p c a k w')
    then show ?thesis using i m sc(1) [of c] by (cases "j = i") auto
  next
    case (dock j p r ds c)
    then show ?thesis using i by (cases "j = i") auto
  next
    case (dlock j p c w')
    then show ?thesis using i by (cases "j = i") auto
  next
    case (dbody j p c b w')
    then show ?thesis using i by (cases "j = i") auto
  next
    case (dunlock j p c b w')
    then show ?thesis using i m sc(2) [of c] by (cases "j = i") auto
  next
    case (test j p fl y)
    then show ?thesis using i x by (cases "j = i"; cases "pr_stage p") auto
  next
    case (receive j p w1 sig w' y)
    then show ?thesis using i x by (cases "j = i"; cases "pr_stage p") auto
  next
    case (command j p cmd r out go w')
    then show ?thesis using i x by (cases "j = i") auto
  next
    case (halt j p r)
    then show ?thesis using i x by (cases "j = i") auto
  next
    case (notify j p n u w')
    then show ?thesis using i by (cases "j = i") auto
  next
    case (halted j p)
    then show ?thesis using i len by (cases "j = i") auto
  qed simp
qed

lemma wh_length: "wh_step st st' \<Longrightarrow> length (w_ps st') = length (w_ps st)"
  by (auto elim: wh_step.cases)

lemma stop_inv_step:
  assumes reach: "wh_reachable st" and inv: "stop_inv i st" and step: "wh_step st st'"
  shows "stop_inv i st'"
proof -
  note i = inv [unfolded stop_inv_def]
  have x: "stopping (pr_stage (w_ps st ! i))" using i by (cases "pr_stage (w_ps st ! i)") auto
  have run: "\<not> running (shm (ww st'))" using running_step [OF reach step] i by blast
  have len: "i < length (w_ps st')" using i wh_length [OF step] by simp
  note kept = notified_step [OF reach _ _ step]
  show ?thesis using stopping_moves [OF reach step conjunct1 [OF i] x]
  proof (elim disjE exE conjE)
    fix n w'
    assume n: "pr_stage (w_ps st ! i) = Halting n" "st' = set_proc i ((w_ps st ! i)\<lparr>pr_stage := Halting (Suc n)\<rparr>) w' st"
      "active (users (shm (ww st)) ! n) \<longrightarrow> sendSignal (session_pid (users (shm (ww st)) ! n)) SIGNAL_END_WORK (ww st) = Done () w'"
    have "notified (Suc n) st'" unfolding n(2)
      using kept i n mail_sent wh_world(1) [OF reach] by (intro notified_next [OF reach]) (auto simp: bound_to_wait_def)
    then show ?thesis using n(2) run i by (simp add: stop_inv_def)
  qed (use i run len kept in \<open>auto simp: stop_inv_def split: stage.splits\<close>)
qed

lemma stop_inv_steps:
  assumes "wh_step\<^sup>*\<^sup>* st st'" "wh_reachable st" "stop_inv i st"
  shows "stop_inv i st'"
  using assms(1)
proof induction
  case (step st1 st2)
  then show ?case using stop_inv_step reachable_steps [OF step(1) assms(2)] by blast
qed (rule assms(3))

section \<open>Who is left\<close>

definition left_at_belt :: "process \<Rightarrow> world \<Rightarrow> bool" where
  "left_at_belt p w \<longleftrightarrow> pr_kind p = DispatcherR \<and> pr_mode p = AtSem PopC \<and> belt_contents (shm w) = []
     \<or> (\<exists>n x. pr_kind p = WorkerR n \<and> pr_mode p = AtSem (PushC x)) \<and> length (belt_contents (shm w)) = 10"

definition returned :: "process \<Rightarrow> bool" where
  "returned p \<longleftrightarrow> pr_mode p = Here \<and> (pr_stage p = Finished \<or> pr_stage p = Failed)"

lemma left_over:
  assumes "wh_reachable st" "\<not> running (shm (ww st))" "resources (ww st)" "\<not> can_move st" "p \<in> set (w_ps st)"
  shows "returned p \<or> left_at_belt p (ww st) \<or> waits_for_signal p (ww st)"
proof -
  have left: "returned q \<or> waits_for_belt q (ww st) \<or> waits_for_signal q (ww st)" if "q \<in> set (w_ps st)" for q
    using stuck_process [OF assms(1,3,2,4) that] by (simp add: returned_def)
  have "\<forall>q \<in> set (w_ps st). pr_mode q = Here \<or> waits_for_belt q (ww st)"
    using left by (auto simp: returned_def waits_for_signal_def)
  note belt = stuck_belt [OF assms(1) this]
  have "proc_ok p" using wh_procs.inv_reachable [OF assms(1)] assms(5) by (simp add: procs_ok_def)
  then show ?thesis using left [OF assms(5)] belt
    by (auto simp: waits_for_belt_def left_at_belt_def proc_ok_def mode_ok_def calls_stage kind_stage_def)
qed

text \<open>When the loop of the stop command is over, everybody who waits has a message.\<close>

lemma nobody_waits:
  assumes "wh_reachable st" "notified 210 st" "p \<in> set (w_ps st)"
  shows "\<not> waits_for_signal p (ww st)"
proof
  assume w: "waits_for_signal p (ww st)"
  then have b: "bound_to_wait p" by (auto simp: waits_for_signal_def bound_to_wait_def)
  have "proc_ok p" using wh_procs.inv_reachable [OF assms(1)] assms(3) by (simp add: procs_ok_def)
  then show False
    using sess_row(2) [OF wh_sessions.inv_reachable [OF assms(1)] assms(3) bound_slot] b w assms(2,3)
    by (auto simp: notified_def waits_for_signal_def shared_consts)
qed

lemma stop_done:
  assumes "wh_reachable st" "resources (ww st)" "\<not> can_move st" "stop_inv i st"
  shows "notified 210 st"
proof -
  have i: "i < length (w_ps st)" "\<not> running (shm (ww st))" using assms(4) by (simp_all add: stop_inv_def)
  have ok: "proc_ok (w_ps st ! i)" by (rule procs_ok_nth [OF wh_procs.inv_reachable [OF assms(1)] i(1)])
  have "pr_stage (w_ps st ! i) = Finished"
    using left_over [OF assms(1) i(2) assms(2,3) nth_mem [OF i(1)]] assms(4) ok
    by (auto simp: stop_inv_def returned_def left_at_belt_def waits_for_signal_def proc_ok_def mode_ok_def calls_stage)
  then show ?thesis using assms(4) by (simp add: stop_inv_def)
qed

section \<open>A run of the stop command\<close>

text \<open>The world of a system that has been stopped before it handled a package.\<close>

definition stopped_world :: "UserSession list \<Rightarrow> CommandMessage list \<Rightarrow> world" where
  "stopped_world us q = boot_world\<lparr>shm := (shm boot_world)\<lparr>users := us, running := False\<rparr>, msgq := q\<rparr>"

lemma stopped_world_simps [simp]:
  "kernel (stopped_world us q) = []" "attached (stopped_world us q)" "sems (stopped_world us q) = sems boot_world"
  "msgq (stopped_world us q) = q" "users (shm (stopped_world us q)) = us" "\<not> running (shm (stopped_world us q))"
  "(stopped_world us q)\<lparr>msgq := q'\<rparr> = stopped_world us q'" "msg_qbytes (stopped_world us q) = 16384"
  by (simp_all add: stopped_world_def)

lemma stopped_users: "(stopped_world us q)\<lparr>shm := (shm (stopped_world us q))\<lparr>users := us'\<rparr>\<rparr> = stopped_world us' q"
  by (simp add: stopped_world_def)

lemma stopped_resources: "length q \<le> 210 \<Longrightarrow> resources (stopped_world us q)"
  by (simp add: resources_def msg_room_def)
    (simp add: stopped_world_def init_shm_def zero_SharedState_def zero_TruckState_def in_int32_iff INT32_MAX_def)

lemma stopped_send:
  assumes "length q < 210"
  shows "sendSignal p sig (stopped_world us q) =
     Done () (stopped_world us (if p < 1 then q else q @ [\<lparr>mtype = p, command_id = signal_id sig\<rparr>]))"
proof -
  have "(stopped_world us x)\<lparr>kernel := []\<rparr> = stopped_world us x" "(stopped_world us q)\<lparr>kernel := [], msgq := x\<rparr> = stopped_world us x" for x
    by (simp_all add: stopped_world_def boot_world_def)
  then show ?thesis using assms by (simp add: sendSignal_def Let_def)
qed

lemma solo_logout:
  assumes r: "wh_reachable (plant xs (stopped_world us q) a g l)" and i: "i < length xs" "xs ! i = proc_at p k c Logout"
  shows "\<exists>us'. wh_step\<^sup>*\<^sup>* (plant xs (stopped_world us q) a g l) (plant (xs[i := proc_at p k (-1) Finished]) (stopped_world us' q) a g l)"
proof -
  have "slot (xs ! i) = Some c" "xs ! i \<in> set xs" using i(1) by (simp_all add: i(2) slot_def del: nth_mem) (metis i nth_mem)
  then have row: "0 \<le> c" "c < MAX_USERS_SESSIONS" "us ! nat c = entry (xs ! i)"
    using sess_row [OF wh_sessions.inv_reachable [OF r], of "xs ! i" c] by simp_all
  have s: "sessions_inv (shm (stopped_world us q))" using wh_sessions.inv_reachable [OF r] by (simp add: sess_inv_def)
  have c: "session_index_ok c (shm (stopped_world us q))" "c \<noteq> -1"
    using row by (auto simp: session_index_ok_def)
  obtain s' where s': "logout_body c (shm (stopped_world us q)) = Some (-1, s')" "s' = (shm (stopped_world us q))\<lparr>users := users s'\<rparr>"
    using logout_body_spec [OF s c] by blast
  have "logout c (stopped_world us q) = Done (-1) ((stopped_world us q)\<lparr>shm := s'\<rparr>)"
    using s'(1) c(2) by (simp add: logout_def belt_mutex.bracket_shm init_sems_def)
  moreover have "(stopped_world us q)\<lparr>shm := s'\<rparr> = stopped_world (users s') q" by (subst s'(2)) (simp add: stopped_users)
  ultimately have "run_method (LogoutC c) (stopped_world us q) = Done (Flag True) (stopped_world (users s') q)"
    by (simp add: method_equations(2) c(2))
  from solo_method [of i "plant xs (stopped_world us q) a g l", OF _ refl _ sample_draw_legal _ , of "LogoutC c", simplified, OF _ _ _ this]
  show ?thesis using i by auto
qed

lemma notify_run:
  assumes "n + m = 210" "i < length xs" "xs ! i = proc_at p k c (Halting n)" "length us = 210"
    "length q \<le> n" "\<forall>x. set (mailbox x q) \<subseteq> {SIGNAL_END_WORK}"
  shows "\<exists>q'. wh_step\<^sup>*\<^sup>* (plant xs (stopped_world us q) a g l)
       (plant (xs[i := proc_at p k c (Halting 210)]) (stopped_world us q') a g l)
     \<and> length q' \<le> 210 \<and> (\<forall>x. set (mailbox x q') \<subseteq> {SIGNAL_END_WORK})"
  using assms
proof (induction m arbitrary: n xs q)
  case 0
  then have "xs[i := proc_at p k c (Halting 210)] = xs" by (metis add.right_neutral list_update_id)
  then show ?case using 0 by auto
next
  case (Suc m)
  have "\<exists>q1. (if active (us ! n) then sendSignal (session_pid (us ! n)) SIGNAL_END_WORK (stopped_world us q) else Done () (stopped_world us q))
      = Done () (stopped_world us q1) \<and> length q1 \<le> Suc n \<and> (\<forall>x. set (mailbox x q1) \<subseteq> {SIGNAL_END_WORK})"
    using Suc.prems stopped_send [of q "session_pid (us ! n)" SIGNAL_END_WORK us]
    by (cases "active (us ! n)"; cases "session_pid (us ! n) < 1") (force simp: mailbox_def)+
  then obtain q1 where q1: "(if active (us ! n) then sendSignal (session_pid (us ! n)) SIGNAL_END_WORK (stopped_world us q)
      else Done () (stopped_world us q)) = Done () (stopped_world us q1)" "length q1 \<le> Suc n" "\<forall>x. set (mailbox x q1) \<subseteq> {SIGNAL_END_WORK}" by blast
  have "wh_step (plant xs (stopped_world us q) a g l) (plant (xs[i := proc_at p k c (Halting (Suc n))]) (stopped_world us q1) a g l)"
    using wh_step.notify [of i "plant xs (stopped_world us q) a g l" _ n, OF _ refl _ _ _ refl, of "stopped_world us q1"] Suc.prems q1(1)
    by (cases "active (us ! n)") simp_all
  moreover obtain q' where "wh_step\<^sup>*\<^sup>* (plant (xs[i := proc_at p k c (Halting (Suc n))]) (stopped_world us q1) a g l)
      (plant (xs[i := proc_at p k c (Halting 210)]) (stopped_world us q') a g l)"
    "length q' \<le> 210" "\<forall>x. set (mailbox x q') \<subseteq> {SIGNAL_END_WORK}"
    using Suc.IH [of "Suc n" "xs[i := proc_at p k c (Halting (Suc n))]" q1] Suc.prems q1(2,3) by auto
  ultimately show ?case by (meson converse_rtranclp_into_rtranclp)
qed

text \<open>A console and the express worker are logged in, the express worker waits for its signal.\<close>

lemma office:
  "\<exists>us a b. wh_reachable (plant [proc_at 100 ConsoleR a (Halting 0), proc_at 200 ExpressR b ExpWait] (stopped_world us []) [] [] [])"
proof -
  define xs where "xs = [proc_at 100 ConsoleR (-1) Login, proc_at 200 ExpressR (-1) Login]"
  have u0: "filter active (users (shm boot_world)) = []"
    by (simp add: init_shm_def zero_SharedState_def zero_UserSession_def)
  have keys: "login_key ''AdminConsole'' = ''AdminConsole''" "login_key ''System-Express'' = ''System-Express''" by code_simp+
  note sl = keys boot_at_rest boot_sessions(3) u0
  have r0: "wh_reachable (plant xs boot_world [] [] [])"
    by (rule reachable.start) (simp add: wh_init_def started_def plant_def xs_def proc_at_def)
  obtain a s1 where a: "wh_step\<^sup>*\<^sup>* (plant xs boot_world [] [] [])
      (plant [proc_at 100 ConsoleR a ConsoleTest, xs ! 1] (boot_world\<lparr>shm := s1\<rparr>) [] [] [])"
    "at_rest (boot_world\<lparr>shm := s1\<rparr>)" "s1 = (shm boot_world)\<lparr>users := users s1\<rparr>"
    "\<forall>m. m \<noteq> ''AdminConsole'' \<longrightarrow> session_of m s1 = None" "length (filter active (users s1)) = 1"
    using solo_login [of 0 "plant xs boot_world [] [] []" "xs ! 0"] sl by (auto simp: xs_def)
  obtain b s2 where b: "wh_step\<^sup>*\<^sup>* (plant [proc_at 100 ConsoleR a ConsoleTest, xs ! 1] (boot_world\<lparr>shm := s1\<rparr>) [] [] [])
      (plant [proc_at 100 ConsoleR a ConsoleTest, proc_at 200 ExpressR b ExpTest] (boot_world\<lparr>shm := s2\<rparr>) [] [] [])"
    "at_rest (boot_world\<lparr>shm := s2\<rparr>)" "s2 = s1\<lparr>users := users s2\<rparr>"
    using solo_login [of 1 "plant [proc_at 100 ConsoleR a ConsoleTest, xs ! 1] (boot_world\<lparr>shm := s1\<rparr>) [] [] []" "xs ! 1"]
      sl a(2,4,5) by (auto simp: xs_def)
  have run: "running s2" using b(2) by (simp add: at_rest_def)
  have r: "wh_reachable (plant [proc_at 100 ConsoleR a ConsoleRead, proc_at 200 ExpressR b ExpWait] (boot_world\<lparr>shm := s2\<rparr>) [] [] [])" (is "wh_reachable ?st")
    using solo_test [OF solo_test [OF reachable_steps [OF b(1) reachable_steps [OF a(1) r0]], where i = 0 and y = ConsoleRead], where i = 1 and y = ExpWait]
      run by simp
  have role: "getCurrentRole a (ww ?st) = Some (UserRole_or Operator SysAdmin)"
    using current_role [OF r, of "proc_at 100 ConsoleR a ConsoleRead"] by simp
  have s2: "s2 = (shm boot_world)\<lparr>users := users s2\<rparr>" by (subst b(3), subst a(3)) simp
  have admin: "UserRole_hasFlag (UserRole_or Operator SysAdmin) SysAdmin" by code_simp
  have "wh_step ?st (set_proc 0 ((w_ps ?st ! 0)\<lparr>pr_stage := Halting 0\<rparr>) ((ww ?st)\<lparr>shm := (shm (ww ?st))\<lparr>running := False\<rparr>\<rparr>) ?st)"
    by (rule wh_step.halt [OF _ refl]) (use role admin in simp_all)
  moreover have "boot_world\<lparr>shm := s2\<lparr>running := False\<rparr>\<rparr> = stopped_world (users s2) []"
    by (subst s2) (simp add: stopped_world_def boot_world_def)
  ultimately have "wh_step ?st (plant [proc_at 100 ConsoleR a (Halting 0), proc_at 200 ExpressR b ExpWait] (stopped_world (users s2) []) [] [] [])"
    by simp
  with r show ?thesis by (meson reachable.further)
qed

lemma stop_run:
  "\<exists>us a b us' q. wh_reachable (plant [proc_at 100 ConsoleR a (Halting 0), proc_at 200 ExpressR b ExpWait] (stopped_world us []) [] [] [])
     \<and> wh_step\<^sup>*\<^sup>* (plant [proc_at 100 ConsoleR a (Halting 0), proc_at 200 ExpressR b ExpWait] (stopped_world us []) [] [] [])
         (plant [proc_at 100 ConsoleR (-1) Finished, proc_at 200 ExpressR (-1) Finished] (stopped_world us' q) [] [] [])
     \<and> length q \<le> 210"
proof -
  obtain us a b where r: "wh_reachable (plant [proc_at 100 ConsoleR a (Halting 0), proc_at 200 ExpressR b ExpWait] (stopped_world us []) [] [] [])"
    (is "wh_reachable ?st0") using office by blast
  have len: "length us = 210"
    using wh_sessions.inv_reachable [OF r] by (simp add: sess_inv_def sessions_inv_def shared_consts)
  obtain q where q: "wh_step\<^sup>*\<^sup>* ?st0 (plant [proc_at 100 ConsoleR a (Halting 210), proc_at 200 ExpressR b ExpWait] (stopped_world us q) [] [] [])"
    "length q \<le> 210" "set (mailbox 200 q) \<subseteq> {SIGNAL_END_WORK}"
    using notify_run [of 0 210 0 "w_ps ?st0" 100 ConsoleR a us "[]" "[]" "[]" "[]"] len by auto
  have s1: "wh_step\<^sup>*\<^sup>* ?st0 (plant [proc_at 100 ConsoleR a Logout, proc_at 200 ExpressR b ExpWait] (stopped_world us q) [] [] [])" (is "wh_step\<^sup>*\<^sup>* _ ?st1")
    using wh_step.halted [of 0 "plant [proc_at 100 ConsoleR a (Halting 210), proc_at 200 ExpressR b ExpWait] (stopped_world us q) [] [] []"] len q(1)
    by (auto intro: rtranclp.rtrancl_into_rtrancl)
  note r1 = reachable_steps [OF s1 r]
  have "notified 210 ?st1" using stop_inv_steps [OF s1 r stop_inv_start [OF r, of 0]] by (simp add: stop_inv_def)
  then have "mailbox 200 q \<noteq> []"
    using nobody_waits [OF r1, of "proc_at 200 ExpressR b ExpWait"] by (simp add: waits_for_signal_def)
  then obtain sig q1 where m: "msg_recv 200 q = Some (sig, q1)"
    using queue_channel.recv_None [of 200 q] by (cases "msg_recv 200 q") auto
  then have "sig = SIGNAL_END_WORK" using queue_channel.recv_Some [of 200 q sig q1] q(3) by auto
  then have "wh_step ?st1 (plant [proc_at 100 ConsoleR a Logout, proc_at 200 ExpressR b Logout] (stopped_world us q1) [] [] [])" (is "wh_step _ ?st2")
    using wh_step.receive [of 1 ?st1, OF _ refl _ disjI1 [OF refl], of sig "stopped_world us q1" Logout] m
    by (simp add: receiveSignalBlocking_alt)
  then have s2: "wh_step\<^sup>*\<^sup>* ?st0 ?st2" using s1 by (rule rtranclp.rtrancl_into_rtrancl [rotated])
  obtain us2 where "wh_step\<^sup>*\<^sup>* ?st2 (plant [proc_at 100 ConsoleR (-1) Finished, proc_at 200 ExpressR b Logout] (stopped_world us2 q1) [] [] [])" (is "wh_step\<^sup>*\<^sup>* _ ?st3")
    using solo_logout [OF reachable_steps [OF s2 r], of 0 100 ConsoleR a] by auto
  then have s3: "wh_step\<^sup>*\<^sup>* ?st0 ?st3" using s2 by (rule rtranclp_trans [rotated])
  obtain us3 where "wh_step\<^sup>*\<^sup>* ?st3 (plant [proc_at 100 ConsoleR (-1) Finished, proc_at 200 ExpressR (-1) Finished] (stopped_world us3 q1) [] [] [])" (is "wh_step\<^sup>*\<^sup>* _ ?st4")
    using solo_logout [OF reachable_steps [OF s3 r], of 1 200 ExpressR b] by auto
  then have "wh_step\<^sup>*\<^sup>* ?st0 ?st4" using s3 by (rule rtranclp_trans [rotated])
  moreover have "length q1 \<le> 210"
    using m q(2) by (auto simp: msg_recv_def msg_take_def extract_Some_iff split: option.splits)
  ultimately show ?thesis using r by blast
qed

text \<open>A dispatcher that waits for a package when the master stops the system.\<close>

lemma waiting_dispatcher:
  "\<exists>w a. wh_reachable (plant [(proc_at 100 DispatcherR a Pop)\<lparr>pr_mode := AtSem PopC\<rparr>] w [] [] [])
     \<and> w = boot_world\<lparr>shm := (shm boot_world)\<lparr>users := users (shm w), running := False\<rparr>\<rparr>"
proof -
  define xs where "xs = [proc_at 100 DispatcherR (-1) Login]"
  have u0: "filter active (users (shm boot_world)) = []"
    by (simp add: init_shm_def zero_SharedState_def zero_UserSession_def)
  have r0: "wh_reachable (plant xs boot_world [] [] [])"
    by (rule reachable.start) (simp add: wh_init_def started_def plant_def xs_def proc_at_def)
  obtain a s1 where a: "wh_step\<^sup>*\<^sup>* (plant xs boot_world [] [] []) (plant [proc_at 100 DispatcherR a PopTest] (boot_world\<lparr>shm := s1\<rparr>) [] [] [])"
    "at_rest (boot_world\<lparr>shm := s1\<rparr>)" "s1 = (shm boot_world)\<lparr>users := users s1\<rparr>"
    using solo_login [of 0 "plant xs boot_world [] [] []" "xs ! 0"] three_keys boot_at_rest boot_sessions(3) u0 by (auto simp: xs_def)
  have "wh_reachable (plant [proc_at 100 DispatcherR a Pop] (boot_world\<lparr>shm := s1\<rparr>) [] [] [])"
    using solo_test [OF reachable_steps [OF a(1) r0], of 0 Pop] a(2) by (simp add: at_rest_def)
  then have "wh_reachable (plant [(proc_at 100 DispatcherR a Pop)\<lparr>pr_mode := AtSem PopC\<rparr>] (boot_world\<lparr>shm := s1\<rparr>) [] [] [])" (is "wh_reachable ?st")
    using wh_step.call [of 0 "plant [proc_at 100 DispatcherR a Pop] (boot_world\<lparr>shm := s1\<rparr>) [] [] []" "proc_at 100 DispatcherR a Pop"
        sample_draw PopC] sample_draw_legal by (auto intro: reachable.further)
  from reachable.further [OF this wh_step.master]
  have "wh_reachable (plant [(proc_at 100 DispatcherR a Pop)\<lparr>pr_mode := AtSem PopC\<rparr>] (boot_world\<lparr>shm := s1\<lparr>running := False\<rparr>\<rparr>) [] [] [])"
    by (simp add: plant_def)
  moreover have "boot_world\<lparr>shm := s1\<lparr>running := False\<rparr>\<rparr> =
      boot_world\<lparr>shm := (shm boot_world)\<lparr>users := users s1, running := False\<rparr>\<rparr>" by (subst a(3)) simp
  ultimately show ?thesis
    by (intro exI [of _ "boot_world\<lparr>shm := s1\<lparr>running := False\<rparr>\<rparr>"] exI [of _ a]) simp
qed

section \<open>Properties\<close>

text \<open>
  C8: who can be left after the shutdown.  When a stopped system stands still (no process can move but by
  having its wait for a signal interrupted, the message queue is not full and no counter is at its
  limit), every process has returned from its \<open>main\<close>, or it is blocked without looking at \<open>running\<close>:
  dispatchers that wait for a package on an empty belt, or workers that wait for a slot on a full belt,
  never both; trucks and the express worker that wait for a signal nobody has sent.  No process is left
  inside a critical section or at a mutex.
\<close>

theorem shutdown_leaves_only_waiters:
  assumes "wh_reachable st" "\<not> running (shm (ww st))" "resources (ww st)" "\<not> can_move st"
  shows "\<forall>p \<in> set (w_ps st). pr_mode p = Here \<and> (pr_stage p = Finished \<or> pr_stage p = Failed)
     \<or> pr_kind p = DispatcherR \<and> pr_mode p = AtSem PopC \<and> belt_contents (shm (ww st)) = []
     \<or> (\<exists>n x. pr_kind p = WorkerR n \<and> pr_mode p = AtSem (PushC x)) \<and> length (belt_contents (shm (ww st))) = 10
     \<or> pr_mode p = Here \<and> (pr_stage p = Trucking Waiting \<or> pr_stage p = ExpWait) \<and> mailbox (pr_pid p) (msgq (ww st)) = []"
  using left_over [OF assms] by (auto simp: returned_def left_at_belt_def waits_for_signal_def)

theorem shutdown_leaves_only_waiters_witness:
  "\<exists>st p. wh_reachable st \<and> \<not> can_move st \<and> w_ps st = [p] \<and> pr_mode p = AtSem PopC \<and> belt_contents (shm (ww st)) = []"
proof -
  obtain w a where r: "wh_reachable (plant [(proc_at 100 DispatcherR a Pop)\<lparr>pr_mode := AtSem PopC\<rparr>] w [] [] [])" (is "wh_reachable ?st")
    and w: "w = boot_world\<lparr>shm := (shm boot_world)\<lparr>users := users (shm w), running := False\<rparr>\<rparr>"
    using waiting_dispatcher by blast
  have s: "\<not> running (shm w)" "kernel w = []" "sems w SEM_FULL_SLOTS = 0"
    by (subst w; simp add: init_sems_def)+
  have "w = stopped_world (users (shm w)) []" by (subst w) (simp add: stopped_world_def boot_world_def)
  then have res: "resources w" using stopped_resources [of "[]" "users (shm w)"] by simp
  have stuck: "\<not> can_move ?st"
  proof
    assume "can_move ?st"
    then obtain st' where "wh_step ?st st'" "w_ps st' ! 0 \<noteq> w_ps ?st ! 0" by (auto simp: can_move_def)
    then show False
    proof cases
      case (wait i p c k w')
      then have "semOperation SEM_FULL_SLOTS (-1) w = Done () w'" by auto
      then show ?thesis using s by (simp add: semOperation_def)
    qed auto
  qed
  then have "belt_contents (shm (ww ?st)) = []" using shutdown_leaves_only_waiters [OF r] s(1) res by simp
  then show ?thesis using r stuck by (intro exI [of _ ?st] exI [of _ "(proc_at 100 DispatcherR a Pop)\<lparr>pr_mode := AtSem PopC\<rparr>"]) simp
qed

text \<open>
  C7: the stop command reaches everybody who waits for a signal.  Let a console have accepted \<open>stop\<close>: it
  has cleared \<open>running\<close> and begins to send \<open>SIGNAL_END_WORK\<close> to the active sessions, while all other
  processes go on, log in and out.  When the system then stands still (with space in the message queue and
  no counter at its limit), no truck and no express worker is left waiting for a signal: every process
  has returned, or waits for the belt.  Interruptions by Unix signals play no part in this.
\<close>

theorem stop_command_reaches_everybody:
  assumes "wh_reachable st0" "i < length (w_ps st0)" "pr_stage (w_ps st0 ! i) = Halting 0" "\<not> running (shm (ww st0))"
    and "wh_step\<^sup>*\<^sup>* st0 st" "resources (ww st)" "\<not> can_move st"
  shows "\<forall>p \<in> set (w_ps st). pr_mode p = Here \<and> (pr_stage p = Finished \<or> pr_stage p = Failed)
     \<or> pr_kind p = DispatcherR \<and> pr_mode p = AtSem PopC \<and> belt_contents (shm (ww st)) = []
     \<or> (\<exists>n x. pr_kind p = WorkerR n \<and> pr_mode p = AtSem (PushC x)) \<and> length (belt_contents (shm (ww st))) = 10"
proof -
  note r = reachable_steps [OF assms(5,1)] and inv = stop_inv_steps [OF assms(5,1) stop_inv_start [OF assms(1-4)]]
  have run: "\<not> running (shm (ww st))" using inv by (simp add: stop_inv_def)
  show ?thesis
    using left_over [OF r run assms(6,7)] nobody_waits [OF r stop_done [OF r assms(6,7) inv]]
    by (auto simp: returned_def left_at_belt_def)
qed

text \<open>The express worker waits when the console stops the system; both return.\<close>

theorem stop_command_reaches_everybody_witness:
  "\<exists>st0 st. wh_reachable st0 \<and> map pr_stage (w_ps st0) = [Halting 0, ExpWait] \<and> wh_step\<^sup>*\<^sup>* st0 st \<and> \<not> can_move st
     \<and> map pr_kind (w_ps st) = [ConsoleR, ExpressR] \<and> map pr_stage (w_ps st) = [Finished, Finished]
     \<and> (\<forall>p \<in> set (w_ps st). \<not> (\<exists>x. pr_mode p = AtSem x))"
proof -
  obtain us a b us' q where
    r: "wh_reachable (plant [proc_at 100 ConsoleR a (Halting 0), proc_at 200 ExpressR b ExpWait] (stopped_world us []) [] [] [])"
    and s: "wh_step\<^sup>*\<^sup>* (plant [proc_at 100 ConsoleR a (Halting 0), proc_at 200 ExpressR b ExpWait] (stopped_world us []) [] [] [])
      (plant [proc_at 100 ConsoleR (-1) Finished, proc_at 200 ExpressR (-1) Finished] (stopped_world us' q) [] [] [])"
    and q: "length q \<le> 210"
    using stop_run by blast
  let ?st = "plant [proc_at 100 ConsoleR (-1) Finished, proc_at 200 ExpressR (-1) Finished] (stopped_world us' q) [] [] []"
  have stuck: "\<not> can_move ?st"
  proof
    assume "can_move ?st"
    then obtain i st' where "wh_step ?st st'" "w_ps st' ! i \<noteq> w_ps ?st ! i" by (auto simp: can_move_def)
    then show False by cases (auto simp: less_Suc_eq)
  qed
  from stop_command_reaches_everybody [OF r, of 0 ?st] s stopped_resources [OF q] this
  have "\<forall>p \<in> set (w_ps ?st). pr_mode p = Here" by auto
  then show ?thesis using r s stuck by (intro exI [of _ "plant [proc_at 100 ConsoleR a (Halting 0), proc_at 200 ExpressR b ExpWait] (stopped_world us []) [] [] []"] exI [of _ ?st]) simp
qed

end
