(* ===== verification/Warehouse_Types.thy ===== *)
theory Warehouse_Types
  imports Warehouse_Sessions Warehouse_Packages
begin

text \<open>
  The type of the shared segment: every array has its declared length, every integer field fits its C
  type and its documented range, the floating-point fields hold doubles, the truck at the dock has the
  limits a truck can draw, and every message in the queue is one the program can send.  The parts that
  no earlier invariant gives are shown to be kept by every step of the whole system.
\<close>

section \<open>Typed values\<close>

definition truck_typed :: "TruckState \<Rightarrow> bool" where
  "truck_typed t \<longleftrightarrow> truck_loads_ok t \<and> 0 \<le> current_load t \<and> current_load t \<le> INT32_MAX
     \<and> (is_present t \<longrightarrow> 0 < truck_id t \<and> max_load t = 100
          \<and> dle (Fin 200) (max_weight t) \<and> dle (max_weight t) (Fin 600)
          \<and> dle (Fin 1) (max_volume t) \<and> dle (max_volume t) (Fin 3))"

definition message_typed :: "CommandMessage \<Rightarrow> bool" where
  "message_typed m \<longleftrightarrow> 0 < mtype m \<and> 0 \<le> command_id m \<and> command_id m \<le> 3"

definition typed :: "world \<Rightarrow> bool" where
  "typed w \<longleftrightarrow> truck_typed (dock_truck (shm w)) \<and> is_double (current_belt_weight (shm w))
     \<and> 0 \<le> trucks_completed (shm w) \<and> trucks_completed (shm w) \<le> INT32_MAX
     \<and> (\<forall>m \<in> set (msgq w). message_typed m)"

lemma typed_cong:
  "shm w' = shm w \<Longrightarrow> msgq w' = msgq w \<Longrightarrow> typed w' = typed w"
  by (simp add: typed_def)

lemma is_double_dneg: "is_double x \<Longrightarrow> is_double (dneg x)"
  by (cases x) simp_all

lemma is_double_dsub: "is_double x \<Longrightarrow> is_double y \<Longrightarrow> is_double (dsub x y)"
  by (simp add: dsub_def is_double_dadd is_double_dneg)

section \<open>The operations keep the types\<close>

lemma typed_sem: "semOperation k v w = Done () w' \<Longrightarrow> typed w \<Longrightarrow> typed w'"
  by (auto simp: semOperation_def typed_def Let_def split: list.splits option.splits if_splits)

lemma typed_send: "sendSignal p sig w = Done u w' \<Longrightarrow> typed w \<Longrightarrow> typed w'"
  using signal_id_range [of sig]
  by (auto simp: sendSignal_def typed_def message_typed_def Let_def split: list.splits option.splits if_splits)

lemma msg_take_subset: "msg_take p q = Some (m, q') \<Longrightarrow> set q' \<subseteq> set q"
  by (auto simp: msg_take_def extract_Some_iff split: option.splits)

lemma typed_receive: "receiveSignalBlocking p w = Done sig w' \<Longrightarrow> typed w \<Longrightarrow> typed w'"
  by (auto simp: receiveSignalBlocking_def typed_def split: list.splits option.splits dest!: msg_take_subset)

lemma typed_command: "run_command idx cmd r go w = Done (out, go') w' \<Longrightarrow> cmd \<noteq> Stop \<Longrightarrow> typed w \<Longrightarrow> typed w'"
  by (cases cmd) (auto simp: run_command_def handleVip_def handleDepart_def Let_def obind_eq_Done_iff
      dest: typed_send split: if_splits)

lemma put_typed:
  assumes "truck_typed t" "is_double (weight q)" "is_double (volume q)" "dle (Fin 0) (weight q)" "dle (Fin 0) (volume q)"
    "cadd (current_load t) 1 = Some n"
  shows "truck_typed (put_package q t)"
proof -
  have "current_load (put_package q t) = current_load t + 1" by (simp add: put_package_def)
  moreover have "current_load t + 1 \<le> INT32_MAX" using assms(6) by (simp add: cadd_def in_int32_def split: if_splits)
  ultimately show ?thesis
    using package_loader.put_grows [of t q] package_loader.put_frame [of q t] assms(1-5) by (simp add: truck_typed_def)
qed

lemma put_express_typed:
  assumes "truck_typed t" "is_double (fst d)" "dle (Fin 0) (fst d)"
  shows "truck_typed (put_express d t)"
proof -
  have "current_load (put_express d t) = current_load t" by (simp add: put_express_def)
  then show ?thesis
    using express_loader.put_grows [of t d] express_loader.put_frame [of d t] item_volume_bounds [of "snd d"] assms
    by (simp add: truck_typed_def)
qed

lemma legal_package_sizes: "legal_package q \<Longrightarrow> is_double (weight q) \<and> is_double (volume q)
    \<and> dle (Fin 0) (weight q) \<and> dle (Fin 0) (volume q)"
proof -
  assume q: "legal_package q"
  have lo: "dle (Fin 0) (lit (1 / 10))" using to_double_mono [of 0 "1 / 10"] by simp
  have "dle (Fin 0) (weight q)"
    using q dle_trans [OF lo, of "weight q"] dle_trans [of "Fin 0" "Fin 8" "weight q"]
      dle_trans [of "Fin 0" "Fin 16" "weight q"]
    by (auto simp: legal_package_def)
  then show ?thesis using q vol_ok by (auto simp: legal_package_def)
qed

lemma typed_load:
  assumes "load_attempt q w = Done b w'" "typed w" "legal_package q"
  shows "typed w'"
proof -
  note l = legal_package_sizes [OF assms(3)]
  have put: "typed (w\<lparr>shm := (shm w)\<lparr>dock_truck := put_package q (dock_truck (shm w))\<rparr>\<rparr>)"
    if "cadd (current_load (dock_truck (shm w))) 1 = Some n" for n
    using assms(2) put_typed [of _ q n] l that by (simp add: typed_def)
  then show ?thesis using assms(1,2)
    by (auto simp: load_attempt_def Let_def obind_eq_Done_iff dest: typed_send split: if_splits option.splits)
qed

lemma typed_express:
  "express_loop ds w = Done u w' \<Longrightarrow> typed w \<Longrightarrow> \<forall>d \<in> set ds. is_double (fst d) \<and> dle (Fin 0) (fst d) \<Longrightarrow> typed w'"
proof (induction ds arbitrary: w)
  case (Cons d ds)
  have "typed (w\<lparr>shm := (shm w)\<lparr>dock_truck := put_express d (dock_truck (shm w))\<rparr>\<rparr>)"
    using Cons.prems put_express_typed by (simp add: typed_def)
  then show ?case using Cons by (auto simp: Let_def dest: typed_send split: if_splits)
qed simp

lemma legal_draws_sizes: "legal_draws ds \<Longrightarrow> \<forall>d \<in> set ds. is_double (fst d) \<and> dle (Fin 0) (fst d)"
  using dle_trans [of "Fin 0" "Fin 1"] by (fastforce simp: legal_draws_def)

text \<open>A section at the dock, under the conditions every process meets.\<close>

lemma typed_dock:
  assumes sec: "dock_section p c w = Done b w'" and ty: "typed w" and p: "0 < p"
    and c: "case c of DockS r \<Rightarrow> legal_rolls r | LoadS q \<Rightarrow> legal_package q | ExpressS ds \<Rightarrow> legal_draws ds | _ \<Rightarrow> True"
  shows "typed w'"
proof (cases c)
  case (DockS r)
  then have "truck_typed (randomizeTruckSpecs p (roll_weight r) (roll_volume r) t)" for t
    using c p is_double_numeral
    by (simp add: truck_typed_def truck_loads_ok_def legal_rolls_def INT32_MAX_def) (simp add: randomizeTruckSpecs_def)
  then show ?thesis using sec ty DockS by (auto simp: on_shm_def dock_body_def typed_def split: if_splits)
next
  case (LoadS q)
  then show ?thesis using sec ty c typed_load by simp
next
  case (ExpressS ds)
  then show ?thesis using sec ty c typed_express legal_draws_sizes
    by (auto simp: obind_eq_Done_iff split: if_splits)
qed (use sec ty in \<open>auto simp: on_shm_def shutdown_body_def depart_body_def leave_body_def typed_def truck_typed_def
      truck_loads_ok_def bind_eq_Some_conv obind_eq_Done_iff cadd_def in_int32_def split: if_splits option.splits\<close>)

text \<open>A section under the belt mutex.\<close>

lemma typed_body:
  assumes "call_body c s = Some (a, s')" "typed (w\<lparr>shm := s\<rparr>)" "belt_inv s"
    "\<forall>q \<in> set (belt_contents s). legal_package q" "\<And>q. c = PushC q \<Longrightarrow> legal_package q"
  shows "typed (w\<lparr>shm := s'\<rparr>)"
proof -
  have "is_double (current_belt_weight s')"
  proof (cases c)
    case (PushC q)
    then show ?thesis using assms(1,2,5) legal_package_sizes [of q]
      by (auto simp: push_body_def typed_def Let_def bind_eq_Some_conv is_double_dadd split: if_splits)
  next
    case PopC
    show ?thesis
    proof (cases "0 < current_items_count s")
      case True
      then have h: "belt_contents s = hd (belt_contents s) # belt_contents s'"
        "current_belt_weight s' = dsub (current_belt_weight s) (weight (hd (belt_contents s)))"
        using pop_body_takes [OF assms(3)] assms(1) PopC by auto
      have "hd (belt_contents s) \<in> set (belt_contents s)" by (subst h(1)) simp
      then have "is_double (weight (hd (belt_contents s)))" using assms(4) legal_package_sizes by blast
      then show ?thesis using h(2) assms(2) by (simp add: typed_def is_double_dsub)
    next
      case False
      then show ?thesis using assms(1,2) PopC by (auto simp: pop_body_def typed_def)
    qed
  qed (use assms(1,2) in \<open>auto simp: login_body_def logout_body_def registerWorker_body_def unregisterWorker_body_def
      trySpawnProcess_body_def reportProcessFinished_body_def typed_def Let_def bind_eq_Some_conv split: if_splits\<close>)
  then show ?thesis using assms(2) call_body_dock [OF assms(1)] by (simp add: typed_def)
qed

section \<open>Every reachable state is typed\<close>

lemma packages_legal:
  assumes "wh_reachable st"
  shows "\<forall>q \<in> set (belt_contents (shm (ww st))). legal_package q"
    and "\<And>p q. p \<in> set (w_ps st) \<Longrightarrow> q \<in> set (hand p) \<Longrightarrow> legal_package q"
proof -
  have l: "\<forall>q \<in> set (w_acc st). legal_package q"
    using wh_packages.inv_reachable [OF assms] by (simp add: packages_inv_def)
  have m: "set (w_acc st) = set_mset (mset (map snd (w_loaded st)) + mset (w_dropped st) + in_hands st
      + mset (belt_contents (shm (ww st))))"
    using all_places(1) [OF assms] by (metis set_mset_mset)
  then show "\<forall>q \<in> set (belt_contents (shm (ww st))). legal_package q" using l by auto
  show "legal_package q" if "p \<in> set (w_ps st)" "q \<in> set (hand p)" for p q
    using l m that by (auto simp: in_hands_def)
qed

lemma typed_step:
  assumes reach: "wh_reachable st" and ty: "typed (ww st)" and step: "wh_step st st'"
  shows "typed (ww st')"
proof -
  note ok = procs_ok_nth [OF wh_procs.inv_reachable [OF reach]]
  from step show ?thesis
  proof cases
    case (body i p c a s')
    have "legal_package q" if "c = PushC q" for q
      using ok [OF body(2)] body that by (auto simp: proc_ok_def mode_ok_def calls_stage make_package_legal)
    then show ?thesis
      using body typed_body [OF body(5), of "ww st"] ty belt_reachable_inv [OF reach] packages_legal(1) [OF reach] by simp
  next
    case (dbody i p c b w')
    have d: "docks p c" "0 < pr_pid p" using ok [OF dbody(2)] dbody by (auto simp: proc_ok_def mode_ok_def)
    have "legal_package q" if "c = LoadS q" for q
      using packages_legal(2) [OF reach, of p q] docks_stage [OF d(1)] dbody that by (simp add: hand_def)
    then show ?thesis using dbody typed_dock [OF dbody(5) ty d(2)] docks_stage [OF d(1)] by (simp split: dock_call.splits)
  next
    case (receive i p w1 sig w' x)
    then have "typed w1" using ty typed_cong [of w1 "ww st"] by auto
    then show ?thesis using receive typed_receive by simp
  next
    case (command i p cmd r out go w')
    then show ?thesis using ty typed_command by simp
  next
    case (notify i p n u w')
    then show ?thesis using ty typed_send by (auto split: if_splits)
  qed (use ty typed_sem in \<open>auto simp: lockBelt_def unlockBelt_def lockDock_def unlockDock_def typed_def\<close>)
qed

interpretation wh_typed: inductive_invariant wh_init wh_step "\<lambda>st. typed (ww st)"
proof unfold_locales
  show "typed (ww st)" if "wh_init st" for st
    using that
    by (simp add: wh_init_def typed_def init_shm_def zero_SharedState_def zero_TruckState_def truck_typed_def
        truck_loads_ok_def INT32_MAX_def)
qed (use typed_step in blast)

lemma sems_bounds:
  assumes "wh_reachable st"
  shows "0 \<le> sems (ww st) k" "sems (ww st) SEM_MUTEX_BELT \<le> 1" "sems (ww st) SEM_DOCK_MUTEX \<le> 1"
    "sems (ww st) SEM_EMPTY_SLOTS + sems (ww st) SEM_FULL_SLOTS \<le> MAX_BELT_CAPACITY_K"
proof -
  have s: "sem_inv (abs_belt st)" using conc_reachable_inv [OF belt_refinement.abs_reachable [OF assms]] by blast
  have t: "0 \<le> tally f (abs_belt st)" if "\<And>x. 0 \<le> f x" for f
    using that by (auto simp: tally_def intro!: sum_list_nonneg)
  show "0 \<le> sems (ww st) k" by (rule wh_world(3) [OF assms])
  show "sems (ww st) SEM_MUTEX_BELT \<le> 1" using sem_invD(4) [OF s] t [of holds, OF claims_nonneg(2)] by simp
  show "sems (ww st) SEM_EMPTY_SLOTS + sems (ww st) SEM_FULL_SLOTS \<le> MAX_BELT_CAPACITY_K"
    using sem_invD(5,6) [OF s] t [of "claims SEM_EMPTY_SLOTS", OF claims_nonneg(1)] t [of "claims SEM_FULL_SLOTS", OF claims_nonneg(1)]
    by simp
  have "0 \<le> dtally st" by (auto simp: dtally_def dholds_nonneg intro!: sum_list_nonneg)
  then show "sems (ww st) SEM_DOCK_MUTEX \<le> 1" using wh_dock.inv_reachable [OF assms] by (simp add: dock_inv_def)
qed

section \<open>Properties\<close>

text \<open>
  C5: the shared segment is always well typed.  In every reachable state of the whole system the arrays
  have their declared lengths, user names are terminated inside their 32 bytes, the indices and counters
  are inside the arrays and the C types, the floating-point fields are doubles, the packages on the belt
  are of the three sizes with weights in their ranges, the docked truck has limits that a truck can draw
  and a positive pid, every message is addressed to a process and carries one of the four signals, and
  the semaphores stay between zero and their initial values.
\<close>

theorem shared_segment_typed:
  assumes "wh_reachable st"
  shows "length (belt (shm (ww st))) = nat MAX_BELT_CAPACITY_K \<and> length (users (shm (ww st))) = nat MAX_USERS_SESSIONS
     \<and> (\<forall>u \<in> set (users (shm (ww st))). session_ok u)
     \<and> 0 \<le> head (shm (ww st)) \<and> head (shm (ww st)) < MAX_BELT_CAPACITY_K
     \<and> 0 \<le> tail (shm (ww st)) \<and> tail (shm (ww st)) < MAX_BELT_CAPACITY_K
     \<and> 0 \<le> current_items_count (shm (ww st)) \<and> current_items_count (shm (ww st)) \<le> MAX_BELT_CAPACITY_K
     \<and> 0 \<le> total_packages_created (shm (ww st)) \<and> total_packages_created (shm (ww st)) \<le> INT32_MAX
     \<and> (\<forall>q \<in> set (belt_contents (shm (ww st))). legal_package q) \<and> typed (ww st)
     \<and> (\<forall>k. 0 \<le> sems (ww st) k) \<and> sems (ww st) SEM_MUTEX_BELT \<le> 1 \<and> sems (ww st) SEM_DOCK_MUTEX \<le> 1
     \<and> sems (ww st) SEM_EMPTY_SLOTS + sems (ww st) SEM_FULL_SLOTS \<le> MAX_BELT_CAPACITY_K"
  using belt_reachable_inv [OF assms] wh_sessions.inv_reachable [OF assms] wh_typed.inv_reachable [OF assms]
    packages_legal(1) [OF assms] sems_bounds [OF assms]
  by (simp add: belt_inv_def sess_inv_def sessions_inv_def shared_consts)

text \<open>After the first package has been loaded, the docked truck is truck 200 with a legal size.\<close>

theorem shared_segment_typed_witness:
  "\<exists>st q. wh_reachable st \<and> w_loaded st = [(200, q)] \<and> typed (ww st) \<and> length (users (shm (ww st))) = 210"
proof -
  obtain st q where st: "wh_reachable st" "w_loaded st = [(200, q)]" using first_package by blast
  with shared_segment_typed [OF st(1)] show ?thesis by (intro exI [of _ st] exI [of _ q]) (simp add: shared_consts)
qed

end
