(* ===== verification/Warehouse_Kill.thy ===== *)
theory Warehouse_Kill
  imports Warehouse_Sessions Warehouse_Packages
begin

text \<open>
  Processes that are killed.

  A signal without a handler, such as the \<open>SIGTERM\<close> of the master to the dispatcher, ends a process
  between two of its steps and runs no destructor.  The semaphore operations use \<open>sem_flg = 0\<close>, so the
  kernel undoes nothing.  Here the whole system runs while any process may be killed at any moment: a
  killed process keeps its control point and never moves again.  What has been shown of every reachable
  state stays true; what is lost is progress, and the properties say exactly what stays blocked.
\<close>

section \<open>The system with kills\<close>

text \<open>The second component is the set of positions of the killed processes.\<close>

type_synonym kstate = "warehouse \<times> nat set"

inductive kill_step :: "kstate \<Rightarrow> kstate \<Rightarrow> bool" where
  live: "wh_step st st' \<Longrightarrow> \<forall>i \<in> D. w_ps st' ! i = w_ps st ! i \<Longrightarrow> kill_step (st, D) (st', D)"
| kill: "i < length (w_ps st) \<Longrightarrow> kill_step (st, D) (st, insert i D)"

inductive_cases kill_stepE: "kill_step (st, D) x"

definition kill_init :: "kstate \<Rightarrow> bool" where
  "kill_init x \<longleftrightarrow> wh_init (fst x) \<and> snd x = {}"

abbreviation kill_reachable :: "kstate \<Rightarrow> bool" where
  "kill_reachable \<equiv> reachable kill_init kill_step"

text \<open>Forgetting who is dead gives an execution of the system without kills.\<close>

interpretation kills: inductive_invariant kill_init kill_step
  "\<lambda>x. wh_reachable (fst x) \<and> (\<forall>i \<in> snd x. i < length (w_ps (fst x)))"
proof unfold_locales
  show "wh_reachable (fst x) \<and> (\<forall>i \<in> snd x. i < length (w_ps (fst x)))" if "kill_init x" for x
    using that by (simp add: kill_init_def reachable.start)
  show "wh_reachable (fst y) \<and> (\<forall>i \<in> snd y. i < length (w_ps (fst y)))"
    if "wh_reachable (fst x) \<and> (\<forall>i \<in> snd x. i < length (w_ps (fst x)))" "kill_step x y" for x y
    using that(2,1)
  proof cases
    case (live st st' D)
    then have "length (w_ps st') = length (w_ps st)"
      using names_step [of st st'] by (metis map_eq_imp_length_eq names_def)
    then show ?thesis using live that(1) reachable.further [of wh_init wh_step st st'] by simp
  qed (use that(1) in auto)
qed

lemma kill_unkilled:
  assumes "kill_reachable (st, D)"
  shows "wh_reachable st" "i \<in> D \<Longrightarrow> i < length (w_ps st)"
  using kills.inv_reachable [OF assms] by simp_all

text \<open>The dead stay dead and where they are.\<close>

lemma kill_steps_frozen:
  assumes "kill_step\<^sup>*\<^sup>* (st, D) (st', D')"
  shows "D \<subseteq> D' \<and> (\<forall>i \<in> D. w_ps st' ! i = w_ps st ! i)"
  using assms
proof (induction "(st', D')" arbitrary: st' D' rule: rtranclp_induct)
  case (step y)
  obtain st1 D1 where y: "y = (st1, D1)" by (cases y)
  from step(2) [unfolded y] show ?case
  proof cases
    case live
    then show ?thesis using step(3) [OF y] by auto
  qed (use step(3) [OF y] in auto)
qed simp

section \<open>Who can change what\<close>

lemma belt_holders:
  assumes "wh_reachable st" "i < length (w_ps st)" "j < length (w_ps st)"
    "holds (belt_pc (pr_mode (w_ps st ! i))) = 1" "holds (belt_pc (pr_mode (w_ps st ! j))) = 1"
  shows "i = j"
  using holders_unique [of 0 0 "abs_belt st" i j] conc_reachable_inv [OF belt_refinement.abs_reachable [OF assms(1)]] assms(2-5)
  by (simp add: sem_inv_drift)

text \<open>Only a section at the dock changes the docked truck and the number of deliveries.\<close>

definition same_truck :: "world \<Rightarrow> world \<Rightarrow> bool" where
  "same_truck w w' \<longleftrightarrow> dock_truck (shm w') = dock_truck (shm w) \<and> trucks_completed (shm w') = trucks_completed (shm w)"

lemma dock_writer:
  assumes reach: "wh_reachable st" and step: "wh_step st st'"
  shows "(\<exists>i. i < length (w_ps st) \<and> dholds (pr_mode (w_ps st ! i)) = 1 \<and> w_ps st' ! i \<noteq> w_ps st ! i)
     \<or> same_truck (ww st) (ww st')"
proof -
  note k = wh_world(1) [OF reach]
  have sem: "same_truck (ww st) w'" if "semOperation j v (ww st) = Done () w'" for j v w'
    using semOperation_DoneD [OF that k] by (simp add: same_truck_def)
  from step show ?thesis
  proof cases
    case (body i p c a s')
    then show ?thesis using call_body_dock [OF body(5)] by (simp add: same_truck_def)
  next
    case (dbody i p c b w')
    have "p\<lparr>pr_mode := DockUnlock c b\<rparr> \<noteq> p" using dbody(4) by (metis mode.distinct(71) process.simps(5) process.surjective process.update_convs(5))
    then show ?thesis using dbody by (intro disjI1 exI [of _ i]) simp
  next
    case (receive i p w1 sig w' x)
    then show ?thesis using receive_msg_frame [OF k receive(5,6)] by (simp add: msg_frame_def same_truck_def)
  next
    case (command i p cmd r out go w')
    then show ?thesis using command_msg_frame [OF k command(6,8)] by (simp add: msg_frame_def same_truck_def)
  next
    case (notify i p n u w')
    then have "shm w' = shm (ww st)"
      using send_msg_frame [OF k, of "session_pid u"] by (auto simp: msg_frame_def split: if_splits)
    then show ?thesis using notify by (simp add: same_truck_def)
  qed (use sem in \<open>auto simp: lockBelt_def unlockBelt_def lockDock_def unlockDock_def same_truck_def\<close>)
qed

section \<open>What a killed process blocks\<close>

fun in_belt :: "mode \<Rightarrow> bool" where
  "in_belt (InBelt c) = True"
| "in_belt (BeltUnlock c a) = True"
| "in_belt m = False"

fun in_dock :: "mode \<Rightarrow> bool" where
  "in_dock (InDock c) = True"
| "in_dock (DockUnlock c b) = True"
| "in_dock m = False"

lemma in_belt_holds: "in_belt m \<longleftrightarrow> holds (belt_pc m) = 1"
  by (cases m) simp_all

lemma in_dock_holds: "in_dock m \<longleftrightarrow> dholds m = 1"
  by (cases m) simp_all

lemma in_belt_locked:
  assumes "wh_reachable st" "i < length (w_ps st)" "in_belt (pr_mode (w_ps st ! i))"
  shows "sems (ww st) SEM_MUTEX_BELT = 0"
    "\<And>j. j < length (w_ps st) \<Longrightarrow> j \<noteq> i \<Longrightarrow> \<not> in_belt (pr_mode (w_ps st ! j))"
proof -
  have s: "sem_inv (abs_belt st)" using conc_reachable_inv [OF belt_refinement.abs_reachable [OF assms(1)]] by blast
  have "1 \<le> tally holds (abs_belt st)"
    using sum_list_map_ge_member [of holds i "procs (abs_belt st)"] claims_nonneg(2) assms(2,3)
    by (simp add: tally_def in_belt_holds)
  then show "sems (ww st) SEM_MUTEX_BELT = 0" using sem_invD(3) [OF s, of SEM_MUTEX_BELT] sem_invD(4) [OF s] by simp
  show "\<not> in_belt (pr_mode (w_ps st ! j))" if "j < length (w_ps st)" "j \<noteq> i" for j
    using belt_holders [OF assms(1,2), of j] assms(3) that by (auto simp: in_belt_holds)
qed

lemma in_dock_alone:
  assumes "wh_reachable st" "i < length (w_ps st)" "j < length (w_ps st)"
    "in_dock (pr_mode (w_ps st ! i))" "in_dock (pr_mode (w_ps st ! j))"
  shows "i = j"
proof (rule ccontr)
  assume "i \<noteq> j"
  then have "2 \<le> dtally st"
    using sum_list_map_ge_two [of "\<lambda>p. dholds (pr_mode p)" i "w_ps st" j] dholds_nonneg assms(2-5)
    by (simp add: dtally_def in_dock_holds)
  then show False
    using wh_dock.inv_reachable [OF assms(1)] wh_world(3) [OF assms(1), of SEM_DOCK_MUTEX] by (simp add: dock_inv_def)
qed

text \<open>One step while a dead process is in a section.\<close>

lemma belt_frozen_step:
  assumes "wh_reachable st" "wh_step st st'" "i < length (w_ps st)" "in_belt (pr_mode (w_ps st ! i))"
    "w_ps st' ! i = w_ps st ! i"
  shows "same_belt_fields (shm (ww st)) (shm (ww st'))"
  using share_step [OF assms(1,2)]
proof
  assume "\<exists>j c a s'. j < length (w_ps st) \<and> pr_mode (w_ps st ! j) = InBelt c \<and> call_body c (shm (ww st)) = Some (a, s')
       \<and> w_ps st' = (w_ps st)[j := (w_ps st ! j)\<lparr>pr_mode := BeltUnlock c a\<rparr>] \<and> shm (ww st') = s'"
  then obtain j c a where j: "j < length (w_ps st)" "pr_mode (w_ps st ! j) = InBelt c"
    "w_ps st' = (w_ps st)[j := (w_ps st ! j)\<lparr>pr_mode := BeltUnlock c a\<rparr>]" by blast
  then have "j = i" using in_belt_locked(2) [OF assms(1,3,4) j(1)] by auto
  then have "pr_mode (w_ps st' ! i) = BeltUnlock c a" using j by simp
  then show ?thesis using assms(5) j(2) \<open>j = i\<close> by simp
qed simp

lemma dock_frozen_step:
  assumes "wh_reachable st" "wh_step st st'" "i < length (w_ps st)" "in_dock (pr_mode (w_ps st ! i))"
    "w_ps st' ! i = w_ps st ! i"
  shows "same_truck (ww st) (ww st')"
  using dock_writer [OF assms(1,2)] in_dock_alone [OF assms(1,3)] assms(4,5) by (auto simp: in_dock_holds)

text \<open>A relation that every step keeps as long as the process \<open>i\<close> does not move.\<close>

lemma frozen_steps:
  assumes "kill_step\<^sup>*\<^sup>* (st, D) (st', D')" "kill_reachable (st, D)" "i \<in> D" "P (w_ps st ! i)"
    and refl: "\<And>x. R x x" and trans: "\<And>x y z. R x y \<Longrightarrow> R y z \<Longrightarrow> R x z"
    and step: "\<And>a b. wh_reachable a \<Longrightarrow> wh_step a b \<Longrightarrow> i < length (w_ps a) \<Longrightarrow> P (w_ps a ! i) \<Longrightarrow>
        w_ps b ! i = w_ps a ! i \<Longrightarrow> R (ww a) (ww b)"
  shows "R (ww st) (ww st')"
  using assms(1)
proof (induction "(st', D')" arbitrary: st' D' rule: rtranclp_induct)
  case (step y)
  obtain st1 D1 where y: "y = (st1, D1)" by (cases y)
  have f: "i \<in> D1" "w_ps st1 ! i = w_ps st ! i" using kill_steps_frozen [OF step(1) [unfolded y]] assms(3) by auto
  have r1: "kill_reachable (st1, D1)" using reachable_steps [OF step(1)] assms(2) y by simp
  from step(2) [unfolded y] show ?case
  proof cases
    case live
    have "R (ww st1) (ww st')"
      by (rule assms(7) [OF kill_unkilled(1) [OF r1]]) (use live f kill_unkilled(2) [OF r1] assms(4) in simp_all)
    then show ?thesis using step(3) [OF y] trans by blast
  qed (use step(3) [OF y] in auto)
qed (rule refl)

text \<open>Every state of the system without kills is one of the system with kills.\<close>

lemma unkilled_reachable: "wh_reachable st \<Longrightarrow> kill_reachable (st, {})"
proof (induction rule: reachable.induct)
  case (start s)
  then show ?case by (intro reachable.start) (simp add: kill_init_def)
next
  case (further s s')
  then show ?case using kill_step.live [of s s' "{}"] by (auto intro: reachable.further)
qed

section \<open>Properties\<close>

text \<open>
  C9: a process that is killed inside a section blocks it for ever.  If it holds the belt mutex, then from
  that moment on, whatever else happens, no other process enters a section under that mutex: the belt,
  its counters and the session table keep their contents, so nobody can push, pop, log in or log out.  If
  it holds the dock mutex, the docked truck and the number of deliveries never change again.
\<close>

theorem killed_holder_blocks:
  assumes "kill_reachable (st, D)" "i \<in> D" "kill_step\<^sup>*\<^sup>* (st, D) (st', D')"
  shows "(in_belt (pr_mode (w_ps st ! i)) \<longrightarrow>
          same_belt_fields (shm (ww st)) (shm (ww st')) \<and> sems (ww st') SEM_MUTEX_BELT = 0
          \<and> (\<forall>j < length (w_ps st'). j \<noteq> i \<longrightarrow> \<not> in_belt (pr_mode (w_ps st' ! j))))
     \<and> (in_dock (pr_mode (w_ps st ! i)) \<longrightarrow>
          same_truck (ww st) (ww st') \<and> sems (ww st') SEM_DOCK_MUTEX = 0
          \<and> (\<forall>j < length (w_ps st'). j \<noteq> i \<longrightarrow> \<not> in_dock (pr_mode (w_ps st' ! j))))"
proof -
  have r: "kill_reachable (st', D')" using reachable_steps [OF assms(3,1)] .
  note f = kill_steps_frozen [OF assms(3)] and u = kill_unkilled [OF r]
  have i: "i < length (w_ps st')" "w_ps st' ! i = w_ps st ! i" using f u(2) assms(2) by auto
  have "same_belt_fields (shm (ww st)) (shm (ww st'))" if "in_belt (pr_mode (w_ps st ! i))"
    by (rule frozen_steps [OF assms(3,1,2), of "\<lambda>p. in_belt (pr_mode p)" "\<lambda>w w'. same_belt_fields (shm w) (shm w')"])
      (use that belt_frozen_step in \<open>auto simp: same_belt_fields_def\<close>)
  moreover have "same_truck (ww st) (ww st')" if "in_dock (pr_mode (w_ps st ! i))"
    by (rule frozen_steps [OF assms(3,1,2), of "\<lambda>p. in_dock (pr_mode p)" same_truck])
      (use that dock_frozen_step in \<open>auto simp: same_truck_def\<close>)
  ultimately show ?thesis
    using in_belt_locked [OF u(1) i(1)] in_dock_locked [OF u(1) i(1)] in_dock_alone [OF u(1) i(1)] i(2)
    by (auto simp: in_dock_holds)
qed

text \<open>
  C37: a killed process keeps its session.  Its slot stays active with its contents, the console goes on
  finding its pid under its name, and no other process gets a session under that name: a replacement that
  is started for it is refused at its login.
\<close>

theorem killed_process_keeps_session:
  assumes "kill_reachable (st, D)" "i \<in> D" "kill_step\<^sup>*\<^sup>* (st, D) (st', D')" "slot (w_ps st ! i) = Some k"
    "credentials (pr_kind (w_ps st ! i)) = (n, r, org, m)"
  shows "users (shm (ww st')) ! nat k = users (shm (ww st)) ! nat k \<and> active (users (shm (ww st')) ! nat k)
     \<and> session_of (login_key n) (shm (ww st')) = Some (pr_pid (w_ps st ! i))
     \<and> login_body n r org m pid c (shm (ww st')) = Some ((False, c), shm (ww st'))"
proof -
  have r: "kill_reachable (st', D')" using reachable_steps [OF assms(3,1)] .
  note f = kill_steps_frozen [OF assms(3)] and u = kill_unkilled [OF r] kill_unkilled [OF assms(1)]
  define p where "p = w_ps st ! i"
  have p: "p \<in> set (w_ps st')" "p \<in> set (w_ps st)" "slot p = Some k"
    using f u(2,4) assms(2,4) by (auto simp: p_def) (metis nth_mem subsetD)
  note s' = wh_sessions.inv_reachable [OF u(1)] and s = wh_sessions.inv_reachable [OF u(3)]
  have "session_of (login_key n) (shm (ww st')) = Some (pr_pid p)"
    using row_session_of [OF s' p(1,3)] assms(5) by (simp add: p_def)
  moreover from this have "login_body n r org m pid c (shm (ww st')) = Some ((False, c), shm (ww st'))"
    using login_body_cases [of "shm (ww st')"] s' by (simp add: sess_inv_def login_key_def)
  ultimately show ?thesis
    using sess_row(3) [OF s' p(1,3)] sess_row(3) [OF s p(2,3)] by (simp add: p_def)
qed

text \<open>
  C38: a package in the hands of a killed dispatcher is lost.  It stays accepted and numbered, but it is
  never on the belt again and never on a truck, whatever happens later.
\<close>

theorem killed_dispatcher_loses_package:
  assumes "kill_reachable (st, D)" "i \<in> D" "kill_step\<^sup>*\<^sup>* (st, D) (st', D')" "q \<in> set (hand (w_ps st ! i))"
  shows "q \<in> set (w_acc st') \<and> q \<notin> snd ` set (w_loaded st') \<and> q \<notin> set (belt_contents (shm (ww st')))
     \<and> q \<notin> set (w_dropped st')"
proof -
  have r: "kill_reachable (st', D')" using reachable_steps [OF assms(3,1)] .
  note f = kill_steps_frozen [OF assms(3)] and u = kill_unkilled [OF r]
  note a = all_places [OF u(1)]
  have "w_ps st ! i \<in> set (w_ps st')" using f u(2) assms(2) by (metis nth_mem subsetD)
  then have h: "q \<in># in_hands st'" using assms(4) by (auto simp: in_hands_def)
  have "count (mset (w_acc st')) q \<le> 1"
    using numbered_distinct [OF a(2)] by (simp add: distinct_count_atmost_1)
  moreover have "1 \<le> count (in_hands st') q" using h by (simp add: count_greater_eq_one_iff)
  ultimately have "count (mset (map snd (w_loaded st'))) q = 0" "count (mset (w_dropped st')) q = 0"
    "count (mset (belt_contents (shm (ww st')))) q = 0" unfolding a(1) count_union by linarith+
  moreover have "q \<in># mset (w_acc st')" using h a(1) by simp
  ultimately show ?thesis unfolding count_mset_0_iff by simp
qed

section \<open>Concrete runs\<close>

text \<open>Killing a process is one more step.\<close>

lemma kill_one: "wh_reachable st \<Longrightarrow> i < length (w_ps st) \<Longrightarrow> kill_reachable (st, {i})"
  using unkilled_reachable kill_step.kill [of i st "{}"] by (auto intro: reachable.further)

text \<open>A worker is killed while it registers, a dispatcher with a package in its hands.\<close>

lemma worker_in_section:
  "\<exists>st. wh_reachable st \<and> length (w_ps st) = 3 \<and> pr_mode (w_ps st ! 2) = InBelt RegisterC
     \<and> pr_kind (w_ps st ! 2) = WorkerR 1 \<and> pr_pid (w_ps st ! 2) = 300 \<and> slot (w_ps st ! 2) = Some (pr_sess (w_ps st ! 2))"
proof -
  obtain w a b c where r: "wh_reachable (plant [proc_at 100 DispatcherR a PopTest, proc_at 200 (TruckR 1) b (Trucking Arriving),
       proc_at 300 (WorkerR 1) c Register] w [] [] [])" and w: "at_rest w"
    using all_logged_in by blast
  define st0 where "st0 = plant [proc_at 100 DispatcherR a PopTest, proc_at 200 (TruckR 1) b (Trucking Arriving),
       proc_at 300 (WorkerR 1) c Register] w [] [] []"
  define p where "p = proc_at 300 (WorkerR 1) c Register"
  define st1 where "st1 = set_proc 2 (p\<lparr>pr_mode := AtLock RegisterC\<rparr>) w st0"
  obtain w' where l: "lockBelt w = Done () w'"
    using w belt_mutex.lock_free [of w] by (simp add: at_rest_def belt_quiet_def)
  have "wh_step st0 st1"
    using wh_step.call [of 2 st0 p sample_draw RegisterC] sample_draw_legal by (simp add: st0_def st1_def p_def)
  moreover have "wh_step st1 (set_proc 2 (p\<lparr>pr_mode := InBelt RegisterC\<rparr>) w' st1)"
    using wh_step.lock [of 2 st1 "p\<lparr>pr_mode := AtLock RegisterC\<rparr>" RegisterC w'] l by (simp add: st0_def st1_def p_def)
  ultimately have "wh_reachable (set_proc 2 (p\<lparr>pr_mode := InBelt RegisterC\<rparr>) w' st1)"
    using r unfolding st0_def [symmetric] by (meson reachable.further)
  then show ?thesis
    by (intro exI [of _ "set_proc 2 (p\<lparr>pr_mode := InBelt RegisterC\<rparr>) w' st1"]) (simp add: st1_def st0_def p_def slot_def)
qed

lemma dispatcher_with_package:
  "\<exists>st q. wh_reachable st \<and> length (w_ps st) = 3 \<and> hand (w_ps st ! 0) = [q] \<and> w_acc st = [q]"
proof -
  obtain w a b c where l: "wh_reachable (plant [proc_at 100 DispatcherR a PopTest, proc_at 200 (TruckR 1) b (Trucking Arriving),
       proc_at 300 (WorkerR 1) c Register] w [] [] [])"
    "at_rest w" "shm w = (shm boot_world)\<lparr>users := users (shm w)\<rparr>" "w = boot_world\<lparr>shm := shm w\<rparr>"
    "session_index_ok c (shm w)" "c \<noteq> -1" "slot_of c (shm w) = new_session (''Worker_'' @ to_string 1) Operator 0 10 300"
    using all_logged_in by blast
  obtain w1 q where q: "wh_reachable (plant [proc_at 100 DispatcherR a PopTest, proc_at 200 (TruckR 1) b (Trucking Arriving),
       proc_at 300 (WorkerR 1) c Report] w1 [q] [] [])"
    "belt_quiet w1" "belt_inv (shm w1)" "belt_contents (shm w1) = [q]" "running (shm w1)" "pkg_id q = 1"
    using worker_puts [OF l] by blast
  obtain w2 where w2: "run_method PopC w1 = Done (Item True q) w2" using run_pop [OF q(2-4)] by blast
  have "wh_reachable (plant [proc_at 100 DispatcherR a (Load q), proc_at 200 (TruckR 1) b (Trucking Arriving),
       proc_at 300 (WorkerR 1) c Report] w2 [q] [q] [])"
    using solo_call [OF solo_test [OF q(1), where i = 0 and y = Pop] _ _ _ w2, where i = 0] q(5,6) by simp
  then show ?thesis by (intro exI conjI) (assumption, simp_all add: hand_def)
qed

theorem killed_holder_blocks_witness:
  "\<exists>st. kill_reachable (st, {2}) \<and> in_belt (pr_mode (w_ps st ! 2))
     \<and> (\<forall>st' D'. kill_step\<^sup>*\<^sup>* (st, {2}) (st', D') \<longrightarrow> users (shm (ww st')) = users (shm (ww st)) \<and> sems (ww st') SEM_MUTEX_BELT = 0)"
proof -
  obtain st where st: "wh_reachable st" "length (w_ps st) = 3" "pr_mode (w_ps st ! 2) = InBelt RegisterC"
    using worker_in_section by blast
  have k: "kill_reachable (st, {2})" using kill_one [OF st(1), of 2] st(2) by simp
  have "users (shm (ww st')) = users (shm (ww st)) \<and> sems (ww st') SEM_MUTEX_BELT = 0" if "kill_step\<^sup>*\<^sup>* (st, {2}) (st', D')" for st' D'
    using killed_holder_blocks [OF k _ that, of 2] st(3) by (simp add: same_belt_fields_def)
  then show ?thesis using k st(3) by (intro exI [of _ st]) simp
qed

theorem killed_process_keeps_session_witness:
  "\<exists>st. kill_reachable (st, {2}) \<and> (\<forall>st' D'. kill_step\<^sup>*\<^sup>* (st, {2}) (st', D') \<longrightarrow>
       login_body (''Worker_'' @ to_string 1) Operator 0 10 555 (-1) (shm (ww st')) = Some ((False, -1), shm (ww st')))"
proof -
  obtain st where st: "wh_reachable st" "length (w_ps st) = 3" "pr_kind (w_ps st ! 2) = WorkerR 1"
    "slot (w_ps st ! 2) = Some (pr_sess (w_ps st ! 2))"
    using worker_in_section by blast
  have k: "kill_reachable (st, {2})" using kill_one [OF st(1), of 2] st(2) by simp
  have "login_body (''Worker_'' @ to_string 1) Operator 0 10 555 (-1) (shm (ww st')) = Some ((False, -1), shm (ww st'))"
    if "kill_step\<^sup>*\<^sup>* (st, {2}) (st', D')" for st' D'
    using killed_process_keeps_session [OF k _ that st(4)] st(3) by simp
  then show ?thesis using k by blast
qed

theorem killed_dispatcher_loses_package_witness:
  "\<exists>st q. kill_reachable (st, {0}) \<and> w_acc st = [q]
     \<and> (\<forall>st' D'. kill_step\<^sup>*\<^sup>* (st, {0}) (st', D') \<longrightarrow> q \<notin> snd ` set (w_loaded st'))"
proof -
  obtain st q where st: "wh_reachable st" "length (w_ps st) = 3" "hand (w_ps st ! 0) = [q]" "w_acc st = [q]"
    using dispatcher_with_package by blast
  have k: "kill_reachable (st, {0})" using kill_one [OF st(1), of 0] st(2) by simp
  have "q \<notin> snd ` set (w_loaded st')" if "kill_step\<^sup>*\<^sup>* (st, {0}) (st', D')" for st' D'
    using killed_dispatcher_loses_package [OF k _ that, of 0 q] st(3) by simp
  then show ?thesis using k st(4) by blast
qed

end
