(* ===== verification/Belt_Interrupts.thy ===== *)
theory Belt_Interrupts
  imports Belt_Concurrency
begin

text \<open>
  The belt when waits for a slot or a package are interrupted.

  A signal that arrives while a process sleeps in \<open>semop\<close> makes the call fail with \<open>EINTR\<close>, and
  \<open>semOperation\<close> returns as if the wait had succeeded.  Here every such wait of every process may be
  interrupted, any number of times.  The state carries two counters of what has happened: how many waits
  for an empty slot and how many waits for a package were cut short.  The branches of \<open>push\<close> and \<open>pop\<close>
  that look superfluous without interruptions are what keeps the queue intact; the price is that each
  interruption leaves its semaphore one unit too high for ever.

  Interrupted waits for the mutex itself are not part of this theory: they let two processes into their
  sections at the same time, see \<open>Belt_Atomicity\<close>.
\<close>

section \<open>The system with interrupted waits\<close>

type_synonym istate = "conc \<times> int \<times> int"

inductive int_step :: "istate \<Rightarrow> istate \<Rightarrow> bool" where
  normal: "conc_step st st' \<Longrightarrow> int_step (st, e, f) (st', e, f)"
| interrupted: "i < length (procs st) \<Longrightarrow> procs st ! i = WaitSem c \<Longrightarrow> wait_sem c = Some k \<Longrightarrow>
    semOperation k (-1) ((cw st)\<lparr>kernel := [Some EINTR]\<rparr>) = Done () w' \<Longrightarrow>
    int_step (st, e, f)
      (st\<lparr>procs := (procs st)[i := WaitLock c], cw := w'\<rparr>,
       e + (if k = SEM_EMPTY_SLOTS then 1 else 0), f + (if k = SEM_FULL_SLOTS then 1 else 0))"

definition int_init :: "istate \<Rightarrow> bool" where
  "int_init x \<longleftrightarrow> conc_init (fst x) \<and> snd x = (0, 0)"

abbreviation int_reachable :: "istate \<Rightarrow> bool" where
  "int_reachable \<equiv> reachable int_init int_step"

section \<open>The invariant\<close>

lemma interrupted_world:
  "semOperation k v (w\<lparr>kernel := [Some EINTR]\<rparr>) = Done () w' \<Longrightarrow> kernel w = [] \<Longrightarrow> w' = w"
  by (cases w) (auto simp: semOperation_def)

lemma drift_interrupted:
  assumes inv: "drift_inv e f st" and i: "i < length (procs st)" "procs st ! i = WaitSem c" "wait_sem c = Some k"
  shows "drift_inv (e + (if k = SEM_EMPTY_SLOTS then 1 else 0)) (f + (if k = SEM_FULL_SLOTS then 1 else 0))
    (st\<lparr>procs := (procs st)[i := WaitLock c], cw := cw st\<rparr>)"
proof -
  have "\<forall>y \<in> set ((procs st)[i := WaitLock c]). pc_ok y"
    by (rule pc_ok_update) (use inv in \<open>simp_all add: drift_inv_def\<close>)
  then show ?thesis
    using drift_invD(1-6) [OF inv] i unfolding drift_inv_def tally_update(1) [OF i(1)] by simp
qed

definition int_inv :: "istate \<Rightarrow> bool" where
  "int_inv x = (case x of (st, e, f) \<Rightarrow> 0 \<le> e \<and> 0 \<le> f \<and> drift_inv e f st \<and> queue_inv st)"

interpretation int_system: inductive_invariant int_init int_step int_inv
proof unfold_locales
  show "int_inv x" if "int_init x" for x
    using that conc_init_inv [of "fst x"]
    by (cases x) (simp add: int_init_def int_inv_def conc_inv_def sem_inv_drift)
  show "int_inv y" if "int_inv x" "int_step x y" for x y
    using that(2,1)
  proof cases
    case (normal st st' e f)
    then show ?thesis using that(1) drift_inv_step queue_inv_step by (auto simp: int_inv_def)
  next
    case (interrupted i st c k w' e f)
    have inv: "0 \<le> e" "0 \<le> f" "drift_inv e f st" "queue_inv st" using that(1) interrupted(1) by (simp_all add: int_inv_def)
    have "w' = cw st" using interrupted_world interrupted(6) drift_invD(2) [OF inv(3)] by blast
    then show ?thesis using interrupted(2) drift_interrupted [OF inv(3) interrupted(3-5)] inv queue_inv_world [OF inv(4), of "cw st"]
      by (simp add: int_inv_def)
  qed
qed

section \<open>Properties\<close>

text \<open>
  C14: interrupted waits do not break the queue, but they inflate the semaphores.  With any number of
  interrupted waits, at most one process is inside a section, the packages accepted are those taken
  followed by those on the belt, numbered consecutively, and the capacity is not exceeded.  When no
  process is inside a method, the empty-slot semaphore exceeds the number of free slots by exactly the
  number of interrupted waits for a slot, and the full-slot semaphore the number of packages by exactly
  the number of interrupted waits for a package.
\<close>

theorem interrupted_waits_keep_fifo:
  assumes "int_reachable (st, e, f)"
  shows "accepted st = taken st @ belt_contents (shm (cw st))
     \<and> map pkg_id (accepted st) = map (\<lambda>k. int k + 1) [0..<length (accepted st)]
     \<and> length (belt_contents (shm (cw st))) \<le> nat MAX_BELT_CAPACITY_K
     \<and> (\<forall>i < length (procs st). \<forall>j < length (procs st). holds (procs st ! i) = 1 \<and> holds (procs st ! j) = 1 \<longrightarrow> i = j)
     \<and> ((\<forall>x \<in> set (procs st). x = Idle) \<longrightarrow>
          sems (cw st) SEM_EMPTY_SLOTS = MAX_BELT_CAPACITY_K - current_items_count (shm (cw st)) + e
          \<and> sems (cw st) SEM_FULL_SLOTS = current_items_count (shm (cw st)) + f)"
proof -
  have inv: "drift_inv e f st" "queue_inv st" using int_system.inv_reachable [OF assms] by (simp_all add: int_inv_def)
  note d = drift_invD [OF inv(1)]
  have "tally (claims k) st = 0" if "\<forall>x \<in> set (procs st). x = Idle" for k
    using that by (intro tally_zero) (metis claims.simps(5) nth_mem)
  then show ?thesis
    using d(5,6) holders_unique [OF inv(1)] belt_queue.bounded [OF queue_belt [OF inv(2)]] inv(2) [unfolded queue_inv_def numbered_def] by auto
qed

text \<open>
  A consumer whose wait on the empty belt is interrupted: it enters the section, finds nothing, and
  posts a package that does not exist.
\<close>

lemma phantom_package:
  "int_reachable (idle_system\<lparr>cw := boot_world\<lparr>sems := (sems boot_world)(SEM_FULL_SLOTS := 1)\<rparr>\<rparr>, 0, 1)"
proof -
  define b where "b = boot_world"
  define w1 where "w1 = b\<lparr>sems := (sems b)(SEM_MUTEX_BELT := 0)\<rparr>"
  have k: "kernel b = []" "sems b SEM_MUTEX_BELT = 1" "sems b SEM_FULL_SLOTS = 0" "current_items_count (shm b) = 0"
    by (simp_all add: b_def init_sems_def init_shm_def zero_SharedState_def)
  define S where "S = (\<lambda>x w. \<lparr>procs = [x, Idle, Idle], cw = w, accepted = [], taken = []\<rparr>)"
  have r0: "int_reachable (S Idle b, 0, 0)"
    by (rule reachable.start) (simp add: int_init_def conc_init_def S_def b_def)
  have "conc_step (S Idle b) (S (WaitSem PopCall) b)"
    using conc_step.call [of 0 "S Idle b" PopCall] by (simp add: S_def)
  from reachable.further [OF r0 int_step.normal [OF this]] have r1: "int_reachable (S (WaitSem PopCall) b, 0, 0)" .
  have "b\<lparr>kernel := []\<rparr> = b" using k(1) by (cases b) simp
  then have "semOperation SEM_FULL_SLOTS (-1) (b\<lparr>kernel := [Some EINTR]\<rparr>) = Done () b" by (simp add: semOperation_def)
  then have "int_step (S (WaitSem PopCall) b, 0, 0) (S (WaitLock PopCall) b, 0, 1)"
    using int_step.interrupted [of 0 "S (WaitSem PopCall) b" PopCall SEM_FULL_SLOTS b 0 0] by (simp add: S_def)
  from reachable.further [OF r1 this] have r2: "int_reachable (S (WaitLock PopCall) b, 0, 1)" .
  have "conc_step (S (WaitLock PopCall) b) (S (Inside PopCall) w1)"
    using conc_step.lock [of 0 "S (WaitLock PopCall) b" PopCall w1] k
    by (simp add: S_def lockBelt_def semOperation_ok w1_def)
  from reachable.further [OF r2 int_step.normal [OF this]] have r3: "int_reachable (S (Inside PopCall) w1, 0, 1)" .
  have "conc_step (S (Inside PopCall) w1) (S (Unlocking (Some SEM_FULL_SLOTS)) w1)"
    using conc_step.body [of 0 "S (Inside PopCall) w1" PopCall False zero_Package "shm w1"] k(4)
    by (simp add: S_def pop_body_empty log_accepted_def log_taken_def w1_def)
  from reachable.further [OF r3 int_step.normal [OF this]]
  have r4: "int_reachable (S (Unlocking (Some SEM_FULL_SLOTS)) w1, 0, 1)" .
  have "unlockBelt w1 = Done () b"
    using k by (simp add: unlockBelt_def semOperation_ok w1_def fun_upd_idem)
  then have "conc_step (S (Unlocking (Some SEM_FULL_SLOTS)) w1) (S (Posting SEM_FULL_SLOTS) b)"
    using conc_step.unlock [of 0 "S (Unlocking (Some SEM_FULL_SLOTS)) w1" "Some SEM_FULL_SLOTS" b] by (simp add: S_def)
  from reachable.further [OF r4 int_step.normal [OF this]] have r5: "int_reachable (S (Posting SEM_FULL_SLOTS) b, 0, 1)" .
  have "conc_step (S (Posting SEM_FULL_SLOTS) b) (S Idle (b\<lparr>sems := (sems b)(SEM_FULL_SLOTS := 1)\<rparr>))"
    using conc_step.post [of 0 "S (Posting SEM_FULL_SLOTS) b" SEM_FULL_SLOTS] k by (simp add: S_def semOperation_ok)
  from reachable.further [OF r5 int_step.normal [OF this]] show ?thesis by (simp add: S_def idle_system_def b_def)
qed

theorem interrupted_waits_keep_fifo_witness:
  "int_reachable (idle_system\<lparr>cw := boot_world\<lparr>sems := (sems boot_world)(SEM_FULL_SLOTS := 1)\<rparr>\<rparr>, 0, 1)
   \<and> belt_contents (shm boot_world) = [] \<and> current_items_count (shm boot_world) + 1 = 1"
  using phantom_package interrupted_waits_keep_fifo [OF phantom_package] by (simp add: idle_system_def)

end
