(* ===== verification/Belt_Atomicity.thy ===== *)
theory Belt_Atomicity
  imports Belt_Concurrency
begin

text \<open>
  Why a section under the belt mutex may be treated as one step.

  Here every load from and every store to the shared segment inside a section is a step of its own, in
  the order of the source, and the steps of all processes are interleaved freely: other processes may
  run their methods up to the mutex, and the dock and the console may change their part of the segment,
  between any two accesses.  The fine-grained system is simulated by \<open>Belt_Concurrency\<close>, where the whole
  section is one step.  The simulation rests on the mutex: the last part shows what happens when the
  operation that takes it is interrupted.
\<close>

section \<open>The sections as sequences of accesses\<close>

text \<open>The locals of a section: the package, an index or counter that was loaded, a loaded weight.\<close>

record locals =
  l_pkg :: Package
  l_int :: int
  l_index :: int
  l_dbl :: double

type_synonym access = "locals \<Rightarrow> SharedState \<Rightarrow> (locals \<times> SharedState) option"

text \<open>\<open>shm->total_packages_created++\<close>, \<open>pkg.id = shm->total_packages_created\<close>\<close>

definition load_total :: access where
  "load_total l s = Some (l\<lparr>l_int := total_packages_created s\<rparr>, s)"

definition store_total :: access where
  "store_total l s = map_option (\<lambda>n. (l, s\<lparr>total_packages_created := n\<rparr>)) (cadd (l_int l) 1)"

definition load_id :: access where
  "load_id l s = Some (l\<lparr>l_pkg := (l_pkg l)\<lparr>pkg_id := total_packages_created s\<rparr>\<rparr>, s)"

text \<open>\<open>current_tail = shm->tail\<close>, the store of the package, \<open>shm->tail = (current_tail + 1) % K\<close>\<close>

definition load_tail :: access where
  "load_tail l s = Some (l\<lparr>l_index := tail s\<rparr>, s)"

definition store_cell :: access where
  "store_cell l s = map_option (\<lambda>b. (l, s\<lparr>belt := b\<rparr>)) (aset (belt s) (l_index l) (l_pkg l))"

definition store_tail :: access where
  "store_tail l s = map_option (\<lambda>t. (l, s\<lparr>tail := t mod MAX_BELT_CAPACITY_K\<rparr>)) (cadd (l_index l) 1)"

text \<open>\<open>shm->current_items_count++\<close> and \<open>--\<close>\<close>

definition load_count :: access where
  "load_count l s = Some (l\<lparr>l_int := current_items_count s\<rparr>, s)"

definition store_count_up :: access where
  "store_count_up l s = map_option (\<lambda>n. (l, s\<lparr>current_items_count := n\<rparr>)) (cadd (l_int l) 1)"

definition store_count_down :: access where
  "store_count_down l s = map_option (\<lambda>n. (l, s\<lparr>current_items_count := n\<rparr>)) (csub (l_int l) 1)"

text \<open>\<open>shm->current_belt_weight += pkg.weight\<close> and \<open>-=\<close>\<close>

definition load_weight :: access where
  "load_weight l s = Some (l\<lparr>l_dbl := current_belt_weight s\<rparr>, s)"

definition store_weight_up :: access where
  "store_weight_up l s = Some (l, s\<lparr>current_belt_weight := dadd (l_dbl l) (weight (l_pkg l))\<rparr>)"

definition store_weight_down :: access where
  "store_weight_down l s = Some (l, s\<lparr>current_belt_weight := dsub (l_dbl l) (weight (l_pkg l))\<rparr>)"

text \<open>\<open>current_head = shm->head\<close>, the copy of the cell, \<open>memset\<close>, \<open>shm->head = (current_head + 1) % K\<close>\<close>

definition load_head :: access where
  "load_head l s = Some (l\<lparr>l_index := head s\<rparr>, s)"

definition load_cell :: access where
  "load_cell l s = map_option (\<lambda>p. (l\<lparr>l_pkg := p\<rparr>, s)) (aget (belt s) (l_index l))"

definition clear_cell :: access where
  "clear_cell l s = map_option (\<lambda>b. (l, s\<lparr>belt := b\<rparr>)) (aset (belt s) (l_index l) zero_Package)"

definition store_head :: access where
  "store_head l s = map_option (\<lambda>h. (l, s\<lparr>head := h mod MAX_BELT_CAPACITY_K\<rparr>)) (cadd (l_index l) 1)"

text \<open>\<open>shm->current_workers_count++\<close> and \<open>--\<close>; a section of the session manager.\<close>

definition load_workers :: access where
  "load_workers l s = Some (l\<lparr>l_int := current_workers_count s\<rparr>, s)"

definition store_workers_up :: access where
  "store_workers_up l s = map_option (\<lambda>n. (l, s\<lparr>current_workers_count := n\<rparr>)) (cadd (l_int l) 1)"

definition store_workers_down :: access where
  "store_workers_down l s = map_option (\<lambda>n. (l, s\<lparr>current_workers_count := n\<rparr>)) (csub (l_int l) 1)"

definition update_users :: "(UserSession list \<Rightarrow> UserSession list) \<Rightarrow> access" where
  "update_users g l s = Some (l, s\<lparr>users := g (users s)\<rparr>)"

lemmas access_defs = load_total_def store_total_def load_id_def load_tail_def store_cell_def store_tail_def
  load_count_def store_count_up_def store_count_down_def load_weight_def store_weight_up_def store_weight_down_def
  load_head_def load_cell_def clear_cell_def store_head_def load_workers_def store_workers_up_def
  store_workers_down_def update_users_def

text \<open>The test at the head of a section: which branch it takes, and the accesses that are left.\<close>

fun branch :: "belt_call \<Rightarrow> SharedState \<Rightarrow> bool \<times> access list" where
  "branch (PushCall p) s =
     (if MAX_BELT_CAPACITY_K \<le> current_items_count s then (False, [])
      else (True, [load_total, store_total, load_id, load_tail, store_cell, store_tail, load_count, store_count_up,
             load_weight, store_weight_up]))"
| "branch PopCall s =
     (if current_items_count s \<le> 0 then (False, [])
      else (True, [load_head, load_cell, clear_cell, store_head, load_count, store_count_down,
             load_weight, store_weight_down]))"
| "branch RegisterCall s =
     (if current_workers_count s < MAX_WORKERS_PER_BELT then (True, [load_workers, store_workers_up]) else (False, []))"
| "branch UnregisterCall s =
     (True, if 0 < current_workers_count s then [load_workers, store_workers_down] else [])"
| "branch (SessionCall g) s = (True, [update_users g])"

definition fresh_locals :: "belt_call \<Rightarrow> locals" where
  "fresh_locals c = \<lparr>l_pkg = (case c of PushCall p \<Rightarrow> p | _ \<Rightarrow> zero_Package), l_int = 0, l_index = 0, l_dbl = Fin 0\<rparr>"

fun run_accesses :: "access list \<Rightarrow> locals \<Rightarrow> SharedState \<Rightarrow> (locals \<times> SharedState) option" where
  "run_accesses [] l s = Some (l, s)"
| "run_accesses (g # gs) l s = (case g l s of None \<Rightarrow> None | Some (l', s') \<Rightarrow> run_accesses gs l' s')"

text \<open>Run without interruption, the accesses are the section of the sequential theory.\<close>

lemma accesses_are_the_section:
  "run_body c s = map_option (\<lambda>(l, s'). ((fst (branch c s), l_pkg l), s'))
     (run_accesses (snd (branch c s)) (fresh_locals c) s)"
proof (cases c)
  case (PushCall p)
  then show ?thesis
    by (simp add: push_body_def access_defs fresh_locals_def Let_def split: option.split)
next
  case PopCall
  then show ?thesis
    by (simp add: pop_body_def access_defs fresh_locals_def Let_def split: option.split)
next
  case RegisterCall
  then show ?thesis
    by (simp add: registerWorker_body_def access_defs fresh_locals_def split: option.split)
next
  case UnregisterCall
  then show ?thesis
    by (simp add: unregisterWorker_body_def access_defs fresh_locals_def split: option.split)
qed (simp add: access_defs fresh_locals_def)

section \<open>What the belt mutex protects\<close>

text \<open>The protected fields of one state with the other fields of another.\<close>

definition merge :: "SharedState \<Rightarrow> SharedState \<Rightarrow> SharedState" where
  "merge b s = s\<lparr>belt := belt b, head := head b, tail := tail b, current_workers_count := current_workers_count b,
     current_items_count := current_items_count b, current_belt_weight := current_belt_weight b,
     total_packages_created := total_packages_created b, users := users b\<rparr>"

lemma merge_simps [simp]:
  "belt (merge b s) = belt b" "head (merge b s) = head b" "tail (merge b s) = tail b"
  "current_workers_count (merge b s) = current_workers_count b" "current_items_count (merge b s) = current_items_count b"
  "current_belt_weight (merge b s) = current_belt_weight b" "total_packages_created (merge b s) = total_packages_created b"
  "users (merge b s) = users b" "running (merge b s) = running s" "merge s s = s"
  "merge (merge b s) t = merge b t" "merge b (merge c s) = merge b s"
  by (simp_all add: merge_def)

lemma merge_same_belt: "same_belt_fields s t \<longleftrightarrow> merge s t = t"
  by (cases s; cases t) (auto simp: merge_def same_belt_fields_def)

lemma same_belt_merge: "same_belt_fields (merge b s) (merge b t)"
  by (simp add: same_belt_fields_def)

text \<open>An access works on the protected fields: it ignores the others and leaves them alone.\<close>

definition belt_local :: "access \<Rightarrow> bool" where
  "belt_local g \<longleftrightarrow> (\<forall>l s l' s'. g l s = Some (l', s') \<longrightarrow>
     (\<forall>t. g l (merge s t) = Some (l', merge s' t)) \<and> (\<forall>b. merge b s' = merge b s))"

lemma belt_localI:
  assumes "\<And>l s l' s' t. g l s = Some (l', s') \<Longrightarrow> g l (merge s t) = Some (l', merge s' t)"
    and "\<And>l s l' s' b. g l s = Some (l', s') \<Longrightarrow> merge b s' = merge b s"
  shows "belt_local g"
  using assms unfolding belt_local_def by blast

lemma accesses_local: "g \<in> set (snd (branch c s)) \<Longrightarrow> belt_local g"
  by (cases c) (auto simp: access_defs merge_def intro!: belt_localI split: if_splits)

lemma branch_merge [simp]: "branch c (merge s t) = branch c s"
  by (cases c) simp_all

lemma run_accesses_local:
  assumes "\<forall>g \<in> set gs. belt_local g" "run_accesses gs l s = Some (l', s')"
  shows "run_accesses gs l (merge s t) = Some (l', merge s' t)" "merge b s' = merge b s"
proof -
  have "run_accesses gs l (merge s t) = Some (l', merge s' t) \<and> merge b s' = merge b s"
    using assms
  proof (induction gs arbitrary: l s)
    case (Cons g gs)
    obtain l1 s1 where g: "g l s = Some (l1, s1)" "run_accesses gs l1 s1 = Some (l', s')"
      using Cons.prems(2) by (auto split: option.splits)
    have "g l (merge s t) = Some (l1, merge s1 t)" "merge b s1 = merge b s"
      using Cons.prems(1) g(1) unfolding belt_local_def by auto
    then show ?case using Cons.IH [OF _ g(2)] Cons.prems(1) by simp
  qed simp
  then show "run_accesses gs l (merge s t) = Some (l', merge s' t)" "merge b s' = merge b s" by simp_all
qed

lemma run_accesses_snoc:
  "run_accesses (gs @ [g]) l s = (case run_accesses gs l s of None \<Rightarrow> None | Some (l', s') \<Rightarrow> g l' s')"
  by (induction gs arbitrary: l s) (auto split: option.split)

section \<open>The fine-grained system\<close>

text \<open>
  A process is outside the sections, at a control point of \<open>Belt_Concurrency\<close>, or inside one, with the
  branch it took, its locals and the accesses that are left.  \<open>g_entry\<close> is a ghost: the segment when the
  process inside its section started it.
\<close>

datatype gpc = Outside pc | Within belt_call bool locals "access list"

record fine =
  g_procs :: "gpc list"
  g_world :: world
  g_accepted :: "Package list"
  g_taken :: "Package list"
  g_entry :: SharedState

inductive fine_step :: "fine \<Rightarrow> fine \<Rightarrow> bool" where
  call: "i < length (g_procs st) \<Longrightarrow> g_procs st ! i = Outside Idle \<Longrightarrow>
    fine_step st (st\<lparr>g_procs := (g_procs st)[i := Outside (if wait_sem c = None then WaitLock c else WaitSem c)]\<rparr>)"
| wait: "i < length (g_procs st) \<Longrightarrow> g_procs st ! i = Outside (WaitSem c) \<Longrightarrow> wait_sem c = Some k \<Longrightarrow>
    semOperation k (-1) (g_world st) = Done () w' \<Longrightarrow>
    fine_step st (st\<lparr>g_procs := (g_procs st)[i := Outside (WaitLock c)], g_world := w'\<rparr>)"
| lock: "i < length (g_procs st) \<Longrightarrow> g_procs st ! i = Outside (WaitLock c) \<Longrightarrow> lockBelt (g_world st) = Done () w' \<Longrightarrow>
    fine_step st (st\<lparr>g_procs := (g_procs st)[i := Outside (Inside c)], g_world := w'\<rparr>)"
| enter: "i < length (g_procs st) \<Longrightarrow> g_procs st ! i = Outside (Inside c) \<Longrightarrow> branch c (shm (g_world st)) = (ok, gs) \<Longrightarrow>
    fine_step st (st\<lparr>g_procs := (g_procs st)[i := Within c ok (fresh_locals c) gs], g_entry := shm (g_world st)\<rparr>)"
| access: "i < length (g_procs st) \<Longrightarrow> g_procs st ! i = Within c ok l (g # gs) \<Longrightarrow> g l (shm (g_world st)) = Some (l', s') \<Longrightarrow>
    fine_step st (st\<lparr>g_procs := (g_procs st)[i := Within c ok l' gs], g_world := (g_world st)\<lparr>shm := s'\<rparr>\<rparr>)"
| leave: "i < length (g_procs st) \<Longrightarrow> g_procs st ! i = Within c ok l [] \<Longrightarrow>
    fine_step st (st\<lparr>g_procs := (g_procs st)[i := Outside (Unlocking (post_sem c ok))],
      g_accepted := g_accepted st @ log_accepted c ok (l_pkg l), g_taken := g_taken st @ log_taken c ok (l_pkg l)\<rparr>)"
| unlock: "i < length (g_procs st) \<Longrightarrow> g_procs st ! i = Outside (Unlocking k) \<Longrightarrow> unlockBelt (g_world st) = Done () w' \<Longrightarrow>
    fine_step st (st\<lparr>g_procs := (g_procs st)[i := Outside (case k of None \<Rightarrow> Idle | Some j \<Rightarrow> Posting j)], g_world := w'\<rparr>)"
| post: "i < length (g_procs st) \<Longrightarrow> g_procs st ! i = Outside (Posting k) \<Longrightarrow> semOperation k 1 (g_world st) = Done () w' \<Longrightarrow>
    fine_step st (st\<lparr>g_procs := (g_procs st)[i := Outside Idle], g_world := w'\<rparr>)"
| others: "same_belt (g_world st) w' \<Longrightarrow> fine_step st (st\<lparr>g_world := w'\<rparr>)"

definition fine_init :: "fine \<Rightarrow> bool" where
  "fine_init st \<longleftrightarrow> (\<forall>x \<in> set (g_procs st). x = Outside Idle) \<and> g_world st = boot_world
     \<and> g_accepted st = [] \<and> g_taken st = []"

abbreviation fine_reachable :: "fine \<Rightarrow> bool" where
  "fine_reachable \<equiv> reachable fine_init fine_step"

section \<open>The abstraction\<close>

text \<open>A section in progress has not happened yet: the protected fields are those at its start.\<close>

fun outer_pc :: "gpc \<Rightarrow> pc" where
  "outer_pc (Outside x) = x"
| "outer_pc (Within c ok l gs) = Inside c"

fun inside_section :: "gpc \<Rightarrow> bool" where
  "inside_section (Outside x) = False"
| "inside_section (Within c ok l gs) = True"

definition outer_world :: "fine \<Rightarrow> world" where
  "outer_world st = (if list_ex inside_section (g_procs st)
     then (g_world st)\<lparr>shm := merge (g_entry st) (shm (g_world st))\<rparr> else g_world st)"

definition abs_fine :: "fine \<Rightarrow> conc" where
  "abs_fine st = \<lparr>procs = map outer_pc (g_procs st), cw = outer_world st, accepted = g_accepted st, taken = g_taken st\<rparr>"

text \<open>A process inside a section has done a first part of the accesses of its branch.\<close>

definition progress :: "SharedState \<Rightarrow> SharedState \<Rightarrow> gpc \<Rightarrow> bool" where
  "progress b s x = (case x of Outside y \<Rightarrow> True | Within c ok l gs \<Rightarrow>
     \<exists>ds. branch c b = (ok, ds @ gs) \<and> run_accesses ds (fresh_locals c) (merge b s) = Some (l, s))"

definition fine_inv :: "fine \<Rightarrow> bool" where
  "fine_inv st \<longleftrightarrow> conc_reachable (abs_fine st) \<and> (\<forall>x \<in> set (g_procs st). progress (g_entry st) (shm (g_world st)) x)"

section \<open>The simulation\<close>

lemma outer_world_simps [simp]:
  "kernel (outer_world st) = kernel (g_world st)" "sems (outer_world st) = sems (g_world st)"
  "attached (outer_world st) = attached (g_world st)"
  by (simp_all add: outer_world_def)

lemma list_ex_update: "i < length xs \<Longrightarrow> P y = P (xs ! i) \<Longrightarrow> list_ex P (xs[i := y]) = list_ex P xs"
proof (induction xs arbitrary: i)
  case (Cons x xs)
  then show ?case by (cases i) auto
qed simp

lemma map_update_same: "i < length xs \<Longrightarrow> f y = f (xs ! i) \<Longrightarrow> map f (xs[i := y]) = map f xs"
  by (metis list_update_id map_update)

text \<open>A step outside the sections: the process moves and at most a semaphore changes.\<close>

lemma outer_move:
  assumes "i < length (g_procs st)" "g_procs st ! i = Outside x" "shm w = shm (g_world st)"
  shows "abs_fine (st\<lparr>g_procs := (g_procs st)[i := Outside y], g_world := w\<rparr>) =
    (abs_fine st)\<lparr>procs := (procs (abs_fine st))[i := y], cw := w\<lparr>shm := shm (outer_world st)\<rparr>\<rparr>"
proof -
  have "list_ex inside_section ((g_procs st)[i := Outside y]) = list_ex inside_section (g_procs st)"
    using assms(1,2) by (intro list_ex_update) simp_all
  then show ?thesis using assms(3) by (simp add: abs_fine_def outer_world_def map_update)
qed

lemma semOperation_view:
  assumes "semOperation k v w = Done () w'" "kernel w = []"
  shows "shm w' = shm w" "semOperation k v (w\<lparr>shm := s\<rparr>) = Done () (w'\<lparr>shm := s\<rparr>)"
  using assms by (auto simp: semOperation_def split: if_splits)

lemma outer_sem:
  assumes "semOperation k v (g_world st) = Done () w'" "kernel (g_world st) = []"
  shows "semOperation k v (outer_world st) = Done () (w'\<lparr>shm := shm (outer_world st)\<rparr>)"
proof -
  have "outer_world st = (g_world st)\<lparr>shm := shm (outer_world st)\<rparr>" by (simp add: outer_world_def)
  then show ?thesis using semOperation_view(2) [OF assms] by metis
qed

lemma progress_Outside [simp]: "progress b s (Outside x)"
  by (simp add: progress_def)

lemma progress_others:
  assumes "progress b s x" "same_belt_fields s t"
  shows "progress b t x"
proof (cases x)
  case (Within c ok l gs)
  then obtain ds where ds: "branch c b = (ok, ds @ gs)" "run_accesses ds (fresh_locals c) (merge b s) = Some (l, s)"
    using assms(1) by (auto simp: progress_def)
  have "\<forall>g \<in> set ds. belt_local g" using accesses_local [of _ c b] ds(1) by auto
  from run_accesses_local(1) [OF this ds(2), of t] assms(2)
  have "run_accesses ds (fresh_locals c) (merge b t) = Some (l, t)" by (simp add: merge_same_belt)
  then show ?thesis using ds(1) Within by (auto simp: progress_def)
qed simp

lemma fine_inv_outer:
  assumes inv: "fine_inv st" and i: "i < length (g_procs st)" "g_procs st ! i = Outside x"
    and w: "shm w = shm (g_world st)"
    and step: "conc_step (abs_fine st)
      ((abs_fine st)\<lparr>procs := (procs (abs_fine st))[i := y], cw := w\<lparr>shm := shm (outer_world st)\<rparr>\<rparr>)"
  shows "fine_inv (st\<lparr>g_procs := (g_procs st)[i := Outside y], g_world := w\<rparr>)"
proof -
  have "conc_reachable (abs_fine (st\<lparr>g_procs := (g_procs st)[i := Outside y], g_world := w\<rparr>))"
    using inv step unfolding outer_move [OF i w] fine_inv_def by (auto intro: reachable.further)
  moreover have "progress (g_entry st) (shm w) z" if "z \<in> set ((g_procs st)[i := Outside y])" for z
    using set_update_cases [OF that] inv w by (auto simp: fine_inv_def)
  ultimately show ?thesis by (simp add: fine_inv_def)
qed

text \<open>While a process is inside a section, no other is.\<close>

lemma others_outside:
  assumes "fine_inv st" "i < length (g_procs st)" "holds (outer_pc (g_procs st ! i)) = 1"
    "j < length (g_procs st)" "j \<noteq> i"
  shows "\<not> inside_section (g_procs st ! j)"
proof
  assume "inside_section (g_procs st ! j)"
  then have "holds (outer_pc (g_procs st ! j)) = 1" by (cases "g_procs st ! j") simp_all
  then show False
    using holders_unique [of 0 0 "abs_fine st" i j] conc_reachable_inv [of "abs_fine st"] assms
    by (simp add: fine_inv_def sem_inv_drift) (simp add: abs_fine_def)
qed

lemma progress_outside: "\<not> inside_section x \<Longrightarrow> progress b s x"
  by (cases x) simp_all

text \<open>The process inside its section moves on; the others are outside.\<close>

lemma inside_move:
  assumes inv: "fine_inv st" and i: "i < length (g_procs st)" "holds (outer_pc (g_procs st ! i)) = 1"
    and z: "z \<in> set ((g_procs st)[i := y])" and y: "progress b s y"
  shows "progress b s z"
proof -
  obtain j where j: "j < length (g_procs st)" "z = (g_procs st)[i := y] ! j" using z by (auto simp: in_set_conv_nth)
  show ?thesis
  proof (cases "j = i")
    case False
    then show ?thesis using others_outside [OF inv i j(1)] j progress_outside by simp
  qed (use j y in simp)
qed

lemma none_inside:
  assumes inv: "fine_inv st" and i: "i < length (g_procs st)" "holds (outer_pc (g_procs st ! i)) = 1"
    and y: "\<not> inside_section y"
  shows "\<not> list_ex inside_section ((g_procs st)[i := y])"
proof
  assume "list_ex inside_section ((g_procs st)[i := y])"
  then obtain j where "j < length (g_procs st)" "inside_section ((g_procs st)[i := y] ! j)"
    by (auto simp: list_ex_iff in_set_conv_nth)
  then show False using others_outside [OF inv i, of j] i(1) y by (cases "j = i") simp_all
qed

lemma some_inside: "i < length xs \<Longrightarrow> inside_section (xs ! i) \<Longrightarrow> list_ex inside_section xs"
  by (auto simp: list_ex_iff)

lemma fine_inv_enter:
  assumes inv: "fine_inv st" and i: "i < length (g_procs st)" "g_procs st ! i = Outside (Inside c)"
    and b: "branch c (shm (g_world st)) = (ok, gs)"
  shows "fine_inv (st\<lparr>g_procs := (g_procs st)[i := Within c ok (fresh_locals c) gs], g_entry := shm (g_world st)\<rparr>)"
    (is "fine_inv ?st")
proof -
  have h: "holds (outer_pc (g_procs st ! i)) = 1" using i(2) by simp
  have "\<not> list_ex inside_section (g_procs st)"
    using none_inside [OF inv i(1) h, of "g_procs st ! i"] i(2) list_update_id [of "g_procs st" i] by simp
  then have w: "outer_world st = g_world st" by (simp add: outer_world_def)
  have "list_ex inside_section ((g_procs st)[i := Within c ok (fresh_locals c) gs])"
    using some_inside [of i "(g_procs st)[i := Within c ok (fresh_locals c) gs]"] i(1) by simp
  then have "abs_fine ?st = abs_fine st"
    using map_update_same [OF i(1), of outer_pc "Within c ok (fresh_locals c) gs"] i(2) w
    by (simp add: abs_fine_def) (simp add: outer_world_def)
  moreover have "progress (shm (g_world st)) (shm (g_world st)) (Within c ok (fresh_locals c) gs)"
    using b by (auto simp: progress_def)
  ultimately show ?thesis using inside_move [OF inv i(1) h] inv by (auto simp: fine_inv_def)
qed

lemma fine_inv_access:
  assumes inv: "fine_inv st" and i: "i < length (g_procs st)" "g_procs st ! i = Within c ok l (g # gs)"
    and g: "g l (shm (g_world st)) = Some (l', s')"
  shows "fine_inv (st\<lparr>g_procs := (g_procs st)[i := Within c ok l' gs], g_world := (g_world st)\<lparr>shm := s'\<rparr>\<rparr>)"
    (is "fine_inv ?st")
proof -
  have h: "holds (outer_pc (g_procs st ! i)) = 1" using i(2) by simp
  have ins: "list_ex inside_section (g_procs st)" using some_inside [OF i(1)] i(2) by simp
  have "progress (g_entry st) (shm (g_world st)) (Within c ok l (g # gs))"
    using inv i nth_mem [OF i(1)] by (auto simp: fine_inv_def)
  then obtain ds where ds: "branch c (g_entry st) = (ok, ds @ g # gs)"
    "run_accesses ds (fresh_locals c) (merge (g_entry st) (shm (g_world st))) = Some (l, shm (g_world st))"
    by (auto simp: progress_def)
  have "belt_local g" using accesses_local [of g c "g_entry st"] ds(1) by simp
  then have m: "merge (g_entry st) s' = merge (g_entry st) (shm (g_world st))"
    using g unfolding belt_local_def by blast
  have "progress (g_entry st) s' (Within c ok l' gs)"
    unfolding progress_def using ds g m by (auto simp: run_accesses_snoc intro!: exI [of _ "ds @ [g]"])
  moreover have "list_ex inside_section ((g_procs st)[i := Within c ok l' gs]) = list_ex inside_section (g_procs st)"
    using i by (intro list_ex_update) simp_all
  then have "abs_fine ?st = abs_fine st"
    using map_update_same [OF i(1), of outer_pc "Within c ok l' gs"] i(2) ins m
    by (simp add: abs_fine_def outer_world_def)
  ultimately show ?thesis using inside_move [OF inv i(1) h] inv by (auto simp: fine_inv_def)
qed

lemma fine_inv_leave:
  assumes inv: "fine_inv st" and i: "i < length (g_procs st)" "g_procs st ! i = Within c ok l []"
  shows "fine_inv (st\<lparr>g_procs := (g_procs st)[i := Outside (Unlocking (post_sem c ok))],
      g_accepted := g_accepted st @ log_accepted c ok (l_pkg l), g_taken := g_taken st @ log_taken c ok (l_pkg l)\<rparr>)"
    (is "fine_inv ?st")
proof -
  define s where "s = shm (g_world st)"
  have h: "holds (outer_pc (g_procs st ! i)) = 1" using i(2) by simp
  have ins: "list_ex inside_section (g_procs st)" using some_inside [OF i(1)] i(2) by simp
  have "progress (g_entry st) s (Within c ok l [])"
    using inv i nth_mem [OF i(1)] by (auto simp: fine_inv_def s_def)
  then have "fst (branch c (merge (g_entry st) s)) = ok"
    "run_accesses (snd (branch c (g_entry st))) (fresh_locals c) (merge (g_entry st) s) = Some (l, s)"
    by (auto simp: progress_def)
  then have run: "run_body c (merge (g_entry st) s) = Some ((ok, l_pkg l), s)" by (simp add: accesses_are_the_section)
  have w: "outer_world st = (g_world st)\<lparr>shm := merge (g_entry st) s\<rparr>" "outer_world ?st = g_world st"
    using ins none_inside [OF inv i(1) h, of "Outside (Unlocking (post_sem c ok))"] by (simp_all add: outer_world_def s_def)
  have "conc_step (abs_fine st) (abs_fine ?st)"
    using conc_step.body [of i "abs_fine st" c ok "l_pkg l" s] i run w
    by (simp add: abs_fine_def map_update) (simp add: s_def)
  then show ?thesis using inv inside_move [OF inv i(1) h] by (auto simp: fine_inv_def intro: reachable.further)
qed

lemma fine_inv_others:
  assumes inv: "fine_inv st" and o: "same_belt (g_world st) w'"
  shows "fine_inv (st\<lparr>g_world := w'\<rparr>)"
proof -
  have "same_belt (outer_world st) (outer_world (st\<lparr>g_world := w'\<rparr>))"
    using o same_belt_merge by (simp add: same_belt_def outer_world_def)
  then have "conc_step (abs_fine st) (abs_fine (st\<lparr>g_world := w'\<rparr>))"
    using conc_step.others [of "abs_fine st" "outer_world (st\<lparr>g_world := w'\<rparr>)"] by (simp add: abs_fine_def)
  then show ?thesis using inv o progress_others by (auto simp: fine_inv_def same_belt_def intro: reachable.further)
qed

lemma fine_inv_step:
  assumes inv: "fine_inv st" and step: "fine_step st st'"
  shows "fine_inv st'"
proof -
  have k: "kernel (g_world st) = []"
    using conc_reachable_inv [of "abs_fine st"] sem_invD(2) [of "abs_fine st"] inv by (simp add: fine_inv_def abs_fine_def)
  have w: "cw (abs_fine st) = outer_world st" by (simp add: abs_fine_def)
  have p: "i < length (procs (abs_fine st))" "procs (abs_fine st) ! i = x"
    if "i < length (g_procs st)" "g_procs st ! i = Outside x" for i x
    using that by (simp_all add: abs_fine_def)
  from step show ?thesis
  proof cases
    case (call i c)
    have "(abs_fine st)\<lparr>procs := (procs (abs_fine st))[i := y], cw := (g_world st)\<lparr>shm := shm (outer_world st)\<rparr>\<rparr>
        = (abs_fine st)\<lparr>procs := (procs (abs_fine st))[i := y]\<rparr>" for y
      by (simp add: abs_fine_def outer_world_def)
    then show ?thesis unfolding call(1)
      using fine_inv_outer [OF inv call(2,3), of "g_world st"] conc_step.call [OF p [OF call(2,3)], of c] by simp
  next
    case (wait i c k w')
    then show ?thesis
      using fine_inv_outer [OF inv wait(2,3) semOperation_view(1) [OF wait(5) k]]
        conc_step.wait [OF p [OF wait(2,3)] wait(4)] outer_sem [OF wait(5) k] w by simp
  next
    case (lock i c w')
    then show ?thesis
      using fine_inv_outer [OF inv lock(2,3) semOperation_view(1) [OF lock(4) [unfolded lockBelt_def] k]]
        conc_step.lock [OF p [OF lock(2,3)]] outer_sem [OF lock(4) [unfolded lockBelt_def] k] w by (simp add: lockBelt_def)
  next
    case (enter i c ok gs)
    then show ?thesis using fine_inv_enter [OF inv] by simp
  next
    case (access i c ok l g gs l' s')
    then show ?thesis using fine_inv_access [OF inv] by simp
  next
    case (leave i c ok l)
    then show ?thesis using fine_inv_leave [OF inv] by simp
  next
    case (unlock i k' w')
    then show ?thesis
      using fine_inv_outer [OF inv unlock(2,3) semOperation_view(1) [OF unlock(4) [unfolded unlockBelt_def] k]]
        conc_step.unlock [OF p [OF unlock(2,3)]] outer_sem [OF unlock(4) [unfolded unlockBelt_def] k] w by (simp add: unlockBelt_def)
  next
    case (post i k' w')
    then show ?thesis
      using fine_inv_outer [OF inv post(2,3) semOperation_view(1) [OF post(4) k]]
        conc_step.post [OF p [OF post(2,3)]] outer_sem [OF post(4) k] w by simp
  next
    case (others w')
    then show ?thesis using fine_inv_others [OF inv] by simp
  qed
qed

interpretation fine_system: inductive_invariant fine_init fine_step fine_inv
proof unfold_locales
  show "fine_inv st" if "fine_init st" for st
  proof -
    have z: "\<forall>x \<in> set (g_procs st). x = Outside Idle" using that by (simp add: fine_init_def)
    then have "\<not> list_ex inside_section (g_procs st)" by (auto simp: list_ex_iff)
    then have "conc_init (abs_fine st)" using that z by (auto simp: conc_init_def abs_fine_def outer_world_def fine_init_def)
    then show ?thesis using z by (auto simp: fine_inv_def intro: reachable.start)
  qed
qed (use fine_inv_step in blast)

lemma run_accesses_append:
  "run_accesses (ds @ gs) l s = (case run_accesses ds l s of None \<Rightarrow> None | Some (l', s') \<Rightarrow> run_accesses gs l' s')"
  by (induction ds arbitrary: l s) (auto split: option.split)

text \<open>The next access of a process inside its section is defined.\<close>

lemma access_defined:
  assumes inv: "fine_inv st" and i: "i < length (g_procs st)" "g_procs st ! i = Within c ok l (g # gs)"
    and ids: "0 < id_budget (g_entry st)"
  shows "g l (shm (g_world st)) \<noteq> None"
proof -
  define b s where "b = g_entry st" and "s = shm (g_world st)"
  have "progress b s (Within c ok l (g # gs))"
    using inv i nth_mem [OF i(1)] by (auto simp: fine_inv_def b_def s_def)
  then obtain ds where ds: "branch c b = (ok, ds @ g # gs)" "run_accesses ds (fresh_locals c) (merge b s) = Some (l, s)"
    by (auto simp: progress_def)
  have w: "shm (cw (abs_fine st)) = merge b s"
    using some_inside [OF i(1)] i(2) by (simp add: abs_fine_def outer_world_def b_def s_def)
  have "0 < id_budget (merge b s)" using ids by (simp add: b_def id_budget_def)
  moreover have "sem_inv (abs_fine st)" "queue_inv (abs_fine st)"
    using conc_reachable_inv inv by (auto simp: fine_inv_def)
  ultimately have "run_body c (merge b s) \<noteq> None"
    using body_defined [of "abs_fine st" i c] i w by (auto simp: abs_fine_def)
  then show ?thesis using ds by (auto simp: accesses_are_the_section run_accesses_append s_def split: option.splits)
qed

section \<open>An interrupted lock\<close>

text \<open>
  The same system when a signal may interrupt a process that sleeps because the mutex is taken: the call
  reports \<open>EINTR\<close> and \<open>semOperation\<close> returns.
\<close>

inductive intr_step :: "fine \<Rightarrow> fine \<Rightarrow> bool" where
  normal: "fine_step st st' \<Longrightarrow> intr_step st st'"
| interrupted: "i < length (g_procs st) \<Longrightarrow> g_procs st ! i = Outside (WaitLock c) \<Longrightarrow>
    lockBelt (g_world st) = Blocked (OnSem SEM_MUTEX_BELT) (g_world st) \<Longrightarrow>
    lockBelt ((g_world st)\<lparr>kernel := [Some EINTR]\<rparr>) = Done () w' \<Longrightarrow>
    intr_step st (st\<lparr>g_procs := (g_procs st)[i := Outside (Inside c)], g_world := w'\<rparr>)"

abbreviation intr_reachable :: "fine \<Rightarrow> bool" where
  "intr_reachable \<equiv> reachable fine_init intr_step"

lemma intr_normal: "intr_reachable st \<Longrightarrow> fine_step st st' \<Longrightarrow> intr_reachable st'"
  using intr_step.normal by (auto intro: reachable.further)

text \<open>Two processes.\<close>

definition pair :: "gpc \<Rightarrow> gpc \<Rightarrow> world \<Rightarrow> Package list \<Rightarrow> SharedState \<Rightarrow> fine" where
  "pair x y w a e = \<lparr>g_procs = [x, y], g_world = w, g_accepted = a, g_taken = [], g_entry = e\<rparr>"

lemma pair_simps [simp]:
  "g_procs (pair x y w a e) = [x, y]" "g_world (pair x y w a e) = w" "g_accepted (pair x y w a e) = a"
  "(pair x y w a e)\<lparr>g_procs := [x', y']\<rparr> = pair x' y' w a e" "(pair x y w a e)\<lparr>g_world := w'\<rparr> = pair x y w' a e"
  "(pair x y w a e)\<lparr>g_entry := e'\<rparr> = pair x y w a e'"
  "(pair x y w a e)\<lparr>g_accepted := a', g_taken := []\<rparr> = pair x y w a' e" "g_taken (pair x y w a e) = []"
  "(pair x y w a e)\<lparr>g_procs := [x', y'], g_world := w'\<rparr> = pair x' y' w' a e"
  "(pair x y w a e)\<lparr>g_procs := [x', y'], g_entry := e'\<rparr> = pair x' y' w a e'"
  "(pair x y w a e)\<lparr>g_procs := [x', y'], g_accepted := a', g_taken := []\<rparr> = pair x' y' w a' e"
  by (simp_all add: pair_def)

text \<open>One of them does several accesses in a row.\<close>

lemma accesses_in_a_row:
  assumes "intr_reachable st" "i < length (g_procs st)" "g_procs st ! i = Within c ok l (ds @ gs)"
    "run_accesses ds l (shm (g_world st)) = Some (l', s')"
  shows "intr_reachable (st\<lparr>g_procs := (g_procs st)[i := Within c ok l' gs], g_world := (g_world st)\<lparr>shm := s'\<rparr>\<rparr>)"
  using assms
proof (induction ds arbitrary: l st)
  case Nil
  then have "(g_procs st)[i := Within c ok l' gs] = g_procs st" "shm (g_world st) = s'" by (auto simp: list_update_same_conv)
  then show ?case using Nil.prems(1) by auto
next
  case (Cons g ds)
  obtain l1 s1 where g: "g l (shm (g_world st)) = Some (l1, s1)" "run_accesses ds l1 s1 = Some (l', s')"
    using Cons.prems(4) by (auto split: option.splits)
  define st1 where "st1 = st\<lparr>g_procs := (g_procs st)[i := Within c ok l1 (ds @ gs)], g_world := (g_world st)\<lparr>shm := s1\<rparr>\<rparr>"
  have "fine_step st st1"
    unfolding st1_def using Cons.prems(2,3) g(1) by (intro fine_step.access [of i st c ok l g "ds @ gs"]) simp_all
  then have "intr_reachable st1" using intr_normal Cons.prems(1) by blast
  from Cons.IH [OF this] g(2) Cons.prems(2) show ?case by (simp add: st1_def)
qed

text \<open>The first half of a push reads the index of the cell, the second half writes.\<close>

lemma push_accesses:
  "current_items_count s < MAX_BELT_CAPACITY_K \<Longrightarrow> branch (PushCall p) s =
     (True, [load_total, store_total, load_id, load_tail] @
       [store_cell, store_tail, load_count, store_count_up, load_weight, store_weight_up])"
  by simp

lemma boot_belt:
  "kernel boot_world = []" "sems boot_world SEM_MUTEX_BELT = 1" "sems boot_world SEM_EMPTY_SLOTS = 10"
  "sems boot_world SEM_FULL_SLOTS = 0" "total_packages_created (shm boot_world) = 0" "tail (shm boot_world) = 0"
  "head (shm boot_world) = 0" "current_items_count (shm boot_world) = 0" "belt (shm boot_world) = replicate 10 zero_Package"
  "current_belt_weight (shm boot_world) = Fin 0"
  by (simp_all add: init_sems_def init_shm_def zero_SharedState_def shared_consts)

definition second_half :: "access list" where
  "second_half = [store_cell, store_tail, load_count, store_count_up, load_weight, store_weight_up]"

text \<open>A producer waits for a slot, then takes the mutex or is interrupted while it waits for it.\<close>

lemma producer_enters:
  assumes r: "intr_reachable st" and i: "i < length (g_procs st)" "g_procs st ! i = Outside Idle"
    and w: "kernel (g_world st) = []" "0 < sems (g_world st) SEM_EMPTY_SLOTS"
    and w1: "w1 = (g_world st)\<lparr>sems := (sems (g_world st))(SEM_EMPTY_SLOTS := sems (g_world st) SEM_EMPTY_SLOTS - 1)\<rparr>"
    and w2: "sems w1 SEM_MUTEX_BELT = 0 \<and> w2 = w1 \<or> 0 < sems w1 SEM_MUTEX_BELT \<and> w2 = w1\<lparr>sems := (sems w1)(SEM_MUTEX_BELT := sems w1 SEM_MUTEX_BELT - 1)\<rparr>"
  shows "intr_reachable (st\<lparr>g_procs := (g_procs st)[i := Outside (Inside (PushCall p))], g_world := w2\<rparr>)"
proof -
  define A where "A = (\<lambda>x v. st\<lparr>g_procs := (g_procs st)[i := x], g_world := v\<rparr>)"
  have A: "i < length (g_procs (A x v))" "g_procs (A x v) ! i = x" "g_world (A x v) = v" for x v
    using i(1) by (simp_all add: A_def)
  have again: "(A x v)\<lparr>g_procs := (g_procs (A x v))[i := y], g_world := v'\<rparr> = A y v'" for x y v v'
    by (simp add: A_def)
  have "fine_step st (A (Outside (WaitSem (PushCall p))) (g_world st))"
    using fine_step.call [OF i, of "PushCall p"] by (simp add: A_def)
  from intr_normal [OF r this] have r1: "intr_reachable (A (Outside (WaitSem (PushCall p))) (g_world st))" .
  have "semOperation SEM_EMPTY_SLOTS (-1) (g_world st) = Done () w1" using w by (simp add: semOperation_ok w1)
  then have r2: "intr_reachable (A (Outside (WaitLock (PushCall p))) w1)"
    using intr_normal [OF r1] fine_step.wait [OF A(1,2), of "PushCall p" SEM_EMPTY_SLOTS] A(3) again by simp
  have k1: "kernel w1 = []" using w(1) by (simp add: w1)
  have "intr_reachable (A (Outside (Inside (PushCall p))) w2)"
    using w2
  proof
    assume "sems w1 SEM_MUTEX_BELT = 0 \<and> w2 = w1"
    moreover from this have "lockBelt w1 = Blocked (OnSem SEM_MUTEX_BELT) w1"
      using k1 by (simp add: lockBelt_def semOperation_blocks)
    moreover have "lockBelt (w1\<lparr>kernel := [Some EINTR]\<rparr>) = Done () w1"
      using k1 by (cases w1) (simp add: lockBelt_def semOperation_def)
    ultimately show ?thesis
      using reachable.further [OF r2 intr_step.interrupted [OF A(1,2)]] A(3) again by simp
  next
    assume "0 < sems w1 SEM_MUTEX_BELT \<and> w2 = w1\<lparr>sems := (sems w1)(SEM_MUTEX_BELT := sems w1 SEM_MUTEX_BELT - 1)\<rparr>"
    then have "lockBelt w1 = Done () w2" using k1 by (simp add: lockBelt_def semOperation_ok)
    then show ?thesis using intr_normal [OF r2] fine_step.lock [OF A(1,2), of "PushCall p"] A(3) again by simp
  qed
  then show ?thesis by (simp add: A_def)
qed

text \<open>Inside, it numbers its package and reads the index of the cell.\<close>

lemma producer_reads:
  assumes r: "intr_reachable st" and i: "i < length (g_procs st)" "g_procs st ! i = Outside (Inside (PushCall p))"
    and w: "current_items_count (shm (g_world st)) < MAX_BELT_CAPACITY_K" "in_int32 n"
      "total_packages_created (shm (g_world st)) = n - 1"
  shows "intr_reachable (st\<lparr>g_procs := (g_procs st)[i := Within (PushCall p) True
        \<lparr>l_pkg = p\<lparr>pkg_id := n\<rparr>, l_int = n - 1, l_index = tail (shm (g_world st)), l_dbl = Fin 0\<rparr> second_half],
      g_world := (g_world st)\<lparr>shm := (shm (g_world st))\<lparr>total_packages_created := n\<rparr>\<rparr>, g_entry := shm (g_world st)\<rparr>)"
proof -
  define st1 where "st1 = st\<lparr>g_procs := (g_procs st)[i := Within (PushCall p) True (fresh_locals (PushCall p))
      ([load_total, store_total, load_id, load_tail] @ second_half)], g_entry := shm (g_world st)\<rparr>"
  have "branch (PushCall p) (shm (g_world st)) = (True, [load_total, store_total, load_id, load_tail] @ second_half)"
    using w(1) push_accesses [of "shm (g_world st)" p] by (simp only: second_half_def)
  from intr_normal [OF r fine_step.enter [OF i this]] have r1: "intr_reachable st1" by (simp only: st1_def)
  have p: "i < length (g_procs st1)" "g_procs st1 ! i = Within (PushCall p) True (fresh_locals (PushCall p))
      ([load_total, store_total, load_id, load_tail] @ second_half)" "g_world st1 = g_world st"
    using i(1) by (simp_all add: st1_def)
  have "run_accesses [load_total, store_total, load_id, load_tail] (fresh_locals (PushCall p)) (shm (g_world st1))
      = Some (\<lparr>l_pkg = p\<lparr>pkg_id := n\<rparr>, l_int = n - 1, l_index = tail (shm (g_world st)), l_dbl = Fin 0\<rparr>,
          (shm (g_world st))\<lparr>total_packages_created := n\<rparr>)"
    using w(2,3) p(3) by (simp add: access_defs fresh_locals_def cadd_def)
  from accesses_in_a_row [OF r1 p(1,2) this] show ?thesis by (cases st) (simp add: st1_def)
qed

text \<open>Then it writes, leaves the section, gives the mutex back and posts the package.\<close>

lemma producer_writes:
  assumes r: "intr_reachable st" and i: "i < length (g_procs st)" "g_procs st ! i = Within (PushCall p) True l second_half"
    and w: "kernel (g_world st) = []" "0 \<le> sems (g_world st) SEM_MUTEX_BELT" "0 \<le> sems (g_world st) SEM_FULL_SLOTS"
    and run: "run_accesses second_half l (shm (g_world st)) = Some (l', s')"
  shows "\<exists>w'. intr_reachable (st\<lparr>g_procs := (g_procs st)[i := Outside Idle], g_world := w',
        g_accepted := g_accepted st @ [l_pkg l'], g_taken := g_taken st\<rparr>)
     \<and> shm w' = s' \<and> kernel w' = [] \<and> sems w' = (sems (g_world st))(SEM_MUTEX_BELT := sems (g_world st) SEM_MUTEX_BELT + 1,
          SEM_FULL_SLOTS := sems (g_world st) SEM_FULL_SLOTS + 1)"
proof -
  define B where "B = (\<lambda>x v. st\<lparr>g_procs := (g_procs st)[i := x], g_world := v,
      g_accepted := g_accepted st @ [l_pkg l'], g_taken := g_taken st\<rparr>)"
  have B: "i < length (g_procs (B x v))" "g_procs (B x v) ! i = x" "g_world (B x v) = v" for x v
    using i(1) by (simp_all add: B_def)
  have again: "(B x v)\<lparr>g_procs := (g_procs (B x v))[i := y], g_world := v'\<rparr> = B y v'" for x y v v'
    by (simp add: B_def)
  define w1 where "w1 = (g_world st)\<lparr>shm := s'\<rparr>"
  define w2 where "w2 = w1\<lparr>sems := (sems w1)(SEM_MUTEX_BELT := sems w1 SEM_MUTEX_BELT + 1)\<rparr>"
  define w3 where "w3 = w2\<lparr>sems := (sems w2)(SEM_FULL_SLOTS := sems w2 SEM_FULL_SLOTS + 1)\<rparr>"
  have "intr_reachable (st\<lparr>g_procs := (g_procs st)[i := Within (PushCall p) True l' []], g_world := w1\<rparr>)"
    using accesses_in_a_row [OF r i(1), of "PushCall p" True l second_half "[]"] i(2) run by (simp add: w1_def)
  from intr_normal [OF this fine_step.leave [of i _ "PushCall p" True l']] i(1)
  have r1: "intr_reachable (B (Outside (Unlocking (Some SEM_FULL_SLOTS))) w1)"
    by (cases st) (simp add: B_def log_accepted_def log_taken_def)
  have "unlockBelt w1 = Done () w2" using w by (simp add: unlockBelt_def semOperation_ok w1_def w2_def)
  then have r2: "intr_reachable (B (Outside (Posting SEM_FULL_SLOTS)) w2)"
    using intr_normal [OF r1] fine_step.unlock [OF B(1,2), of "Some SEM_FULL_SLOTS"] B(3) again by simp
  have "semOperation SEM_FULL_SLOTS 1 w2 = Done () w3" using w by (simp add: semOperation_ok w1_def w2_def w3_def)
  then have "intr_reachable (B (Outside Idle) w3)"
    using intr_normal [OF r2] fine_step.post [OF B(1,2), of SEM_FULL_SLOTS] B(3) again by simp
  then show ?thesis using w(1) by (intro exI [of _ w3]) (simp add: B_def w1_def w2_def w3_def)
qed

text \<open>The writing half of a push on a belt that has room.\<close>

lemma second_half_run:
  assumes "l_index l < MAX_BELT_CAPACITY_K" "0 \<le> l_index l" "0 \<le> current_items_count s" "current_items_count s < MAX_BELT_CAPACITY_K"
    "length (belt s) = nat MAX_BELT_CAPACITY_K"
  shows "\<exists>l' s'. run_accesses second_half l s = Some (l', s') \<and> l_pkg l' = l_pkg l
     \<and> belt s' = (belt s)[nat (l_index l) := l_pkg l] \<and> head s' = head s \<and> tail s' = (l_index l + 1) mod MAX_BELT_CAPACITY_K
     \<and> current_items_count s' = current_items_count s + 1"
  using assms by (simp add: second_half_def access_defs cadd_def aset_Some shared_consts in_int32_iff)

text \<open>Two producers inside at once: both have read the index of the same cell.\<close>

definition untouched_belt :: "SharedState \<Rightarrow> bool" where
  "untouched_belt s \<longleftrightarrow> belt s = replicate 10 zero_Package \<and> head s = 0 \<and> tail s = 0 \<and> current_items_count s = 0"

lemma both_inside:
  "\<exists>w e. intr_reachable (pair (Within (PushCall p) True \<lparr>l_pkg = p\<lparr>pkg_id := 1\<rparr>, l_int = 0, l_index = 0, l_dbl = Fin 0\<rparr> second_half)
        (Within (PushCall q) True \<lparr>l_pkg = q\<lparr>pkg_id := 2\<rparr>, l_int = 1, l_index = 0, l_dbl = Fin 0\<rparr> second_half) w [] e)
     \<and> kernel w = [] \<and> sems w SEM_MUTEX_BELT = 0 \<and> sems w SEM_FULL_SLOTS = 0 \<and> untouched_belt (shm w)"
proof -
  define b where "b = boot_world"
  note bb = boot_belt [folded b_def]
  define lP where "lP = \<lparr>l_pkg = p\<lparr>pkg_id := 1\<rparr>, l_int = 0, l_index = 0, l_dbl = Fin 0\<rparr>"
  define lQ where "lQ = \<lparr>l_pkg = q\<lparr>pkg_id := 2\<rparr>, l_int = 1, l_index = 0, l_dbl = Fin 0\<rparr>"
  define w1 where "w1 = b\<lparr>sems := (sems b)(SEM_EMPTY_SLOTS := 9, SEM_MUTEX_BELT := 0)\<rparr>"
  define w2 where "w2 = w1\<lparr>shm := (shm b)\<lparr>total_packages_created := 1\<rparr>\<rparr>"
  define w3 where "w3 = w2\<lparr>sems := (sems w2)(SEM_EMPTY_SLOTS := 8)\<rparr>"
  define w4 where "w4 = w3\<lparr>shm := (shm b)\<lparr>total_packages_created := 2\<rparr>\<rparr>"
  have r0: "intr_reachable (pair (Outside Idle) (Outside Idle) b [] (shm b))"
    by (rule reachable.start) (simp add: fine_init_def b_def)
  have r1: "intr_reachable (pair (Outside (Inside (PushCall p))) (Outside Idle) w1 [] (shm b))"
    using producer_enters [OF r0, of 0 _ w1 p] bb by (simp add: w1_def fun_upd_twist)
  have r2: "intr_reachable (pair (Within (PushCall p) True lP second_half) (Outside Idle) w2 [] (shm b))"
    using producer_reads [OF r1, of 0 p 1] bb by (simp add: w1_def w2_def lP_def shared_consts in_int32_iff)
  have r3: "intr_reachable (pair (Within (PushCall p) True lP second_half) (Outside (Inside (PushCall q))) w3 [] (shm b))"
    using producer_enters [OF r2, of 1 _ w3 q] bb by (simp add: w3_def w2_def w1_def)
  have w3: "shm w3 = (shm b)\<lparr>total_packages_created := 1\<rparr>" "w3\<lparr>shm := (shm w3)\<lparr>total_packages_created := 2\<rparr>\<rparr> = w4"
    by (simp_all add: w4_def w3_def w2_def)
  have n: "current_items_count (shm w3) < MAX_BELT_CAPACITY_K" "total_packages_created (shm w3) = 1" "tail (shm w3) = 0"
    unfolding w3(1) using bb by (simp_all add: shared_consts)
  have r4: "intr_reachable (pair (Within (PushCall p) True lP second_half) (Within (PushCall q) True lQ second_half) w4 [] (shm w3))"
    using producer_reads [OF r3, of 1 q 2] n w3(2) by (simp add: lQ_def in_int32_iff)
  have "kernel w4 = [] \<and> sems w4 SEM_MUTEX_BELT = 0 \<and> sems w4 SEM_FULL_SLOTS = 0 \<and> untouched_belt (shm w4)"
    using bb by (simp add: w4_def w3_def w2_def w1_def untouched_belt_def)
  then show ?thesis using r4 unfolding lP_def lQ_def by blast
qed

section \<open>Properties\<close>

text \<open>
  C3: a section under the belt mutex is atomic.  When every load and store of a section is a separate
  step, interleaved with all that other processes do, every reachable state corresponds to a reachable
  state of the system in which sections are single steps; at most one process is inside a section, its
  next access is defined, and whenever nobody is inside, the belt is the FIFO queue of the accepted
  packages that were not taken.
\<close>

theorem sections_are_atomic:
  assumes "fine_reachable st"
  shows "conc_reachable (abs_fine st)
     \<and> (\<forall>i < length (g_procs st). \<forall>j < length (g_procs st).
          inside_section (g_procs st ! i) \<and> inside_section (g_procs st ! j) \<longrightarrow> i = j)
     \<and> (\<forall>i < length (g_procs st). \<forall>c ok l g gs. g_procs st ! i = Within c ok l (g # gs) \<and> 0 < id_budget (g_entry st) \<longrightarrow>
          g l (shm (g_world st)) \<noteq> None)
     \<and> (\<not> list_ex inside_section (g_procs st) \<longrightarrow>
          belt_inv (shm (g_world st)) \<and> g_accepted st = g_taken st @ belt_contents (shm (g_world st)))"
proof -
  have inv: "fine_inv st" using fine_system.inv_reachable [OF assms] .
  have holder: "holds (outer_pc x) = 1" if "inside_section x" for x using that by (cases x) simp_all
  have "\<forall>i < length (g_procs st). \<forall>j < length (g_procs st).
      inside_section (g_procs st ! i) \<and> inside_section (g_procs st ! j) \<longrightarrow> i = j"
    using others_outside [OF inv] holder by blast
  moreover have "belt_inv (shm (g_world st)) \<and> g_accepted st = g_taken st @ belt_contents (shm (g_world st))"
    if "\<not> list_ex inside_section (g_procs st)"
    using conc_reachable_inv [of "abs_fine st"] inv that by (simp add: fine_inv_def queue_inv_def abs_fine_def outer_world_def)
  ultimately show ?thesis using access_defined [OF inv] inv unfolding fine_inv_def by blast
qed

theorem sections_are_atomic_witness:
  "conc_reachable (abs_fine (pair (Outside Idle) (Outside Idle) boot_world [] zero_SharedState))
   \<and> belt_contents (shm boot_world) = []"
proof -
  have r: "fine_reachable (pair (Outside Idle) (Outside Idle) boot_world [] zero_SharedState)"
    by (rule reachable.start) (simp add: fine_init_def)
  have "conc_reachable (abs_fine (pair (Outside Idle) (Outside Idle) boot_world [] zero_SharedState))"
    using sections_are_atomic [OF r] by (rule conjunct1)
  moreover have "belt_contents (shm boot_world) = []" using sections_are_atomic [OF r] by (auto simp: list_ex_iff)
  ultimately show ?thesis by (rule conjI)
qed

text \<open>
  C36: an interrupted lock loses a package.  Two producers push at the same time; the wait of the second
  for the mutex is interrupted, so both are in their sections and write the same cell.  Both pushes
  succeed and both packages count as accepted, but the first one is gone: the belt holds the second
  package and an empty cell.
\<close>

theorem interrupted_lock_loses_package:
  "\<exists>st. intr_reachable st \<and> g_procs st = [Outside Idle, Outside Idle]
     \<and> g_accepted st = [p\<lparr>pkg_id := 1\<rparr>, q\<lparr>pkg_id := 2\<rparr>] \<and> g_taken st = []
     \<and> belt_contents (shm (g_world st)) = [q\<lparr>pkg_id := 2\<rparr>, zero_Package]"
proof -
  define P Q where "P = p\<lparr>pkg_id := 1\<rparr>" and "Q = q\<lparr>pkg_id := 2\<rparr>"
  define lP lQ where "lP = \<lparr>l_pkg = P, l_int = 0, l_index = 0, l_dbl = Fin 0\<rparr>"
    and "lQ = \<lparr>l_pkg = Q, l_int = 1, l_index = 0, l_dbl = Fin 0\<rparr>"
  obtain w e where r: "intr_reachable (pair (Within (PushCall p) True lP second_half)
        (Within (PushCall q) True lQ second_half) w [] e)"
    and w: "kernel w = []" "sems w SEM_MUTEX_BELT = 0" "sems w SEM_FULL_SLOTS = 0" "untouched_belt (shm w)"
    using both_inside [of p q] unfolding lP_def lQ_def P_def Q_def by blast
  obtain l1 s1 where s1: "run_accesses second_half lP (shm w) = Some (l1, s1)" "l_pkg l1 = P"
    "belt s1 = (replicate 10 zero_Package)[0 := P]" "head s1 = 0" "tail s1 = 1" "current_items_count s1 = 1"
    using second_half_run [of lP "shm w"] w(4) by (auto simp: untouched_belt_def lP_def shared_consts)
  from producer_writes [OF r, of 0 p lP l1 s1] w s1(1,2) obtain w'
    where r': "intr_reachable (pair (Outside Idle) (Within (PushCall q) True lQ second_half) w' [P] e)"
      and w': "shm w' = s1" "kernel w' = []" "sems w' SEM_MUTEX_BELT = 1" "sems w' SEM_FULL_SLOTS = 1"
    by auto
  obtain l2 s2 where s2: "run_accesses second_half lQ s1 = Some (l2, s2)" "l_pkg l2 = Q"
    "belt s2 = (replicate 10 zero_Package)[0 := Q]" "head s2 = 0" "current_items_count s2 = 2"
    using second_half_run [of lQ s1] s1 by (auto simp: lQ_def shared_consts)
  from producer_writes [OF r', of 1 q lQ l2 s2] w' s2(1,2) obtain w''
    where r'': "intr_reachable (pair (Outside Idle) (Outside Idle) w'' [P, Q] e)" and w'': "shm w'' = s2"
    by auto
  have "belt_contents s2 = [Q, zero_Package]"
    using s2 by (simp add: belt_contents_def ring_def shared_consts upt_rec [of _ 2])
  then show ?thesis using r'' w'' by (intro exI [of _ "pair (Outside Idle) (Outside Idle) w'' [P, Q] e"]) (simp add: P_def Q_def)
qed

end
