(* ===== verification/Objects.thy ===== *)
theory Objects
  imports Dispatcher Express Truck Sessions
begin

text \<open>
  The classes as objects with injected callbacks, and the wiring in the constructor of \<open>Manager\<close>.

  \<open>Belt\<close>, \<open>SessionManager\<close>, \<open>Truck\<close>, \<open>Express\<close> and \<open>Dispatcher\<close> do not call the \<open>Manager\<close>; they are given
  functions for the semaphores and the message queue.  An object is the record of these functions, its
  constructor takes them in the order of the source, and its methods call whatever they were given.
  \<open>Manager_components\<close> passes the operations of the manager.  The theorem at the end shows that with
  this wiring the methods are those of the component theories: every callback has arrived in its place.
\<close>

section \<open>The classes\<close>

type_synonym action = "world \<Rightarrow> unit outcome"

record belt_object =
  wait_empty_fn :: action
  signal_empty_fn :: action
  wait_full_fn :: action
  signal_full_fn :: action
  belt_lock_fn :: action
  belt_unlock_fn :: action

definition Belt_new :: "action \<Rightarrow> action \<Rightarrow> action \<Rightarrow> action \<Rightarrow> action \<Rightarrow> action \<Rightarrow> belt_object" where
  "Belt_new wait_empty signal_empty wait_full signal_full lock unlock =
     \<lparr>wait_empty_fn = wait_empty, signal_empty_fn = signal_empty, wait_full_fn = wait_full,
      signal_full_fn = signal_full, belt_lock_fn = lock, belt_unlock_fn = unlock\<rparr>"

record session_object =
  session_lock_fn :: action
  session_unlock_fn :: action
  current_session :: int

definition SessionManager_new :: "action \<Rightarrow> action \<Rightarrow> session_object" where
  "SessionManager_new lock unlock =
     \<lparr>session_lock_fn = lock, session_unlock_fn = unlock, current_session = -1\<rparr>"

record truck_object =
  truck_lock_fn :: action
  truck_unlock_fn :: action
  wait_for_signal_fn :: "pid_t \<Rightarrow> world \<Rightarrow> SignalType outcome"
  my_pid :: pid_t

text \<open>The constructor asks for the pid of the process.\<close>

definition Truck_new :: "pid_t \<Rightarrow> action \<Rightarrow> action \<Rightarrow> (pid_t \<Rightarrow> world \<Rightarrow> SignalType outcome) \<Rightarrow> truck_object" where
  "Truck_new getpid lock_dock unlock_dock wait_for_signal =
     \<lparr>truck_lock_fn = lock_dock, truck_unlock_fn = unlock_dock, wait_for_signal_fn = wait_for_signal, my_pid = getpid\<rparr>"

record express_object =
  express_lock_fn :: action
  express_unlock_fn :: action
  express_send_fn :: "pid_t \<Rightarrow> SignalType \<Rightarrow> action"

definition Express_new :: "action \<Rightarrow> action \<Rightarrow> (pid_t \<Rightarrow> SignalType \<Rightarrow> action) \<Rightarrow> express_object" where
  "Express_new lock_dock unlock_dock send_signal =
     \<lparr>express_lock_fn = lock_dock, express_unlock_fn = unlock_dock, express_send_fn = send_signal\<rparr>"

record dispatcher_object =
  belt_ptr :: belt_object
  lock_dock_fn :: action
  unlock_dock_fn :: action
  send_signal_fn :: "pid_t \<Rightarrow> SignalType \<Rightarrow> action"

definition Dispatcher_new ::
  "belt_object \<Rightarrow> action \<Rightarrow> action \<Rightarrow> (pid_t \<Rightarrow> SignalType \<Rightarrow> action) \<Rightarrow> dispatcher_object"
where
  "Dispatcher_new b lock_dock unlock_dock send_signal =
     \<lparr>belt_ptr = b, lock_dock_fn = lock_dock, unlock_dock_fn = unlock_dock, send_signal_fn = send_signal\<rparr>"

text \<open>The components of a \<open>Manager\<close>, and how its constructor makes them.\<close>

record components =
  session_store :: session_object
  belt_component :: belt_object
  truck_component :: truck_object
  express_component :: express_object
  dispatcher_component :: dispatcher_object

definition Manager_components :: "pid_t \<Rightarrow> components" where
  "Manager_components getpid =
     (let b = Belt_new waitForEmptySlot signalSlotFreed waitForPackage signalPackageAdded lockBelt unlockBelt in
      \<lparr>session_store = SessionManager_new lockBelt unlockBelt,
       belt_component = b,
       truck_component = Truck_new getpid lockDock unlockDock receiveSignalBlocking,
       express_component = Express_new lockDock unlockDock sendSignal,
       dispatcher_component = Dispatcher_new b lockDock unlockDock sendSignal\<rparr>)"

section \<open>The methods\<close>

definition belt_section :: "belt_object \<Rightarrow> (SharedState \<Rightarrow> ('a \<times> SharedState) option) \<Rightarrow> world \<Rightarrow> 'a outcome" where
  "belt_section b g = with_lock (belt_lock_fn b) (belt_unlock_fn b) (on_shm g)"

definition Belt_registerWorker :: "belt_object \<Rightarrow> world \<Rightarrow> bool outcome" where
  "Belt_registerWorker b w = (if \<not> attached w then Done False w else belt_section b registerWorker_body w)"

definition Belt_unregisterWorker :: "belt_object \<Rightarrow> world \<Rightarrow> unit outcome" where
  "Belt_unregisterWorker b w = (if \<not> attached w then Done () w else belt_section b unregisterWorker_body w)"

definition Belt_push :: "belt_object \<Rightarrow> Package \<Rightarrow> world \<Rightarrow> Package outcome" where
  "Belt_push b pkg w =
     (if \<not> attached w then Done pkg w
      else obind (simulateWorkLoad w) (\<lambda>_ w1.
           obind (wait_empty_fn b w1) (\<lambda>_ w2.
           obind (belt_section b (push_body pkg) w2) (\<lambda>(accepted, pkg') w3.
           obind (if accepted then signal_full_fn b w3 else signal_empty_fn b w3) (\<lambda>_ w4.
           Done pkg' w4)))))"

definition Belt_pop :: "belt_object \<Rightarrow> world \<Rightarrow> Package outcome" where
  "Belt_pop b w =
     (if \<not> attached w then Done zero_Package w
      else obind (wait_full_fn b w) (\<lambda>_ w1.
           obind (belt_section b pop_body w1) (\<lambda>(taken, pkg) w2.
           obind (if taken then signal_empty_fn b w2 else signal_full_fn b w2) (\<lambda>_ w3.
           Done pkg w3))))"

text \<open>The session manager keeps the index of its session in a field.\<close>

definition session_section :: "session_object \<Rightarrow> (SharedState \<Rightarrow> ('a \<times> SharedState) option) \<Rightarrow> world \<Rightarrow> 'a outcome" where
  "session_section ob g = with_lock (session_lock_fn ob) (session_unlock_fn ob) (on_shm g)"

definition SessionManager_login ::
  "session_object \<Rightarrow> string \<Rightarrow> UserRole \<Rightarrow> OrgId \<Rightarrow> int \<Rightarrow> pid_t \<Rightarrow> world \<Rightarrow> (bool \<times> session_object) outcome"
where
  "SessionManager_login ob name r org max_procs pid w =
     (if \<not> attached w then Done (False, ob) w
      else obind (session_section ob (login_body name r org max_procs pid (current_session ob)) w)
             (\<lambda>(ok, c) w1. Done (ok, ob\<lparr>current_session := c\<rparr>) w1))"

definition SessionManager_logout :: "session_object \<Rightarrow> world \<Rightarrow> session_object outcome" where
  "SessionManager_logout ob w =
     (if current_session ob = -1 \<or> \<not> attached w then Done ob w
      else obind (session_section ob (logout_body (current_session ob)) w) (\<lambda>c w1. Done (ob\<lparr>current_session := c\<rparr>) w1))"

definition SessionManager_trySpawnProcess :: "session_object \<Rightarrow> world \<Rightarrow> bool outcome" where
  "SessionManager_trySpawnProcess ob w =
     (if current_session ob = -1 \<or> \<not> attached w then Done False w
      else session_section ob (trySpawnProcess_body (current_session ob)) w)"

definition SessionManager_reportProcessFinished :: "session_object \<Rightarrow> world \<Rightarrow> unit outcome" where
  "SessionManager_reportProcessFinished ob w =
     (if current_session ob = -1 \<or> \<not> attached w then Done () w
      else session_section ob (reportProcessFinished_body (current_session ob)) w)"

definition getSessionIndex :: "session_object \<Rightarrow> int" where
  "getSessionIndex ob = current_session ob"

definition dock_bracketed :: "truck_object \<Rightarrow> (world \<Rightarrow> 'a outcome) \<Rightarrow> world \<Rightarrow> 'a outcome" where
  "dock_bracketed ob body = with_lock (truck_lock_fn ob) (truck_unlock_fn ob) body"

fun Truck_step :: "truck_object \<Rightarrow> rolls \<Rightarrow> truck_pc \<Rightarrow> world \<Rightarrow> truck_pc outcome" where
  "Truck_step ob r Arriving w =
     (if attached w \<and> running (shm w) then Done Docking w else Done Leaving w)"
| "Truck_step ob r Docking w =
     obind (dock_bracketed ob (on_shm (dock_body (my_pid ob) r)) w) (\<lambda>docked w1.
       if docked then Done Waiting w1 else Done Arriving (sleep_ms 1000 w1))"
| "Truck_step ob r Waiting w =
     obind (wait_for_signal_fn ob (my_pid ob) w) (\<lambda>sig w1.
       if sig = SIGNAL_END_WORK \<or> \<not> running (shm w1) then Done ShuttingDown w1 else Done Departing w1)"
| "Truck_step ob r ShuttingDown w =
     obind (dock_bracketed ob (on_shm (shutdown_body (my_pid ob))) w) (\<lambda>cargo w1.
       Done Leaving (if cargo then sleep_ms 3000 w1 else w1))"
| "Truck_step ob r Departing w =
     obind (dock_bracketed ob (on_shm (depart_body (my_pid ob))) w) (\<lambda>_ w1.
       Done Arriving (sleep_ms (route_time r) w1))"
| "Truck_step ob r Leaving w =
     obind (dock_bracketed ob (\<lambda>w1. if \<not> attached w1 then UB else on_shm (leave_body (my_pid ob)) w1) w)
       (\<lambda>_ w1. Done Ended w1)"
| "Truck_step ob r Ended w = Done Ended w"

fun Express_loop :: "express_object \<Rightarrow> draw list \<Rightarrow> world \<Rightarrow> unit outcome" where
  "Express_loop ob [] w = Done () w"
| "Express_loop ob (d # ds) w =
     (let t = dock_truck (shm w) in
      if fits_weight t (fst d) \<and> fits_volume t (item_volume (snd d))
      then Express_loop ob ds (w\<lparr>shm := (shm w)\<lparr>dock_truck := put_express d t\<rparr>\<rparr>)
      else express_send_fn ob (truck_id t) SIGNAL_DEPARTURE w)"

definition Express_deliverExpressBatch :: "express_object \<Rightarrow> draw list \<Rightarrow> world \<Rightarrow> unit outcome" where
  "Express_deliverExpressBatch ob draws w =
     (if \<not> attached w then Done () w
      else with_lock (express_lock_fn ob) (express_unlock_fn ob)
        (\<lambda>w1. if \<not> is_present (dock_truck (shm w1)) then Done () w1 else Express_loop ob draws w1) w)"

definition Dispatcher_attempt :: "dispatcher_object \<Rightarrow> Package \<Rightarrow> world \<Rightarrow> bool outcome" where
  "Dispatcher_attempt ob pkg w =
     (let t = dock_truck (shm w) in
      if is_present t then
        (if fits_weight t (weight pkg) \<and> fits_volume t (volume pkg) then
           (case cadd (current_load t) 1 of None \<Rightarrow> UB | Some n \<Rightarrow>
             (let t' = put_package pkg t; w' = w\<lparr>shm := (shm w)\<lparr>dock_truck := t'\<rparr>\<rparr> in
              if limit_reached t'
              then obind (send_signal_fn ob (truck_id t') SIGNAL_DEPARTURE w') (\<lambda>_ w2. Done True w2)
              else Done True w'))
         else obind (send_signal_fn ob (truck_id t) SIGNAL_DEPARTURE w) (\<lambda>_ w2. Done False w2))
      else Done False w)"

fun Dispatcher_loop :: "dispatcher_object \<Rightarrow> (world \<Rightarrow> world) list \<Rightarrow> Package \<Rightarrow> world \<Rightarrow> bool outcome option" where
  "Dispatcher_loop ob envs pkg w =
     (if \<not> running (shm w) then Some (Done False w)
      else (case with_lock (lock_dock_fn ob) (unlock_dock_fn ob) (Dispatcher_attempt ob pkg) w of
              Done loaded w1 \<Rightarrow>
                (if loaded then Some (Done True w1)
                 else (case envs of [] \<Rightarrow> None | e # es \<Rightarrow> Dispatcher_loop ob es pkg (e (sleep_ms 200 w1))))
            | res \<Rightarrow> Some res))"

declare Dispatcher_loop.simps [simp del]

definition Dispatcher_processNextPackage ::
  "dispatcher_object \<Rightarrow> (world \<Rightarrow> world) list \<Rightarrow> world \<Rightarrow> (Package \<times> bool) outcome option"
where
  "Dispatcher_processNextPackage ob envs w =
     (case Belt_pop (belt_ptr ob) w of
        Done pkg w1 \<Rightarrow>
          (if pkg_id pkg = 0
           then (if \<not> attached w1 then Some UB
                 else Some (Done (pkg, False) (if running (shm w1) then sleep_ms 100 w1 else w1)))
           else map_option (\<lambda>r. obind r (\<lambda>loaded w2. Done (pkg, loaded) w2)) (Dispatcher_loop ob envs pkg w1))
      | Blocked p w1 \<Rightarrow> Some (Blocked p w1)
      | Exited e w1 \<Rightarrow> Some (Exited e w1)
      | UB \<Rightarrow> Some UB)"

section \<open>The wiring\<close>

text \<open>The contract a component relies on: which manager operation stands behind each callback.\<close>

locale wired_belt =
  fixes b :: belt_object
  assumes belt_callbacks: "wait_empty_fn b = waitForEmptySlot" "signal_empty_fn b = signalSlotFreed"
      "wait_full_fn b = waitForPackage" "signal_full_fn b = signalPackageAdded"
      "belt_lock_fn b = lockBelt" "belt_unlock_fn b = unlockBelt"
begin

lemma belt_methods:
  "Belt_push b pkg w = push pkg w" "Belt_pop b w = pop w"
  "Belt_registerWorker b w = registerWorker w" "Belt_unregisterWorker b w = unregisterWorker w"
  unfolding Belt_push_def push_def Belt_pop_def pop_def Belt_registerWorker_def registerWorker_def
    Belt_unregisterWorker_def unregisterWorker_def belt_section_def belt_callbacks
  by (rule refl)+

end

locale wired_dispatcher =
  fixes d :: dispatcher_object
  assumes dispatcher_belt: "wired_belt (belt_ptr d)"
    and dispatcher_callbacks: "lock_dock_fn d = lockDock" "unlock_dock_fn d = unlockDock" "send_signal_fn d = sendSignal"
begin

lemma attempt: "Dispatcher_attempt d = load_attempt"
  unfolding fun_eq_iff Dispatcher_attempt_def load_attempt_def dispatcher_callbacks by (intro allI) (rule refl)

lemma retry: "Dispatcher_loop d envs pkg w = load_loop envs pkg w"
proof (induction envs arbitrary: w)
  case Nil
  show ?case unfolding Dispatcher_loop.simps [of d "[]"] load_loop.simps [of "[]"] attempt dispatcher_callbacks
    by (simp split: outcome.split)
next
  case (Cons e es)
  show ?case unfolding Dispatcher_loop.simps [of d "e # es"] load_loop.simps [of "e # es"] attempt dispatcher_callbacks
    by (simp add: Cons split: outcome.split)
qed

lemma next_package: "Dispatcher_processNextPackage d envs w = processNextPackage envs w"
  unfolding Dispatcher_processNextPackage_def processNextPackage_def retry wired_belt.belt_methods(2) [OF dispatcher_belt]
  by (rule refl)

end

interpretation manager_belt: wired_belt "belt_component (Manager_components pid)"
  by unfold_locales (simp_all add: Manager_components_def Let_def Belt_new_def)

interpretation manager_dispatcher: wired_dispatcher "dispatcher_component (Manager_components pid)"
  by unfold_locales (simp_all add: Manager_components_def Let_def Belt_new_def Dispatcher_new_def)

lemma express_wired:
  "Express_loop (express_component (Manager_components pid)) ds w = express_loop ds w"
  by (induction ds arbitrary: w) (simp_all add: Manager_components_def Let_def Express_new_def)

lemma truck_callbacks:
  "truck_lock_fn (truck_component (Manager_components pid)) = lockDock"
  "truck_unlock_fn (truck_component (Manager_components pid)) = unlockDock"
  "wait_for_signal_fn (truck_component (Manager_components pid)) = receiveSignalBlocking"
  "my_pid (truck_component (Manager_components pid)) = pid"
  by (simp_all add: Manager_components_def Truck_new_def Let_def)

lemma truck_wired: "Truck_step (truck_component (Manager_components pid)) r pc w = truck_step pid r pc w"
  by (cases pc; simp only: Truck_step.simps truck_step.simps dock_bracketed_def truck_callbacks)

section \<open>Properties\<close>

text \<open>
  C10: the components are wired correctly.  With the callbacks that the constructor of \<open>Manager\<close> passes,
  in the order in which it passes them, every method of the belt, the session manager, the truck, the
  express worker and the dispatcher is the method that takes the right semaphore and the right message
  operation; the session manager starts without a session and keeps the index of the last login.
\<close>

theorem components_wired:
  "Belt_push (belt_component (Manager_components pid)) pkg w = push pkg w
   \<and> Belt_pop (belt_component (Manager_components pid)) w = pop w
   \<and> Belt_registerWorker (belt_component (Manager_components pid)) w = registerWorker w
   \<and> Belt_unregisterWorker (belt_component (Manager_components pid)) w = unregisterWorker w
   \<and> Dispatcher_processNextPackage (dispatcher_component (Manager_components pid)) envs w = processNextPackage envs w
   \<and> Express_deliverExpressBatch (express_component (Manager_components pid)) ds w = deliverExpressBatch ds w
   \<and> Truck_step (truck_component (Manager_components pid)) r pc w = truck_step pid r pc w
   \<and> getSessionIndex (session_store (Manager_components pid)) = -1
   \<and> (let ob = (session_store (Manager_components pid))\<lparr>current_session := c\<rparr> in
       SessionManager_login ob name rl org mp p w =
         obind (login name rl org mp p c w) (\<lambda>(ok, c') w1. Done (ok, ob\<lparr>current_session := c'\<rparr>) w1)
       \<and> SessionManager_logout ob w = obind (logout c w) (\<lambda>c' w1. Done (ob\<lparr>current_session := c'\<rparr>) w1)
       \<and> SessionManager_trySpawnProcess ob w = trySpawnProcess c w
       \<and> SessionManager_reportProcessFinished ob w = reportProcessFinished c w)"
proof -
  have "Express_deliverExpressBatch (express_component (Manager_components pid)) ds w = deliverExpressBatch ds w"
    unfolding Express_deliverExpressBatch_def deliverExpressBatch_def express_wired
    by (simp add: Manager_components_def Let_def Express_new_def)
  moreover have "session_section ((session_store (Manager_components pid))\<lparr>current_session := c\<rparr>) g w
      = with_lock lockBelt unlockBelt (on_shm g) w" for g :: "SharedState \<Rightarrow> ('a \<times> SharedState) option"
    by (simp add: session_section_def Manager_components_def Let_def SessionManager_new_def)
  ultimately show ?thesis
    by (simp add: manager_belt.belt_methods manager_dispatcher.next_package truck_wired SessionManager_login_def login_def
        SessionManager_logout_def logout_def SessionManager_trySpawnProcess_def trySpawnProcess_def
        SessionManager_reportProcessFinished_def reportProcessFinished_def getSessionIndex_def session_section_def)
      (simp add: Manager_components_def Let_def SessionManager_new_def)
qed

end
