(* ===== verification/Signals.thy ===== *)
theory Signals
  imports Processes
begin

text \<open>
  The Unix signals \<open>SIGINT\<close> and \<open>SIGTERM\<close>: which program installs a handler and when, what the handlers
  write, and which loop reads it.

  A program passes a fixed sequence of milestones before its main loop; signals arrive between them.
  Without a handler the default action ends the process at once, with no destructor run.  The first
  property says for every program and every arrival order whether the process survives and whether its
  loop stops.  The second follows a worker that the master's \<open>SIGTERM\<close> finds waiting at a full belt.
\<close>

section \<open>Programs, handlers and flags\<close>

datatype program = Master | DispatcherProc | ExpressProc | BeltProc | TruckProc | WorkerProc | TerminalProc

text \<open>
  What the mains do before the loop, as far as signals can tell the difference: \<open>std::signal\<close>, the
  construction of the manager, the session guard, and the assignment of \<open>global_worker_ptr\<close>.
\<close>

datatype milestone = Install signum | MakeManager | Login | SetWorkerPtr

fun milestones :: "program \<Rightarrow> milestone list" where
  "milestones Master = [Install SIGINT, MakeManager]"
| "milestones DispatcherProc = [MakeManager, Login]"
| "milestones ExpressProc = [Install SIGINT, Install SIGTERM, MakeManager, Login]"
| "milestones BeltProc = [Install SIGINT, Install SIGTERM, MakeManager, Login]"
| "milestones TruckProc = [Install SIGINT, Install SIGTERM, MakeManager, Login]"
| "milestones WorkerProc = [MakeManager, Install SIGINT, Install SIGTERM, Login, SetWorkerPtr]"
| "milestones TerminalProc = [MakeManager, Install SIGINT, Login]"

text \<open>
  \<open>flag\<close> is the flag of the program: \<open>stop_requested\<close>, \<open>stop_flag\<close>, \<open>truck_stop\<close>, \<open>should_stop\<close>, or
  \<open>!keep_running\<close>.  \<open>worker_active\<close> is the field of the worker object that \<open>global_worker_ptr\<close> points to.
\<close>

record signal_state =
  handled :: "signum list"
  flag :: bool
  worker_ptr :: bool
  worker_active :: bool
  written :: string
  killed :: bool

definition signal_init :: signal_state where
  "signal_init = \<lparr>handled = [], flag = False, worker_ptr = False, worker_active = True, written = [], killed = False\<rparr>"

fun reach_milestone :: "milestone \<Rightarrow> signal_state \<Rightarrow> signal_state" where
  "reach_milestone (Install s) st = st\<lparr>handled := s # handled st\<rparr>"
| "reach_milestone SetWorkerPtr st = st\<lparr>worker_ptr := True\<rparr>"
| "reach_milestone MakeManager st = st"
| "reach_milestone Login st = st"

definition shutdown_message :: string where
  "shutdown_message = CHR 0x0A # ''[terminal] Shutdown signal received. Cleaning up...'' @ [CHR 0x0A]"

definition Worker_stop :: "signal_state \<Rightarrow> signal_state" where
  "Worker_stop st = st\<lparr>worker_active := False\<rparr>"

text \<open>
  The handlers.  Those of the master, the express worker, the monitor and the truck store their flag; the
  worker's also stops the worker object if there is one; the console's looks at the signal number and
  writes 51 bytes.
\<close>

definition handleSigint :: "signal_state \<Rightarrow> signal_state" where
  "handleSigint st = st\<lparr>flag := True\<rparr>"

definition express_signalHandler :: "signum \<Rightarrow> signal_state \<Rightarrow> signal_state" where
  "express_signalHandler s st = st\<lparr>flag := True\<rparr>"

definition belt_signalHandler :: "signum \<Rightarrow> signal_state \<Rightarrow> signal_state" where
  "belt_signalHandler s st = st\<lparr>flag := True\<rparr>"

definition truck_signalHandler :: "signum \<Rightarrow> signal_state \<Rightarrow> signal_state" where
  "truck_signalHandler s st = st\<lparr>flag := True\<rparr>"

definition worker_signalHandler :: "signum \<Rightarrow> signal_state \<Rightarrow> signal_state" where
  "worker_signalHandler s st =
     (let st1 = st\<lparr>flag := True\<rparr> in if worker_ptr st1 then Worker_stop st1 else st1)"

definition terminal_signalHandler :: "signum \<Rightarrow> signal_state \<Rightarrow> signal_state" where
  "terminal_signalHandler s st =
     (if s = SIGINT then st\<lparr>written := written st @ take 51 shutdown_message, flag := True\<rparr> else st)"

fun handler_of :: "program \<Rightarrow> signum \<Rightarrow> signal_state \<Rightarrow> signal_state" where
  "handler_of Master s st = handleSigint st"
| "handler_of ExpressProc s st = express_signalHandler s st"
| "handler_of BeltProc s st = belt_signalHandler s st"
| "handler_of TruckProc s st = truck_signalHandler s st"
| "handler_of WorkerProc s st = worker_signalHandler s st"
| "handler_of TerminalProc s st = terminal_signalHandler s st"
| "handler_of DispatcherProc s st = st"

lemmas handler_defs = handleSigint_def express_signalHandler_def belt_signalHandler_def truck_signalHandler_def
  worker_signalHandler_def terminal_signalHandler_def Worker_stop_def Let_def

definition deliver :: "program \<Rightarrow> signum \<Rightarrow> signal_state \<Rightarrow> signal_state" where
  "deliver p s st = (if s \<in> set (handled st) then handler_of p s st else st\<lparr>killed := True\<rparr>)"

datatype moment = Milestone milestone | Signal signum

fun happen :: "program \<Rightarrow> moment \<Rightarrow> signal_state \<Rightarrow> signal_state" where
  "happen p (Milestone x) st = (if killed st then st else reach_milestone x st)"
| "happen p (Signal s) st = (if killed st then st else deliver p s st)"

definition history_of :: "program \<Rightarrow> moment list \<Rightarrow> signal_state" where
  "history_of p tr = fold (happen p) tr signal_init"

text \<open>The test at the head of each main loop.\<close>

fun loop_test :: "program \<Rightarrow> bool \<Rightarrow> signal_state \<Rightarrow> bool" where
  "loop_test Master run st = (\<not> flag st \<and> run)"
| "loop_test DispatcherProc run st = run"
| "loop_test ExpressProc run st = (\<not> flag st \<and> run)"
| "loop_test BeltProc run st = (\<not> flag st \<and> run)"
| "loop_test TruckProc run st = run"
| "loop_test WorkerProc run st = (worker_active st \<and> run)"
| "loop_test TerminalProc run st = (\<not> flag st \<and> run)"

section \<open>The effect of any number of signals\<close>

text \<open>A run of a program up to its loop and beyond: the milestones in order, signals anywhere.\<close>

fun marks :: "moment list \<Rightarrow> milestone list" where
  "marks [] = []"
| "marks (Milestone x # tr) = x # marks tr"
| "marks (Signal s # tr) = marks tr"

definition run_of :: "program \<Rightarrow> moment list \<Rightarrow> bool" where
  "run_of p tr \<longleftrightarrow> marks tr = milestones p"

text \<open>
  The expected behaviour, by the number of milestones a program has passed when a signal arrives: from
  which one on the signal has a handler, if ever, and whether the handler stops the main loop.
\<close>

fun handled_from :: "program \<Rightarrow> signum \<Rightarrow> nat option" where
  "handled_from Master s = (if s = SIGINT then Some 1 else None)"
| "handled_from DispatcherProc s = None"
| "handled_from WorkerProc s = Some (if s = SIGINT then 2 else 3)"
| "handled_from TerminalProc s = (if s = SIGINT then Some 2 else None)"
| "handled_from p s = Some (if s = SIGINT then 1 else 2)"

definition fatal :: "program \<Rightarrow> signum \<Rightarrow> nat \<Rightarrow> bool" where
  "fatal p s n = (case handled_from p s of None \<Rightarrow> True | Some k \<Rightarrow> n < k)"

fun ends_loop :: "program \<Rightarrow> nat \<Rightarrow> bool" where
  "ends_loop DispatcherProc n = False"
| "ends_loop TruckProc n = False"
| "ends_loop WorkerProc n = (5 \<le> n)"
| "ends_loop p n = True"

definition some_signal :: "moment list \<Rightarrow> (signum \<Rightarrow> nat \<Rightarrow> bool) \<Rightarrow> bool" where
  "some_signal tr P \<longleftrightarrow> (\<exists>us s vs. tr = us @ Signal s # vs \<and> P s (length (marks us)))"

text \<open>The signals of a run that arrive unhandled, and those that arrive after a milestone.\<close>

fun unhandled :: "signum list \<Rightarrow> moment list \<Rightarrow> bool" where
  "unhandled hs [] = False"
| "unhandled hs (Milestone (Install s) # tr) = unhandled (s # hs) tr"
| "unhandled hs (Milestone x # tr) = unhandled hs tr"
| "unhandled hs (Signal s # tr) = (s \<notin> set hs \<or> unhandled hs tr)"

definition signalled :: "moment list \<Rightarrow> bool" where
  "signalled tr = list_ex (\<lambda>m. case m of Signal s \<Rightarrow> True | _ \<Rightarrow> False) tr"

lemma signalled_simps [simp]:
  "\<not> signalled []" "signalled (Milestone x # tr) = signalled tr" "signalled (Signal s # tr)"
  by (simp_all add: signalled_def)

lemma happen_after_kill [simp]: "killed st \<Longrightarrow> happen p m st = st"
  by (cases m) simp_all

lemma killed_stays [simp]: "killed st \<Longrightarrow> fold (happen p) tr st = st"
  by (induction tr) simp_all

lemma killed_handler [simp]: "killed (handler_of p s st) = killed st" "handled (handler_of p s st) = handled st"
  "worker_ptr (handler_of p s st) = worker_ptr st"
  by (cases p; simp add: handler_defs)+

lemma killed_iff: "\<not> killed st \<Longrightarrow> killed (fold (happen p) tr st) = unhandled (handled st) tr"
proof (induction tr arbitrary: st)
  case (Cons m tr)
  show ?case
  proof (cases m)
    case (Milestone x)
    then show ?thesis using Cons by (cases x) simp_all
  next
    case (Signal s)
    then show ?thesis using Cons by (cases "s \<in> set (handled st)") (simp_all add: deliver_def)
  qed
qed simp

text \<open>Every handler but the console's sets the flag whatever the signal; the console handles only
  \<open>SIGINT\<close>, the dispatcher nothing.\<close>

definition installs_only :: "program \<Rightarrow> signum list \<Rightarrow> bool" where
  "installs_only p hs \<longleftrightarrow> (p = TerminalProc \<longrightarrow> SIGTERM \<notin> set hs) \<and> (p = DispatcherProc \<longrightarrow> hs = [])"

definition installs_safe :: "program \<Rightarrow> moment list \<Rightarrow> bool" where
  "installs_safe p tr \<longleftrightarrow> (p = TerminalProc \<longrightarrow> Milestone (Install SIGTERM) \<notin> set tr)
     \<and> (p = DispatcherProc \<longrightarrow> (\<forall>s. Milestone (Install s) \<notin> set tr))"

lemma handler_flag: "s \<in> set hs \<Longrightarrow> installs_only p hs \<Longrightarrow> flag (handler_of p s st)"
  by (cases p; cases s) (simp_all add: installs_only_def handler_defs)

lemma flag_iff:
  "\<not> killed (fold (happen p) tr st) \<Longrightarrow> installs_only p (handled st) \<Longrightarrow> installs_safe p tr \<Longrightarrow>
   flag (fold (happen p) tr st) = (flag st \<or> signalled tr)"
proof (induction tr arbitrary: st)
  case (Cons m tr)
  have alive: "\<not> killed st" using Cons.prems(1) by (cases "killed st") simp_all
  have safe: "installs_safe p tr" using Cons.prems(3) by (simp add: installs_safe_def)
  show ?case
  proof (cases m)
    case (Milestone x)
    then show ?thesis using Cons.IH [of "reach_milestone x st"] Cons.prems alive safe
      by (cases x) (auto simp: installs_only_def installs_safe_def)
  next
    case (Signal s)
    have h: "s \<in> set (handled st)"
      using Cons.prems(1) alive Signal by (rule_tac ccontr) (simp add: deliver_def)
    then show ?thesis
      using Cons.IH [of "handler_of p s st"] Cons.prems(1,2) alive safe Signal handler_flag [OF h Cons.prems(2)]
      by (simp add: deliver_def)
  qed
qed simp

lemma worker_active_iff:
  "\<not> killed (fold (happen WorkerProc) tr st) \<Longrightarrow>
   worker_active (fold (happen WorkerProc) tr st) =
     (worker_active st \<and> \<not> signalled (if worker_ptr st then tr else dropWhile (\<lambda>m. m \<noteq> Milestone SetWorkerPtr) tr))"
proof (induction tr arbitrary: st)
  case (Cons m tr)
  have alive: "\<not> killed st" using Cons.prems(1) by (cases "killed st") simp_all
  show ?case
  proof (cases m)
    case (Milestone x)
    then show ?thesis using Cons.IH [of "reach_milestone x st"] Cons.prems alive by (cases x) simp_all
  next
    case (Signal s)
    have "s \<in> set (handled st)"
      using Cons.prems(1) alive Signal by (rule_tac ccontr) (simp add: deliver_def)
    then show ?thesis
      using Cons.IH [of "handler_of WorkerProc s st"] Cons.prems alive Signal
      by (simp add: deliver_def handler_defs split: if_splits)
  qed
qed simp

lemma marks_append [simp]: "marks (us @ vs) = marks us @ marks vs"
  by (induction us rule: marks.induct) simp_all

lemma set_marks: "Milestone x \<in> set tr \<longleftrightarrow> x \<in> set (marks tr)"
  by (induction tr rule: marks.induct) auto

lemma run_of_safe: "run_of p tr \<Longrightarrow> installs_safe p tr"
  by (cases p) (auto simp: installs_safe_def run_of_def set_marks)

text \<open>The two folds over a run in terms of where the signals are.\<close>

lemma first_signal:
  "(\<exists>us s vs. m # tr = us @ Signal s # vs \<and> Q us s) \<longleftrightarrow>
     (\<exists>s. m = Signal s \<and> Q [] s) \<or> (\<exists>us s vs. tr = us @ Signal s # vs \<and> Q (m # us) s)"
  unfolding Cons_eq_append_conv by blast

lemma unhandled_iff:
  "unhandled hs tr \<longleftrightarrow> (\<exists>us s vs. tr = us @ Signal s # vs \<and> s \<notin> set hs \<and> Install s \<notin> set (marks us))"
proof (induction hs tr rule: unhandled.induct)
  case (2 hs x tr)
  then show ?case unfolding first_signal by auto
qed (unfold first_signal, simp_all)

lemma signalled_iff: "signalled tr \<longleftrightarrow> (\<exists>us s vs. tr = us @ Signal s # vs)"
proof (induction tr)
  case (Cons m tr)
  then show ?case using first_signal [of m tr "\<lambda>us s. True"] by (cases m) simp_all
qed simp

lemma signalled_after:
  "signalled (dropWhile (\<lambda>m. m \<noteq> Milestone x) tr) \<longleftrightarrow> (\<exists>us s vs. tr = us @ Signal s # vs \<and> x \<in> set (marks us))"
proof (induction tr)
  case (Cons m tr)
  show ?case
  proof (cases "m = Milestone x")
    case True
    then show ?thesis unfolding first_signal using signalled_iff [of tr] by simp
  next
    case False
    then show ?thesis unfolding first_signal using Cons by (cases m) simp_all
  qed
qed simp

text \<open>What has been installed, and whether the pointer is set, by the number of milestones passed.\<close>

lemma passed_prefix: "run_of p (us @ Signal s # vs) \<Longrightarrow> marks us = take (length (marks us)) (milestones p)"
  by (simp add: run_of_def) (metis append_eq_conv_conj)

lemma installed_by:
  "Install s \<notin> set (take n (milestones p)) \<longleftrightarrow> fatal p s n"
  by (cases p; cases s) (auto simp: fatal_def take_Cons' numeral_eq_Suc)

lemma pointer_by: "SetWorkerPtr \<in> set (take n (milestones WorkerProc)) \<longleftrightarrow> ends_loop WorkerProc n"
  by (auto simp: take_Cons' numeral_eq_Suc)

lemma unhandled_fatal: "run_of p tr \<Longrightarrow> unhandled [] tr = some_signal tr (fatal p)"
  unfolding unhandled_iff some_signal_def using passed_prefix installed_by by (metis empty_iff list.set(1))

lemma worker_signalled:
  "run_of WorkerProc tr \<Longrightarrow> signalled (dropWhile (\<lambda>m. m \<noteq> Milestone SetWorkerPtr) tr) = some_signal tr (\<lambda>s. ends_loop WorkerProc)"
  unfolding signalled_after some_signal_def using passed_prefix pointer_by by metis

section \<open>A worker that is woken by a signal\<close>

text \<open>A critical section whose lock and unlock both succeed while the kernel has more to report.\<close>

lemma bracket_then:
  "0 < sems w SEM_MUTEX_BELT \<Longrightarrow> with_lock lockBelt unlockBelt (on_shm g) (w\<lparr>kernel := None # None # ks\<rparr>) =
    (case g (shm w) of None \<Rightarrow> UB | Some (a, s) \<Rightarrow> Done a (w\<lparr>shm := s, kernel := ks\<rparr>))"
  by (simp add: with_lock_def sem_wrapper_defs semOperation_def on_shm_def split: option.split)

text \<open>The interrupted wait for a slot of a full belt: the package is given up and a slot counted that is not there.\<close>

lemma push_interrupted:
  assumes "attached w" "kernel w = [Some EINTR]" "sems w SEM_MUTEX_BELT = 1" "sems w SEM_EMPTY_SLOTS = 0"
    "current_items_count (shm w) = MAX_BELT_CAPACITY_K"
  shows "push pkg w =
    Done pkg (sleep_ms (workload_delay (shm w)) (w\<lparr>kernel := [], sems := (sems w)(SEM_EMPTY_SLOTS := 1)\<rparr>))"
  using assms by (simp add: push_def simulateWorkLoad_delay sleep_ms_def sem_wrapper_defs semOperation_def with_lock_def
      on_shm_def push_body_rejects fun_upd_twist fun_upd_idem)

lemma woken_round:
  assumes rdy: "worker_ready c w" and full: "current_items_count (shm w) = MAX_BELT_CAPACITY_K"
  shows "worker_round c pid d (w\<lparr>kernel := [None, None, Some EINTR]\<rparr>) =
    Done () (sleep_ms (workload_delay (shm w)) (w\<lparr>sems := (sems w)(SEM_EMPTY_SLOTS := 1)\<rparr>))"
proof -
  have r: "belt_quiet w" "sessions_inv (shm w)" "session_index_ok c (shm w)" "c \<noteq> -1"
    "current_processes (slot_of c (shm w)) < max_processes (slot_of c (shm w))"
    using rdy by (simp_all add: worker_ready_def)
  have q: "attached w" "sems w SEM_MUTEX_BELT = 1" "sems w SEM_EMPTY_SLOTS = 0" "kernel w = []"
    using r(1) full by (simp_all add: belt_quiet_def)
  define n where "n = current_processes (slot_of c (shm w))"
  define s1 where "s1 = set_processes c (n + 1) (shm w)"
  have n: "0 \<le> n" "n < max_processes (slot_of c (shm w))"
    using session_index_range [OF r(2-4)] r(5) by (auto simp: session_ok_def n_def)
  have s1: "sessions_inv s1" "session_index_ok c s1" "slot_of c s1 = (slot_of c (shm w))\<lparr>current_processes := n + 1\<rparr>"
    "set_processes c n s1 = shm w" "workload_delay s1 = workload_delay (shm w)"
    using sessions_inv_set_processes [OF r(2-4), of "n + 1"] slot_of_set_processes [OF r(2-4)] n
      set_processes_same [OF r(2-4)] by (simp_all add: s1_def n_def workload_delay_def)
  define w1 where "w1 = w\<lparr>shm := s1, kernel := [Some EINTR]\<rparr>"
  define w2 where "w2 = sleep_ms (workload_delay (shm w)) (w\<lparr>shm := s1, sems := (sems w)(SEM_EMPTY_SLOTS := 1)\<rparr>)"
  have "trySpawnProcess c (w\<lparr>kernel := [None, None, Some EINTR]\<rparr>) = Done True w1"
    using r q by (simp add: bracket_then trySpawnProcess_def trySpawnProcess_body_spec w1_def s1_def n_def)
  moreover have "push pkg w1 = Done pkg w2" for pkg
    using push_interrupted [of w1 pkg] q full s1(5) by (simp add: w1_def w2_def s1_def sleep_ms_def)
  moreover have "reportProcessFinished c w2 = Done () (w2\<lparr>shm := shm w\<rparr>)"
    using belt_mutex.bracket_shm [of w2 "reportProcessFinished_body c"] s1 r(4) n(1) q
    by (simp add: reportProcessFinished_def reportProcessFinished_body_spec w2_def sleep_ms_def)
  ultimately show ?thesis by (simp add: worker_round_def w2_def sleep_ms_def)
qed

text \<open>A worker that has just logged in while the belt is full.\<close>

definition full_belt :: world where
  "full_belt = worker_world\<lparr>sems := (sems worker_world)(SEM_EMPTY_SLOTS := 0, SEM_FULL_SLOTS := 10),
       shm := (shm worker_world)\<lparr>current_items_count := 10\<rparr>\<rparr>"

lemma full_belt_ready: "worker_ready 0 full_belt" "current_items_count (shm full_belt) = MAX_BELT_CAPACITY_K"
  "current_workers_count (shm full_belt) < MAX_WORKERS_PER_BELT" "running (shm full_belt)"
proof -
  have z: "tail (shm worker_world) = 0" "head (shm worker_world) = 0"
    by (simp_all add: worker_world_def init_shm_def zero_SharedState_def)
  have u: "users (shm full_belt) = users (shm worker_world)" by (simp add: full_belt_def)
  show "worker_ready 0 full_belt"
    using worker_world_ready(1) z sessions_cong [OF u]
    by (auto simp: worker_ready_def full_belt_def belt_quiet_def belt_inv_def shared_consts)
  show "current_items_count (shm full_belt) = MAX_BELT_CAPACITY_K"
    "current_workers_count (shm full_belt) < MAX_WORKERS_PER_BELT" "running (shm full_belt)"
    using worker_world_ready by (simp_all add: full_belt_def shared_consts)
qed

section \<open>Properties\<close>

text \<open>
  C18: what a Unix signal does to each program, wherever it arrives.  A program is killed exactly if some
  signal comes at a time when it is fatal: for the dispatcher always, for the master and the console
  always if it is \<open>SIGTERM\<close>, and otherwise until the handler is installed, which is the first thing the
  express worker, the monitor and the truck do and the second that the worker does.  Otherwise the main loop goes on exactly
  while the flag \<open>running\<close> holds and no signal has stopped it: the flag of the truck is never read, and a
  worker stops only for a signal that comes after \<open>global_worker_ptr\<close> is set, an earlier one is lost.
\<close>

theorem signal_response:
  assumes "run_of p tr"
  shows "killed (history_of p tr) = some_signal tr (fatal p)
    \<and> (\<not> some_signal tr (fatal p) \<longrightarrow>
         loop_test p run (history_of p tr) = (run \<and> \<not> some_signal tr (\<lambda>s. ends_loop p)))"
proof (intro conjI impI)
  show k: "killed (history_of p tr) = some_signal tr (fatal p)"
    unfolding history_of_def using killed_iff [of signal_init p tr] unhandled_fatal [OF assms] by (simp add: signal_init_def)
  assume "\<not> some_signal tr (fatal p)"
  then have alive: "\<not> killed (fold (happen p) tr signal_init)" using k by (simp add: history_of_def)
  have f: "flag (history_of p tr) = signalled tr"
    unfolding history_of_def using flag_iff [OF alive _ run_of_safe [OF assms]]
    by (simp add: signal_init_def installs_only_def)
  show "loop_test p run (history_of p tr) = (run \<and> \<not> some_signal tr (\<lambda>s. ends_loop p))"
  proof (cases "p = WorkerProc")
    case True
    then show ?thesis using worker_active_iff [of tr signal_init] alive worker_signalled assms
      by (auto simp: history_of_def signal_init_def)
  next
    case False
    then show ?thesis using f by (cases p) (auto simp: signalled_iff some_signal_def)
  qed
qed

text \<open>
  The master's \<open>SIGTERM\<close> kills a dispatcher; a worker goes on when it comes between the login and the
  assignment of the pointer, and stops when it comes later; an express worker survives it.
\<close>

theorem signal_response_witness:
  "killed (history_of DispatcherProc [Milestone MakeManager, Signal SIGTERM, Milestone Login])
   \<and> loop_test WorkerProc True (history_of WorkerProc
       [Milestone MakeManager, Milestone (Install SIGINT), Milestone (Install SIGTERM), Milestone Login,
        Signal SIGTERM, Milestone SetWorkerPtr])
   \<and> \<not> killed (history_of ExpressProc
       [Milestone (Install SIGINT), Milestone (Install SIGTERM), Milestone MakeManager, Milestone Login, Signal SIGTERM])"
proof -
  define d where "d = [Milestone MakeManager, Signal SIGTERM, Milestone Login]"
  define k where "k = [Milestone MakeManager, Milestone (Install SIGINT), Milestone (Install SIGTERM), Milestone Login,
        Signal SIGTERM, Milestone SetWorkerPtr]"
  define x where "x = [Milestone (Install SIGINT), Milestone (Install SIGTERM), Milestone MakeManager, Milestone Login, Signal SIGTERM]"
  have runs: "run_of DispatcherProc d" "run_of WorkerProc k" "run_of ExpressProc x"
    by (simp_all add: d_def k_def x_def run_of_def)
  have "some_signal d (fatal DispatcherProc)"
    unfolding some_signal_def d_def by (rule exI [of _ "[Milestone MakeManager]"]) (auto simp: fatal_def)
  moreover have "\<not> some_signal k (fatal WorkerProc)" "\<not> some_signal k (\<lambda>s. ends_loop WorkerProc)"
    "\<not> some_signal x (fatal ExpressProc)"
    by (auto simp: some_signal_def k_def x_def fatal_def Cons_eq_append_conv)
  ultimately show ?thesis
    using signal_response [OF runs(1)] signal_response [OF runs(2), of True] signal_response [OF runs(3)]
    unfolding d_def k_def x_def by blast
qed

text \<open>The notice of the console is cut before its last full stop and the end of the line.\<close>

lemma terminal_notice_cut:
  "written (handler_of TerminalProc SIGINT signal_init) @ [CHR 0x2E, CHR 0x0A] = shutdown_message"
  by (simp add: signal_init_def shutdown_message_def handler_defs)

text \<open>
  C35: a worker that the master's \<open>SIGTERM\<close> finds waiting at a full belt leaves.  The interrupted wait
  returns as if a slot had been free, the push is refused under the mutex, the package is lost, the
  quota is given back, and since the handler has cleared \<open>active\<close> the worker unregisters and returns.
  The belt is as before, but the empty-slot semaphore counts one slot of the full belt.
\<close>

theorem woken_worker_leaves:
  assumes rdy: "worker_ready c w" and full: "current_items_count (shm w) = MAX_BELT_CAPACITY_K"
    and room: "current_workers_count (shm w) < MAX_WORKERS_PER_BELT" and run: "running (shm w)"
  shows "\<exists>w'. worker_run c pid ((id, False, d) # (id, True, d') # rest)
       (w\<lparr>kernel := [None, None, None, None, Some EINTR]\<rparr>) = Some (Done True w')
     \<and> shm w' = shm w \<and> sems w' = (sems w)(SEM_EMPTY_SLOTS := 1) \<and> msgq w' = msgq w"
proof -
  have q: "belt_quiet w" "belt_inv (shm w)" "attached w" "sems w SEM_MUTEX_BELT = 1" "kernel w = []"
    using rdy by (simp_all add: worker_ready_def belt_quiet_def)
  have k: "0 \<le> current_workers_count (shm w)" using q(2) by (simp add: belt_inv_def)
  define w1 where "w1 = w\<lparr>shm := (shm w)\<lparr>current_workers_count := current_workers_count (shm w) + 1\<rparr>\<rparr>"
  have rdy1: "worker_ready c w1" unfolding w1_def using worker_ready_count [OF rdy] k room by simp
  define w2 where "w2 = sleep_ms (workload_delay (shm w1)) (w1\<lparr>sems := (sems w1)(SEM_EMPTY_SLOTS := 1)\<rparr>)"
  have "registerWorker (w\<lparr>kernel := [None, None, None, None, Some EINTR]\<rparr>)
      = Done True (w1\<lparr>kernel := [None, None, Some EINTR]\<rparr>)"
    using q room by (simp add: bracket_then registerWorker_def registerWorker_body_spec w1_def)
  moreover have "worker_loop c pid ((id, False, d) # (id, True, d') # rest) True (w1\<lparr>kernel := [None, None, Some EINTR]\<rparr>)
      = Some (Done () w2)"
    using woken_round [OF rdy1] full run by (simp add: w1_def w2_def sleep_ms_def)
  moreover have "unregisterWorker w2 = Done () (w2\<lparr>shm := shm w\<rparr>)"
    using belt_mutex.bracket_shm [of w2 unregisterWorker_body] unregisterWorker_body_spec [of "shm w1"] rdy1 q k
    by (simp add: unregisterWorker_def w2_def w1_def sleep_ms_def worker_ready_def)
  ultimately have "worker_run c pid ((id, False, d) # (id, True, d') # rest)
       (w\<lparr>kernel := [None, None, None, None, Some EINTR]\<rparr>) = Some (Done True (w2\<lparr>shm := shm w\<rparr>))"
    by (simp add: worker_run_def del: worker_loop.simps)
  then show ?thesis by (simp add: w2_def w1_def sleep_ms_def)
qed

theorem woken_worker_leaves_witness:
  "\<exists>w'. worker_run 0 9 [(id, False, sample_draw), (id, True, sample_draw)]
       (full_belt\<lparr>kernel := [None, None, None, None, Some EINTR]\<rparr>) = Some (Done True w')
     \<and> shm w' = shm full_belt \<and> sems w' SEM_EMPTY_SLOTS = 1"
  using woken_worker_leaves [OF full_belt_ready(1-4), of 9 sample_draw sample_draw "[]"] by auto

end
