(* ===== verification/Spec2Isabelle.thy ===== *)
theory Spec2Isabelle
  imports Startup Warehouse_Stop Warehouse_Types Warehouse_Kill Belt_Interrupts Belt_Atomicity Objects Signals
begin

text \<open>
  Verification of the warehouse simulation in this repository: a set of Linux processes that share a
  System V memory segment, four semaphores and one message queue.

  \<^bold>\<open>The program.\<close>  Workers (\<open>include/Worker.h\<close>) make packages and push them on a conveyor belt, a ring
  buffer of ten cells in shared memory (\<open>include/Belt.h\<close>).  The dispatcher (\<open>include/Dispatcher.h\<close>)
  pops them and loads them on the truck at the dock; the express worker (\<open>include/Express.h\<close>) loads
  batches past the belt.  Trucks (\<open>include/Truck.h\<close>) dock, wait for a signal, leave and come back.  An
  operator console (\<open>include/terminal/\<close>) sends signals and stops the system.  Every process has an
  entry in a session table (\<open>include/SessionManager.h\<close>).  The \<open>Manager\<close> (\<open>include/Manager.h\<close>) owns the
  IPC objects and hands each component the semaphore and message operations it needs.  The belt mutex
  protects the belt and the session table, the dock mutex protects the truck at the dock.

  \<^bold>\<open>Theories.\<close>
  \<^item> \<open>Prelude\<close>: checked \<open>int\<close> arithmetic and array accesses (undefined behaviour is \<open>None\<close>), reading a ring
    buffer, sums over a process table, reachability and inductive invariants of transition systems
    (locale \<open>inductive_invariant\<close>).
  \<^item> \<open>Doubles\<close>: binary64 as rationals with rounding to nearest, ties to even, overflow to infinity and
    NaN.  The two zeros are identified, which no operation of the program can observe.
  \<^item> \<open>Shared\<close>: \<open>include/Shared.h\<close>, constants, flag words, records and \<open>Package::pushAction\<close>.
  \<^item> \<open>Manager\<close>: the \<open>world\<close> a process sees, outcomes (done, blocked, exited, undefined behaviour),
    \<open>semOperation\<close> and its wrappers, the message queue, constructor and destructor.  The kernel is a
    script of the errors it reports; an empty script means that all calls succeed.  Locales \<open>mutex\<close> and
    \<open>signal_channel\<close>, interpreted on the two mutexes and on the message queue.
  \<^item> \<open>Belt\<close>: every method of \<open>include/Belt.h\<close>; each is a section over the shared state inside its
    semaphore operations.  Locale \<open>bounded_fifo\<close>, interpreted on the two sections.
  \<^item> \<open>Belt_Concurrency\<close>: the same sections executed by any number of processes, one semaphore operation
    or section per step, in any order.
  \<^item> \<open>Belt_Atomicity\<close>: one level finer, every load and store of a section is a step of its own; the
    refinement to \<open>Belt_Concurrency\<close>, and what happens when the wait for the mutex is interrupted.
  \<^item> \<open>Belt_Interrupts\<close>: \<open>Belt_Concurrency\<close> when waits for a slot or a package are interrupted.
  \<^item> \<open>Sessions\<close>: \<open>include/SessionManager.h\<close>, with the C string functions it uses.  Locale \<open>registry\<close>.
  \<^item> \<open>Dock\<close>, \<open>Dispatcher\<close>, \<open>Express\<close>: the capacity test, the retry loop of \<open>processNextPackage\<close>, the
    express batch.  Locale \<open>loader\<close>, interpreted for both loaders.  The trucks that come and go while the
    dispatcher retries are made of the steps of \<open>Truck\<close>.
  \<^item> \<open>Truck\<close>, \<open>Fleet\<close>: \<open>Truck::run\<close> as a machine with one step per section, and any number of trucks
    together with the loaders, the console and everybody else.
  \<^item> \<open>Worker\<close>, \<open>Terminal\<close>, \<open>Config\<close>, \<open>Processes\<close>: the worker, the console, the logger settings, the
    session guards, the main loops of \<open>src/main*.cpp\<close> and the deployment by the master: what each \<open>fork\<close>
    becomes in the child and in the parent, the children so far and the signals sent to them.
  \<^item> \<open>Startup\<close>: every \<open>main\<close> from its first line to its exit status: \<open>atoi\<close> and \<open>stoi\<close> on the arguments, the
    logger, the manager, the guard, the loop; the master with the log directory, \<open>fork\<close> and clean-up.
  \<^item> \<open>Signals\<close>: the handlers of \<open>SIGINT\<close> and \<open>SIGTERM\<close>, when each \<open>main\<close> installs them, the flags they write
    and the tests that read them; a worker that is woken at a full belt.
  \<^item> \<open>Objects\<close>: the classes as records of the callbacks they are given, and the constructor of \<open>Manager\<close>
    that passes them.  Locales \<open>wired_belt\<close> and \<open>wired_dispatcher\<close>, interpreted on its result.
  \<^item> \<open>Warehouse\<close>: the whole system, any number of processes of all seven programs interleaved step by
    step; simulations (locale \<open>forward_simulation\<close>) onto \<open>Belt_Concurrency\<close> and \<open>Fleet\<close>.
    \<open>Warehouse_Run\<close> executes it and relates an undisturbed method to the sequential one;
    \<open>Warehouse_Packages\<close>, \<open>Warehouse_Sessions\<close> and \<open>Warehouse_Types\<close> hold its invariants,
    \<open>Warehouse_Shutdown\<close> and \<open>Warehouse_Stop\<close> its end: how many steps are left, who can be left waiting,
    and the loop of the stop command through the session table.  \<open>Warehouse_Kill\<close> is the same system
    while processes are killed.

  \<^bold>\<open>State and operations.\<close>  A C++ class over shared memory becomes functions on \<open>SharedState\<close> or \<open>world\<close>
  with the source's names; its own fields are arguments and results.  Random draws, the time, the
  contents of uninitialised locals, standard input and environment variables are arguments.  A loop
  that waits for other processes takes the list of what the others do between its rounds and returns
  \<open>None\<close> (or the control point it has reached) when the list is used up.  No other fuel is used: a
  theorem that a loop ends names such a list, and it works for the shortest one that can do, one
  entry per truck that comes for the dispatcher and four steps for a truck that has to end.

  \<^bold>\<open>What is shown.\<close>  Of the whole system, in every reachable state: each accepted package is in exactly
  one place and none is loaded twice; the dock serves one truck at a time, within its weight and volume;
  every logged-in process has exactly its own slot of the session table; the shared segment, the queue
  and the semaphores are well typed; no section under the belt mutex is undefined up to the overflow of
  the package counter.  After the stop every execution comes to rest within a bound on the number of
  steps per process.  When nothing moves any more every process has returned, waits on the belt, or waits for
  a signal; after the stop command of the console, which sends one to every session, nobody is left
  waiting for a signal, while the master relies on \<open>SIGTERM\<close> to wake them.

  Of the components: the belt is a bounded FIFO queue that numbers its packages, as a sequential object
  and under every interleaving, also of the single loads and stores of its sections; its mutex excludes,
  its rejecting branches are dead and it is free of deadlock.  With interrupted waits for slots and
  packages it stays a queue, and the theorem gives the exact drift of its semaphores.  The dispatcher moves exactly the head of the belt and keeps trying until a truck has room;
  an express batch is the longest prefix that fits.  Quotas are counters, logging out undoes logging in.
  The console enforces the roles, and after its stop command every truck ends.  Messages arrive in order.  The constructor of \<open>Manager\<close> gives every component the operations it
  is meant to use; the master starts eight children, each of which takes the role the master means it to
  have, signals all of them and removes what it created; a program started too late leaves no trace.

  Where the code does not do what it says, a theorem shows the behaviour: an interrupted wait for the
  belt mutex that costs a package, a killed process that blocks its mutex, keeps its session or takes a
  package with it, interrupted receives, signals that are lost or end nothing, the weight limit of the belt, the item limit of a
  truck, packages dropped at shutdown, left-over departure signals, the drift of the weight counter.

  \<^bold>\<open>Not modelled.\<close>  Logging (spdlog, a third-party library) and the drawing of the console.  The results of
  \<open>fork\<close> and \<open>execv\<close> are arguments and both branches are modelled; \<open>waitpid\<close> and the file calls are their
  results; \<open>kill\<close> is a record of the signals sent, and what a signal does to its receiver is in \<open>Signals\<close>.  In \<open>Warehouse\<close> a section under a
  mutex is one step (\<open>Belt_Atomicity\<close> justifies this for the belt mutex, where a section of the session
  manager is a single access; the sections at the dock are not split), sleeping takes no step, and of
  the kernel's errors only an interrupted receive occurs, at any time and any number of times (the
  statements on who is left after a stop do not count it as a move): an interrupted wait for a mutex breaks the
  exclusion on which the invariants rest, and what it does is stated for the belt and for the sequential
  methods.  Reads of shared memory without a lock
  (\<open>running\<close>, the worker count in \<open>simulateWorkLoad\<close>, the dock in \<open>handleDepart\<close>) return the current value.
\<close>

section \<open>From the worker to the truck\<close>

text \<open>
  C21: from the belt onto a truck.  When a truck arrives at a free dock while a worker's package is at
  the head of the belt, the truck docks, and the dispatcher's next call takes exactly that package
  and loads it on that truck without waiting; the truck then carries this one item and is within its
  limits.
\<close>

theorem worker_package_is_loaded:
  assumes "belt_quiet w" "belt_inv (shm w)" "belt_contents (shm w) = p # ps" "legal_package p" "pkg_id p \<noteq> 0"
    and "running (shm w)" "dock_free w" "\<not> is_present (dock_truck (shm w))" "msg_room w" "0 < pid" "legal_rolls r"
  shows "\<exists>w1 w2. truck_run pid [(id, r0), (id, r)] Arriving w = Done Waiting w1
     \<and> processNextPackage [] w1 = Some (Done (p, True) w2) \<and> belt_contents (shm w2) = ps
     \<and> truck_id (dock_truck (shm w2)) = pid \<and> current_load (dock_truck (shm w2)) = 1
     \<and> truck_ok (dock_truck (shm w2))"
proof -
  define t where "t = randomizeTruckSpecs pid (roll_weight r) (roll_volume r) (dock_truck (shm w))"
  define w1 where "w1 = w\<lparr>shm := (shm w)\<lparr>dock_truck := t\<rparr>\<rparr>"
  have step: "truck_run pid [(id, r0), (id, r)] Arriving w = Done Waiting w1"
    using step_arriving [OF assms(7), of pid r0] step_docking [OF assms(7), of pid r] assms(6,8) by (simp add: w1_def t_def)
  have fit: "fits t (weight p) (volume p)"
    unfolding t_def using assms(4,11) by (intro legal_package_fits) (auto simp: legal_rolls_def)
  have q: "belt_quiet w1" "belt_inv (shm w1)" "belt_contents (shm w1) = p # ps" "running (shm w1)"
    "dock_truck (shm w1) = t"
    using assms(1-3,6) by (simp_all add: w1_def belt_quiet_def belt_inv_def belt_contents_def)
  have "dock_ready w1"
    using assms(7,9,10) by (simp add: w1_def t_def dock_ready_def dock_free_def msg_room_def in_int32_iff)
  then obtain w2 where w2: "processNextPackage [] w1 = Some (Done (p, True) w2)" "belt_contents (shm w2) = ps"
    "dock_truck (shm w2) = put_package p t"
    using processNextPackage_loads [OF q(1-3) assms(5) q(4) _ q(5) _ fit, of "[]"] by (auto simp: t_def)
  have "truck_id (put_package p t) = pid" "current_load (put_package p t) = 1" by (simp_all add: put_package_def t_def)
  then show ?thesis using step w2 package_loader.put_ok [OF fit] by (intro exI [of _ w1] exI [of _ w2]) simp
qed

definition belt_with :: "Package \<Rightarrow> world" where
  "belt_with p = boot_world\<lparr>sems := (sems boot_world)(SEM_EMPTY_SLOTS := 9, SEM_FULL_SLOTS := 1),
     shm := (shm boot_world)\<lparr>belt := p # replicate 9 zero_Package, tail := 1,
       current_items_count := 1, total_packages_created := 1\<rparr>\<rparr>"

theorem worker_package_is_loaded_witness:
  "\<exists>w1 w2. truck_run 77 [(id, plain_rolls), (id, plain_rolls)] Arriving
        (belt_with ((make_package 9 sample_draw)\<lparr>pkg_id := 1\<rparr>)) = Done Waiting w1
     \<and> processNextPackage [] w1 = Some (Done ((make_package 9 sample_draw)\<lparr>pkg_id := 1\<rparr>, True) w2)
     \<and> truck_id (dock_truck (shm w2)) = 77"
proof -
  define p where "p = (make_package 9 sample_draw)\<lparr>pkg_id := 1\<rparr>"
  have "legal_package p" "pkg_id p \<noteq> 0" using make_package_legal [OF sample_draw_legal] by (simp_all add: p_def)
  moreover have "belt_quiet (belt_with p)" "belt_inv (shm (belt_with p))" "belt_contents (shm (belt_with p)) = p # []"
    "running (shm (belt_with p))" "msg_room (belt_with p)"
    by (simp_all add: belt_with_def belt_quiet_def belt_inv_def belt_contents_def ring_def init_sems_def init_shm_def
        zero_SharedState_def shared_consts INT32_MAX_def msg_room_def)
  moreover have "dock_free (belt_with p)" "\<not> is_present (dock_truck (shm (belt_with p)))"
    using boot_dock by (simp_all add: belt_with_def dock_free_def)
  moreover have "legal_rolls plain_rolls" by (simp add: legal_rolls_def plain_rolls_def)
  ultimately show ?thesis
    using worker_package_is_loaded [of "belt_with p" p "[]" 77 plain_rolls plain_rolls] unfolding p_def by (metis zero_less_numeral)
qed

section \<open>From the console to the trucks\<close>

text \<open>
  C22: the emergency stop ends every truck.  After an administrator has entered \<open>stop\<close>, a truck that is
  logged in returns from its loop within four of its own steps, wherever it was in the loop, and it is
  not at the dock any more; in particular a truck that was waiting for a signal is woken up.
\<close>

theorem emergency_stop_ends_trucks:
  assumes "dock_free w" "getCurrentRole idx w = Some r" "UserRole_hasFlag r SysAdmin" "map to_lower line = ''stop''"
    and "\<forall>u \<in> set (users (shm w)). active u \<longrightarrow> 0 < session_pid u"
    and "4 * (int (length (msgq w)) + int (length (filter active (users (shm w))))) \<le> msg_qbytes w"
    and "v \<in> set (users (shm w))" "active v" "session_pid v = p"
    and "in_int32 (trucks_completed (shm w) + 1)" "4 \<le> length rs"
  shows "\<exists>t' out w1 w2. runOnce idx (Line line) t w = Done (t', out) w1
     \<and> truck_run p (map (Pair id) rs) pc w1 = Done Ended w2
     \<and> \<not> (pc \<noteq> Ended \<and> is_present (dock_truck (shm w2)) \<and> truck_id (dock_truck (shm w2)) = p)"
proof -
  have w: "attached w" "kernel w = []" using assms(1) by (simp_all add: dock_free_def)
  obtain t' out w1 where w1: "runOnce idx (Line line) t w = Done (t', out) w1"
    "shm w1 = (shm w)\<lparr>running := False\<rparr>"
    "\<forall>p. mailbox p (msgq w1) = mailbox p (msgq w) @ end_signals p (users (shm w))"
    "dock_free w1"
    using stop_command_effect [OF w assms(2-6), of t] assms(1) by (auto simp: dock_free_def)
  have "filter (\<lambda>u. active u \<and> session_pid u = p) (users (shm w)) \<noteq> []"
    using assms(7-9) by (auto simp: filter_empty_conv)
  then have "mailbox p (msgq w1) \<noteq> []" using w1(3) by (simp add: end_signals_def)
  moreover have "0 < p" "in_int32 (trucks_completed (shm w1) + 1)" "\<not> running (shm w1)"
    using assms(5,7-10) w1(2) by auto
  ultimately obtain w2 where "truck_run p (map (Pair id) rs) pc w1 = Done Ended w2"
    "\<not> (pc \<noteq> Ended \<and> is_present (dock_truck (shm w2)) \<and> truck_id (dock_truck (shm w2)) = p)"
    using truck_run_stopped [OF w1(4), of p pc rs] assms(11) by auto
  with w1(1) show ?thesis by blast
qed

theorem emergency_stop_ends_trucks_witness:
  "\<exists>t' out w1 w2. runOnce 0 (Line ''STOP'') TerminalManager_new (console_world (UserRole_or Operator SysAdmin)) = Done (t', out) w1
     \<and> truck_run 42 (map (Pair id) (replicate 4 plain_rolls)) Waiting w1 = Done Ended w2"
proof -
  define w where "w = console_world (UserRole_or Operator SysAdmin)"
  have u: "users (shm w) = new_session ''AdminConsole'' (UserRole_or Operator SysAdmin) 1 1 42 # replicate 209 zero_UserSession"
    by (simp add: w_def)
  have a: "active (new_session n x y z p)" "session_pid (new_session n x y z p) = p" "\<not> active zero_UserSession" for n x y z p
    by (simp_all add: new_session_def zero_UserSession_def)
  have l: "map to_lower ''STOP'' = ''stop''" by code_simp
  have p: "\<forall>v \<in> set (users (shm w)). active v \<longrightarrow> 0 < session_pid v" unfolding u by (simp add: a)
  have f: "4 * (int (length (msgq w)) + int (length (filter active (users (shm w))))) \<le> msg_qbytes w"
    unfolding u by (simp add: a w_def)
  have d: "dock_free w" "in_int32 (trucks_completed (shm w) + 1)"
    using boot_dock by (simp_all add: w_def console_world_def dock_free_def)
  have r: "getCurrentRole 0 w = Some (UserRole_or Operator SysAdmin)" by (simp add: w_def console_role)
  have m: "new_session ''AdminConsole'' (UserRole_or Operator SysAdmin) 1 1 42 \<in> set (users (shm w))" unfolding u by simp
  from emergency_stop_ends_trucks [OF d(1) r admin_flag l p f m a(1,2) d(2), of "replicate 4 plain_rolls" TerminalManager_new Waiting]
  show ?thesis by (auto simp: w_def)
qed

end
